(* ===== verification/Prelude.thy ===== *)
theory Prelude
  imports Main "HOL-Library.AList" "HOL-Library.Char_ord"
begin

text \<open>
  Shared vocabulary of the development.  A Go string is a sequence of bytes and is
  modelled by \<open>string\<close> (a list of 8-bit characters).  A Go map is an association list with
  distinct keys: Go leaves the order in which \<open>range\<close> visits a map unspecified, and wherever
  that order could matter it is a parameter of the model.  The functions of the package
  \<open>strings\<close> that the gateway uses are defined here, together with the outcome of a handler
  (it returns, panics, or is still running).
\<close>

named_theorems go_defs \<open>definitions of small helpers that are always unfolded\<close>
named_theorems frame \<open>what an operation leaves unchanged\<close>

section \<open>Outcomes\<close>

text \<open>
  An HTTP handler returns, panics, or does not come back (a stream that never ends).  The
  state reached so far is kept in each case, so that what was already sent stays visible.
\<close>

datatype 's go = Ret 's | Panic 's | Hang 's

fun go_state :: "'s go \<Rightarrow> 's" where
  "go_state (Ret s) = s"
| "go_state (Panic s) = s"
| "go_state (Hang s) = s"

fun go_bind :: "'s go \<Rightarrow> ('s \<Rightarrow> 's go) \<Rightarrow> 's go" where
  "go_bind (Ret s) f = f s"
| "go_bind (Panic s) f = Panic s"
| "go_bind (Hang s) f = Hang s"

fun go_map :: "('s \<Rightarrow> 't) \<Rightarrow> 's go \<Rightarrow> 't go" where
  "go_map f (Ret s) = Ret (f s)"
| "go_map f (Panic s) = Panic (f s)"
| "go_map f (Hang s) = Hang (f s)"

lemma go_state_map [simp]: "go_state (go_map f x) = f (go_state x)"
  by (cases x) auto

lemma go_bind_Ret_iff: "go_bind x f = Ret t \<longleftrightarrow> (\<exists>s. x = Ret s \<and> f s = Ret t)"
  by (cases x) auto

section \<open>Go maps\<close>

type_synonym ('k, 'v) gomap = "('k \<times> 'v) list"

abbreviation keys :: "('k, 'v) gomap \<Rightarrow> 'k list" where
  "keys m \<equiv> map fst m"

definition wf_map :: "('k, 'v) gomap \<Rightarrow> bool" where
  "wf_map m = distinct (keys m)"

lemma wf_map_Nil [simp]: "wf_map []"
  by (simp add: wf_map_def)

lemma wf_map_update [simp]: "wf_map m \<Longrightarrow> wf_map (AList.update k v m)"
  by (simp add: wf_map_def distinct_update)

lemma wf_map_delete [simp]: "wf_map m \<Longrightarrow> wf_map (AList.delete k m)"
  by (simp add: wf_map_def distinct_delete)

lemma wf_map_filter [simp]: "wf_map m \<Longrightarrow> wf_map (filter P m)"
  by (simp add: wf_map_def distinct_map_filter)

lemma map_of_update [simp]: "map_of (AList.update k v m) = (map_of m)(k \<mapsto> v)"
  by (rule update_conv')

lemma map_of_delete [simp]: "map_of (AList.delete k m) = (map_of m)(k := None)"
  by (rule delete_conv')

lemma length_update_new:
  "map_of m k = None \<Longrightarrow> length (AList.update k v m) = Suc (length m)"
  by (induction m) auto

lemma length_update_old:
  "map_of m k \<noteq> None \<Longrightarrow> length (AList.update k v m) = length m"
  by (induction m) auto

lemma length_delete_old:
  "wf_map m \<Longrightarrow> map_of m k \<noteq> None \<Longrightarrow> length (AList.delete k m) = length m - 1"
proof (induction m)
  case Nil
  then show ?case by simp
next
  case (Cons x m)
  obtain a b where x: "x = (a, b)" by fastforce
  show ?case
  proof (cases "a = k")
    case True
    with Cons.prems x have "k \<notin> fst ` set m" by (auto simp: wf_map_def)
    then have "AList.delete k m = m" by (simp add: delete_id)
    with x True show ?thesis by simp
  next
    case False
    with Cons.prems x have "map_of m k \<noteq> None" and "wf_map m" by (auto simp: wf_map_def)
    moreover from \<open>map_of m k \<noteq> None\<close> have "m \<noteq> []" by auto
    ultimately show ?thesis using Cons.IH x False by (cases m) auto
  qed
qed

lemma length_delete_le': "length (AList.delete k m) \<le> length m"
  by (rule length_delete_le)

lemma map_of_filter_wf:
  "wf_map m \<Longrightarrow>
   map_of (filter (\<lambda>(k, v). P k v) m) k =
     (case map_of m k of None \<Rightarrow> None | Some v \<Rightarrow> if P k v then Some v else None)"
  by (induction m) (auto simp: wf_map_def map_of_eq_None_iff image_iff split: option.splits)

section \<open>Package strings\<close>

fun hasPrefix :: "string \<Rightarrow> string \<Rightarrow> bool" where
  "hasPrefix s [] = True"
| "hasPrefix [] (p # ps) = False"
| "hasPrefix (c # cs) (p # ps) = (c = p \<and> hasPrefix cs ps)"

fun containsSub :: "string \<Rightarrow> string \<Rightarrow> bool" where
  "containsSub [] sub = hasPrefix [] sub"
| "containsSub (c # cs) sub = (hasPrefix (c # cs) sub \<or> containsSub cs sub)"

definition trimPrefix :: "string \<Rightarrow> string \<Rightarrow> string" where
  "trimPrefix s p = (if hasPrefix s p then drop (length p) s else s)"

definition trimRight :: "string \<Rightarrow> char \<Rightarrow> string" where
  "trimRight s c = rev (dropWhile (\<lambda>x. x = c) (rev s))"

definition hasSuffix :: "string \<Rightarrow> string \<Rightarrow> bool" where
  "hasSuffix s p = hasPrefix (rev s) (rev p)"

lemma hasPrefix_iff: "hasPrefix s p \<longleftrightarrow> (\<exists>r. s = p @ r)"
  by (induction s p rule: hasPrefix.induct) auto

lemma hasPrefix_append [simp]: "hasPrefix (p @ r) p"
  by (auto simp: hasPrefix_iff)

lemma trimPrefix_append [simp]: "trimPrefix (p @ r) p = r"
  by (simp add: trimPrefix_def)

lemma containsSub_iff: "containsSub s sub \<longleftrightarrow> (\<exists>a b. s = a @ sub @ b)"
proof (induction s)
  case Nil
  then show ?case by (auto simp: hasPrefix_iff)
next
  case (Cons c s)
  show ?case (is "?L \<longleftrightarrow> ?R")
  proof
    assume ?L
    then consider "hasPrefix (c # s) sub" | "containsSub s sub" by auto
    then show ?R
    proof cases
      case 1
      then show ?thesis by (metis append_Nil hasPrefix_iff)
    next
      case 2
      with Cons.IH show ?thesis by (metis append_Cons)
    qed
  next
    assume ?R
    then obtain a b where ab: "c # s = a @ sub @ b" by blast
    show ?L
    proof (cases a)
      case Nil
      with ab have "hasPrefix (c # s) sub" by (metis append_Nil hasPrefix_iff)
      then show ?thesis by simp
    next
      case (Cons x xs)
      with ab have "s = xs @ sub @ b" by simp
      with \<open>containsSub s sub = _\<close> show ?thesis by auto
    qed
  qed
qed

lemma hd_dropWhile_neq: "dropWhile (\<lambda>x. x = c) xs = [] \<or> hd (dropWhile (\<lambda>x. x = c) xs) \<noteq> c"
  by (induction xs) auto

lemma trimRight_last: "trimRight s c = [] \<or> last (trimRight s c) \<noteq> c"
  using hd_dropWhile_neq [of c "rev s"] by (auto simp: trimRight_def last_rev)

text \<open>Bytes as numbers.\<close>

abbreviation byte :: "char \<Rightarrow> nat" where
  "byte c \<equiv> of_char c"

abbreviation chr :: "nat \<Rightarrow> char" where
  "chr n \<equiv> char_of n"

definition quote :: string where
  "quote = [CHR 0x22]"

end
