(* ===== verification/GoText.thy ===== *)
theory GoText
  imports Prelude
begin

text \<open>
  The text routines of the Go standard library that the gateway calls: decoding a string
  into runes (UTF-8, as \<open>range\<close> over a string does), \<open>strings.Fields\<close>,
  \<open>strconv.Atoi\<close> and \<open>strconv.Itoa\<close>, and hexadecimal output.
\<close>

section \<open>UTF-8\<close>

definition runeError :: nat where
  "runeError = 0xFFFD"

definition cont_byte :: "nat \<Rightarrow> bool" where
  "cont_byte b \<longleftrightarrow> 0x80 \<le> b \<and> b \<le> 0xBF"

text \<open>
  \<open>decodeRune s\<close> is the first rune of a non-empty string and the number of bytes it
  takes; an invalid sequence is the replacement character with width 1.
\<close>

definition decodeRune2 :: "nat \<Rightarrow> string \<Rightarrow> nat \<times> nat" where
  "decodeRune2 b0 r = (case r of
     c1 # _ \<Rightarrow> if cont_byte (byte c1) then ((b0 - 0xC0) * 64 + (byte c1 - 0x80), 2)
               else (runeError, 1)
   | [] \<Rightarrow> (runeError, 1))"

definition decodeRune3 :: "nat \<Rightarrow> string \<Rightarrow> nat \<times> nat" where
  "decodeRune3 b0 r = (case r of
     c1 # c2 # _ \<Rightarrow>
       if (if b0 = 0xE0 then 0xA0 else 0x80) \<le> byte c1 \<and>
          byte c1 \<le> (if b0 = 0xED then 0x9F else 0xBF) \<and> cont_byte (byte c2)
       then ((b0 - 0xE0) * 4096 + (byte c1 - 0x80) * 64 + (byte c2 - 0x80), 3)
       else (runeError, 1)
   | _ \<Rightarrow> (runeError, 1))"

definition decodeRune4 :: "nat \<Rightarrow> string \<Rightarrow> nat \<times> nat" where
  "decodeRune4 b0 r = (case r of
     c1 # c2 # c3 # _ \<Rightarrow>
       if (if b0 = 0xF0 then 0x90 else 0x80) \<le> byte c1 \<and>
          byte c1 \<le> (if b0 = 0xF4 then 0x8F else 0xBF) \<and>
          cont_byte (byte c2) \<and> cont_byte (byte c3)
       then ((b0 - 0xF0) * 262144 + (byte c1 - 0x80) * 4096 +
             (byte c2 - 0x80) * 64 + (byte c3 - 0x80), 4)
       else (runeError, 1)
   | _ \<Rightarrow> (runeError, 1))"

definition decodeRune :: "char \<Rightarrow> string \<Rightarrow> nat \<times> nat" where
  "decodeRune c r = (let b0 = byte c in
     if b0 < 0x80 then (b0, 1)
     else if 0xC2 \<le> b0 \<and> b0 \<le> 0xDF then decodeRune2 b0 r
     else if 0xE0 \<le> b0 \<and> b0 \<le> 0xEF then decodeRune3 b0 r
     else if 0xF0 \<le> b0 \<and> b0 \<le> 0xF4 then decodeRune4 b0 r
     else (runeError, 1))"

definition encodeRune :: "nat \<Rightarrow> string" where
  "encodeRune n =
    (if n < 0x80 then [chr n]
     else if n < 0x800 then [chr (0xC0 + n div 64), chr (0x80 + n mod 64)]
     else if n < 0x10000 then
       [chr (0xE0 + n div 4096), chr (0x80 + n div 64 mod 64), chr (0x80 + n mod 64)]
     else [chr (0xF0 + n div 262144), chr (0x80 + n div 4096 mod 64),
           chr (0x80 + n div 64 mod 64), chr (0x80 + n mod 64)])"

lemmas decodeRune_parts = decodeRune2_def decodeRune3_def decodeRune4_def

lemma decodeRune_width: "decodeRune c r = (n, w) \<Longrightarrow> 1 \<le> w \<and> w \<le> 4 \<and> w \<le> Suc (length r)"
  by (auto simp: decodeRune_def decodeRune_parts Let_def split: if_splits list.splits)

lemma decodeRune_ascii: "byte c < 0x80 \<Longrightarrow> decodeRune c r = (byte c, 1)"
  by (simp add: decodeRune_def)

lemma decodeRune_not_ascii: "0x80 \<le> byte c \<Longrightarrow> decodeRune c r = (n, w) \<Longrightarrow> 0x80 \<le> n"
  by (auto simp: decodeRune_def decodeRune_parts runeError_def Let_def
      split: if_splits list.splits)

text \<open>The runes of a string, in the order in which \<open>range\<close> yields them.\<close>

fun runes :: "string \<Rightarrow> nat list" where
  "runes [] = []"
| "runes (c # r) = (let (n, w) = decodeRune c r in n # runes (drop (w - 1) r))"

declare runes.simps(2) [simp del]

lemma runes_ascii_iff:
  "(\<forall>n \<in> set (runes s). n < 0x80) \<longleftrightarrow> (\<forall>c \<in> set s. byte c < 0x80)"
proof (induction s rule: runes.induct)
  case 1
  then show ?case by simp
next
  case (2 c r)
  obtain n w where nw: "decodeRune c r = (n, w)" by fastforce
  show ?case
  proof (cases "byte c < 0x80")
    case True
    with nw have "n = byte c" "w = 1" by (simp_all add: decodeRune_ascii)
    with nw "2.IH" [OF refl, of n w] True show ?thesis by (simp add: runes.simps(2))
  next
    case False
    with nw have "0x80 \<le> n" using decodeRune_not_ascii [of c r n w] by simp
    with nw False show ?thesis by (auto simp: runes.simps(2))
  qed
qed

lemma runes_of_ascii: "\<forall>c \<in> set s. byte c < 0x80 \<Longrightarrow> runes s = map byte s"
  by (induction s) (simp_all add: runes.simps(2) decodeRune_ascii)

section \<open>strings.Fields\<close>

definition isSpaceRune :: "nat \<Rightarrow> bool" where
  "isSpaceRune n \<longleftrightarrow> n \<in> {0x09, 0x0A, 0x0B, 0x0C, 0x0D, 0x20, 0x85, 0xA0, 0x1680,
     0x2028, 0x2029, 0x202F, 0x205F, 0x3000} \<or> 0x2000 \<le> n \<and> n \<le> 0x200A"

text \<open>\<open>cur\<close> is the field being collected, reversed.\<close>

definition flush :: "string \<Rightarrow> string list" where
  "flush cur = (if cur = [] then [] else [rev cur])"

fun Fields_from :: "string \<Rightarrow> string \<Rightarrow> string list" where
  "Fields_from cur [] = flush cur"
| "Fields_from cur (c # r) = (let (n, w) = decodeRune c r in
     if isSpaceRune n then flush cur @ Fields_from [] (drop (w - 1) r)
     else Fields_from (rev (take (w - 1) r) @ c # cur) (drop (w - 1) r))"

declare Fields_from.simps(2) [simp del]

definition Fields :: "string \<Rightarrow> string list" where
  "Fields s = Fields_from [] s"

lemma Fields_from_nonempty: "f \<in> set (Fields_from cur s) \<Longrightarrow> f \<noteq> []"
proof (induction cur s rule: Fields_from.induct)
  case (1 cur)
  then show ?case by (auto simp: flush_def split: if_splits)
next
  case (2 cur c r)
  obtain n w where nw: "decodeRune c r = (n, w)" by fastforce
  with 2 show ?case
    by (auto simp: Fields_from.simps(2) flush_def split: if_splits)
qed

lemma Fields_nonempty: "f \<in> set (Fields s) \<Longrightarrow> f \<noteq> []"
  by (simp add: Fields_def Fields_from_nonempty)

section \<open>Decimal numbers\<close>

definition is_digit :: "char \<Rightarrow> bool" where
  "is_digit c \<longleftrightarrow> 48 \<le> byte c \<and> byte c \<le> 57"

definition digit_val :: "char \<Rightarrow> nat" where
  "digit_val c = byte c - 48"

definition digit_chr :: "nat \<Rightarrow> char" where
  "digit_chr d = chr (48 + d)"

fun digits_value :: "nat \<Rightarrow> string \<Rightarrow> nat" where
  "digits_value acc [] = acc"
| "digits_value acc (c # r) = digits_value (10 * acc + digit_val c) r"

definition min_int64 :: int where
  "min_int64 = - (2 ^ 63)"

definition max_int64 :: int where
  "max_int64 = 2 ^ 63 - 1"

text \<open>
  \<open>strconv.Atoi\<close> and \<open>strconv.ParseInt(s, 10, 64)\<close>: an optional sign and at least one
  decimal digit; out of range is an error (\<open>None\<close>).
\<close>

definition parseInt64 :: "string \<Rightarrow> int option" where
  "parseInt64 s =
    (let neg = (case s of c # _ \<Rightarrow> c = CHR ''-'' | [] \<Rightarrow> False);
         ds = (case s of c # r \<Rightarrow> if c = CHR ''-'' \<or> c = CHR ''+'' then r else s | [] \<Rightarrow> [])
     in if ds = [] \<or> \<not> list_all is_digit ds then None
        else let v = int (digits_value 0 ds); n = (if neg then - v else v)
             in if min_int64 \<le> n \<and> n \<le> max_int64 then Some n else None)"

definition atoi :: "string \<Rightarrow> int option" where
  "atoi s = parseInt64 s"

fun itoa_nat :: "nat \<Rightarrow> string" where
  "itoa_nat n = (if n < 10 then [digit_chr n] else itoa_nat (n div 10) @ [digit_chr (n mod 10)])"

declare itoa_nat.simps [simp del]

definition itoa :: "int \<Rightarrow> string" where
  "itoa n = (if n < 0 then CHR ''-'' # itoa_nat (nat (- n)) else itoa_nat (nat n))"

lemma digit_chr_is_digit: "d < 10 \<Longrightarrow> is_digit (digit_chr d)"
  by (simp add: is_digit_def digit_chr_def)

lemma digit_val_chr: "d < 10 \<Longrightarrow> digit_val (digit_chr d) = d"
  by (simp add: digit_val_def digit_chr_def)

lemma itoa_nat_digits: "list_all is_digit (itoa_nat n)"
proof (induction n rule: itoa_nat.induct)
  case (1 n)
  then show ?case
    by (subst itoa_nat.simps) (auto simp: digit_chr_is_digit)
qed

lemma itoa_nat_nonempty: "itoa_nat n \<noteq> []"
  by (subst itoa_nat.simps) simp

lemma digits_value_append:
  "digits_value acc (xs @ [c]) = 10 * digits_value acc xs + digit_val c"
  by (induction xs arbitrary: acc) auto

lemma digits_value_itoa_nat: "digits_value 0 (itoa_nat n) = n"
proof (induction n rule: itoa_nat.induct)
  case (1 n)
  then show ?case
    by (subst itoa_nat.simps) (auto simp: digits_value_append digit_val_chr)
qed

lemma not_digit_sign [simp]: "\<not> is_digit (CHR ''-'')" "\<not> is_digit (CHR ''+'')"
  by (simp_all add: is_digit_def)

lemma itoa_nat_Cons:
  obtains c r where "itoa_nat n = c # r" "c \<noteq> CHR ''-''" "c \<noteq> CHR ''+''"
proof (cases "itoa_nat n")
  case Nil
  then show ?thesis by (simp add: itoa_nat_nonempty)
next
  case (Cons c r)
  with itoa_nat_digits [of n] have "is_digit c" by simp
  then have "c \<noteq> CHR ''-''" "c \<noteq> CHR ''+''" by auto
  with Cons show ?thesis by (rule that)
qed

lemma atoi_itoa:
  assumes "min_int64 \<le> n" and "n \<le> max_int64"
  shows "atoi (itoa n) = Some n"
proof (cases "n < 0")
  case True
  then show ?thesis using assms
    by (simp add: atoi_def parseInt64_def itoa_def itoa_nat_digits itoa_nat_nonempty
        digits_value_itoa_nat Let_def)
next
  case False
  obtain c r where cr: "itoa_nat (nat n) = c # r" "c \<noteq> CHR ''-''" "c \<noteq> CHR ''+''"
    by (rule itoa_nat_Cons)
  have "list_all is_digit (c # r)" "digits_value 0 (c # r) = nat n"
    using itoa_nat_digits [of "nat n"] digits_value_itoa_nat [of "nat n"] by (simp_all only: cr(1))
  with False cr assms show ?thesis
    by (simp add: atoi_def parseInt64_def itoa_def Let_def)
qed

lemma itoa_nonempty: "itoa n \<noteq> []"
  by (simp add: itoa_def itoa_nat_nonempty)

section \<open>Hexadecimal output\<close>

definition hex_digit :: "nat \<Rightarrow> char" where
  "hex_digit d = (if d < 10 then chr (48 + d) else chr (87 + d))"

text \<open>\<open>%x\<close> of a byte slice and \<open>hex.EncodeToString\<close>: two lower-case digits per byte.\<close>

definition hex_byte :: "nat \<Rightarrow> string" where
  "hex_byte b = [hex_digit (b div 16), hex_digit (b mod 16)]"

fun hex_string :: "nat list \<Rightarrow> string" where
  "hex_string [] = []"
| "hex_string (b # bs) = hex_byte b @ hex_string bs"

definition is_hex_lower :: "char \<Rightarrow> bool" where
  "is_hex_lower c \<longleftrightarrow> is_digit c \<or> 97 \<le> byte c \<and> byte c \<le> 102"

lemma length_hex_string [simp]: "length (hex_string bs) = 2 * length bs"
  by (induction bs) (auto simp: hex_byte_def)

lemma hex_digit_lower: "d < 16 \<Longrightarrow> is_hex_lower (hex_digit d)"
  by (auto simp: hex_digit_def is_hex_lower_def is_digit_def)

lemma hex_string_lower: "\<forall>b \<in> set bs. b < 256 \<Longrightarrow> list_all is_hex_lower (hex_string bs)"
  by (induction bs) (auto simp: hex_byte_def intro!: hex_digit_lower)

lemma hex_digit_inj: "d < 16 \<Longrightarrow> e < 16 \<Longrightarrow> hex_digit d = hex_digit e \<Longrightarrow> d = e"
  by (auto simp: hex_digit_def split: if_splits dest!: arg_cong [where f = byte])

lemma hex_string_inj:
  assumes "\<forall>b \<in> set bs. b < 256" "\<forall>b \<in> set cs. b < 256" "hex_string bs = hex_string cs"
  shows "bs = cs"
  using assms
proof (induction bs arbitrary: cs)
  case Nil
  then show ?case by (cases cs) (auto simp: hex_byte_def)
next
  case (Cons b bs)
  then obtain c cs' where cs: "cs = c # cs'" by (cases cs) (auto simp: hex_byte_def)
  with Cons.prems have "hex_digit (b div 16) = hex_digit (c div 16)"
    "hex_digit (b mod 16) = hex_digit (c mod 16)" and rest: "hex_string bs = hex_string cs'"
    by (auto simp: hex_byte_def)
  with Cons.prems cs have "b div 16 = c div 16" "b mod 16 = c mod 16"
    by (auto intro!: hex_digit_inj)
  then have "b = c" by (metis div_mult_mod_eq)
  with Cons.IH [of cs'] Cons.prems cs rest show ?case by simp
qed

end
