(* ===== verification/TokenCache.thy ===== *)
theory TokenCache
  imports Sha256 "HOL-Library.Multiset"
begin

text \<open>
  \<open>internal/auth/cache.go\<close>: the token cache.  Time is a number of nanoseconds since the Unix
  epoch.  The clock (the field \<open>now\<close> of \<open>TokenCache\<close>) is a function from the number of the
  reading to the time; each operation takes the number of the next reading and returns the one
  after its last reading.  The order in which \<open>range\<close> visits the map is the parameter \<open>ord\<close>.
\<close>

section \<open>Time\<close>

definition second :: int where "second = 1000000000"
definition minute :: int where "minute = 60 * second"

definition min_duration :: int where "min_duration = - (2 ^ 63)"
definition max_duration :: int where "max_duration = 2 ^ 63 - 1"

definition wrap64 :: "int \<Rightarrow> int" where
  "wrap64 n = (n + 2 ^ 63) mod 2 ^ 64 - 2 ^ 63"

text \<open>\<open>time.Unix(sec, 0)\<close> counts seconds from year 1 in 64 bits.\<close>

definition unixToInternal :: int where
  "unixToInternal = 62135596800"

definition time_Unix :: "int \<Rightarrow> int" where
  "time_Unix sec = (wrap64 (sec + unixToInternal) - unixToInternal) * second"

text \<open>\<open>t.Sub(u)\<close> is a \<open>Duration\<close>: 64 bits, saturating.\<close>

definition time_Sub :: "int \<Rightarrow> int \<Rightarrow> int" where
  "time_Sub t u = (if t - u < min_duration then min_duration
                   else if max_duration < t - u then max_duration else t - u)"

lemma time_Sub_le: "0 < time_Sub t u \<Longrightarrow> time_Sub t u \<le> t - u"
  by (auto simp: time_Sub_def min_duration_def max_duration_def split: if_splits)

lemma time_Unix_exact:
  "0 \<le> sec \<Longrightarrow> sec \<le> max_int64 - unixToInternal \<Longrightarrow> time_Unix sec = sec * second"
  by (simp add: time_Unix_def wrap64_def unixToInternal_def max_int64_def)

section \<open>Data\<close>

text \<open>\<open>IntrospectionResult\<close> of \<open>internal/auth/token.go\<close>.\<close>

record introspection =
  ir_ClientID :: string
  ir_Scope :: string
  ir_ExpiresAt :: int
  ir_Active :: bool

record cache_entry =
  ce_result :: introspection
  ce_expiresAt :: int

record token_cache =
  tc_entries :: "(string, cache_entry) gomap"
  tc_ttl :: int
  tc_maxEntries :: int

definition defaultCacheTTL :: int where "defaultCacheTTL = 5 * minute"
definition defaultMaxEntries :: int where "defaultMaxEntries = 10000"

type_synonym cache_option = "token_cache \<Rightarrow> token_cache"

definition WithCacheTTL :: "int \<Rightarrow> cache_option" where
  "WithCacheTTL ttl c = c\<lparr>tc_ttl := ttl\<rparr>"

definition WithMaxEntries :: "int \<Rightarrow> cache_option" where
  "WithMaxEntries n c = (if 0 < n then c\<lparr>tc_maxEntries := n\<rparr> else c)"

definition NewTokenCache :: "cache_option list \<Rightarrow> token_cache" where
  "NewTokenCache opts = fold (\<lambda>opt c. opt c) opts
     \<lparr>tc_entries = [], tc_ttl = defaultCacheTTL, tc_maxEntries = defaultMaxEntries\<rparr>"

definition hashToken :: "string \<Rightarrow> string" where
  "hashToken token = hex_string (sum256 token)"

section \<open>Operations\<close>

type_synonym clock = "nat \<Rightarrow> int"
type_synonym range_order = "(string, cache_entry) gomap \<Rightarrow> (string, cache_entry) gomap"

definition cacheLen :: "token_cache \<Rightarrow> int" where
  "cacheLen c = int (length (tc_entries c))"

definition cacheGet :: "clock \<Rightarrow> string \<Rightarrow> nat \<times> token_cache \<Rightarrow>
    introspection option \<times> (nat \<times> token_cache)" where
  "cacheGet now token = (\<lambda>(t, c).
    let key = hashToken token in
    case map_of (tc_entries c) key of
      None \<Rightarrow> (None, (t, c))
    | Some e \<Rightarrow>
        if ce_expiresAt e < now t
        then (None, (Suc t, c\<lparr>tc_entries := AList.delete key (tc_entries c)\<rparr>))
        else (Some (ce_result e), (Suc t, c)))"

definition evictExpired :: "int \<Rightarrow> token_cache \<Rightarrow> token_cache" where
  "evictExpired now c = c\<lparr>tc_entries := filter (\<lambda>(k, e). \<not> ce_expiresAt e < now) (tc_entries c)\<rparr>"

text \<open>The loop of \<open>evictOldestLocked\<close>: \<open>None\<close> is \<open>first == true\<close>.\<close>

fun oldest_of :: "(string \<times> int) option \<Rightarrow> (string, cache_entry) gomap \<Rightarrow> (string \<times> int) option" where
  "oldest_of acc [] = acc"
| "oldest_of acc ((k, e) # m) = (case acc of
     None \<Rightarrow> oldest_of (Some (k, ce_expiresAt e)) m
   | Some (ok, ot) \<Rightarrow> if ce_expiresAt e < ot then oldest_of (Some (k, ce_expiresAt e)) m
                       else oldest_of acc m)"

definition evictOldest :: "range_order \<Rightarrow> token_cache \<Rightarrow> token_cache" where
  "evictOldest ord c = (case oldest_of None (ord (tc_entries c)) of
     None \<Rightarrow> c
   | Some (k, _) \<Rightarrow> c\<lparr>tc_entries := AList.delete k (tc_entries c)\<rparr>)"

text \<open>
  The part of \<open>Set\<close> that runs under the lock: first room for a new key, then the entry itself.
\<close>

definition makeRoom :: "range_order \<Rightarrow> clock \<Rightarrow> string \<Rightarrow> nat \<times> token_cache \<Rightarrow> nat \<times> token_cache" where
  "makeRoom ord now key = (\<lambda>(t, c).
    if map_of (tc_entries c) key = None \<and> tc_maxEntries c \<le> cacheLen c
    then let c' = evictExpired (now t) c
         in (Suc t, if tc_maxEntries c' \<le> cacheLen c' then evictOldest ord c' else c')
    else (t, c))"

definition cacheStore :: "range_order \<Rightarrow> clock \<Rightarrow> string \<Rightarrow> introspection \<Rightarrow> int \<Rightarrow>
    nat \<times> token_cache \<Rightarrow> nat \<times> token_cache" where
  "cacheStore ord now key result ttl tc =
    (let (t, c) = makeRoom ord now key tc
     in (Suc t, c\<lparr>tc_entries :=
           AList.update key \<lparr>ce_result = result, ce_expiresAt = now t + ttl\<rparr> (tc_entries c)\<rparr>))"

definition cacheSet :: "range_order \<Rightarrow> clock \<Rightarrow> string \<Rightarrow> introspection \<Rightarrow>
    nat \<times> token_cache \<Rightarrow> nat \<times> token_cache" where
  "cacheSet ord now token result = (\<lambda>(t, c).
    let key = hashToken token in
    if 0 < ir_ExpiresAt result then
      let remaining = time_Sub (time_Unix (ir_ExpiresAt result)) (now t) in
      if remaining \<le> 0 then (Suc t, c)
      else cacheStore ord now key result (if remaining < tc_ttl c then remaining else tc_ttl c) (Suc t, c)
    else cacheStore ord now key result (tc_ttl c) (t, c))"

section \<open>Invariant\<close>

definition cache_wf :: "token_cache \<Rightarrow> bool" where
  "cache_wf c \<longleftrightarrow> wf_map (tc_entries c) \<and> 0 < tc_maxEntries c \<and> cacheLen c \<le> tc_maxEntries c"

text \<open>A range visits every entry of the map once, in some order.\<close>

definition is_range :: "range_order \<Rightarrow> bool" where
  "is_range ord \<longleftrightarrow> (\<forall>m. mset (ord m) = mset m)"

lemma is_range_id [simp]: "is_range (\<lambda>m. m)"
  by (simp add: is_range_def)

lemma is_range_set: "is_range ord \<Longrightarrow> set (ord m) = set m"
  by (metis is_range_def set_mset_mset)

lemma oldest_of_Some:
  "oldest_of (Some (k, t)) m = Some (k', t') \<Longrightarrow>
   t' \<le> t \<and> (\<forall>(x, e) \<in> set m. t' \<le> ce_expiresAt e) \<and>
   ((k', t') = (k, t) \<or> (\<exists>e. (k', e) \<in> set m \<and> ce_expiresAt e = t'))"
proof (induction m arbitrary: k t)
  case Nil
  then show ?case by simp
next
  case (Cons a m)
  obtain x e where a: "a = (x, e)" by fastforce
  show ?case
  proof (cases "ce_expiresAt e < t")
    case True
    with Cons.prems a have "oldest_of (Some (x, ce_expiresAt e)) m = Some (k', t')" by simp
    from Cons.IH [OF this] True a show ?thesis by auto
  next
    case False
    with Cons.prems a have "oldest_of (Some (k, t)) m = Some (k', t')" by simp
    from Cons.IH [OF this] False a show ?thesis by auto
  qed
qed

lemma oldest_of_not_None: "oldest_of (Some x) m \<noteq> None"
  by (induction m arbitrary: x) (auto split: prod.splits)

lemma oldest_of_None: "oldest_of None m = None \<longleftrightarrow> m = []"
proof (cases m)
  case (Cons a m')
  then show ?thesis using oldest_of_not_None by (cases a) auto
qed simp

text \<open>The key \<open>evictOldestLocked\<close> deletes belongs to an entry with the earliest expiry.\<close>

lemma oldest_of_least:
  "oldest_of None m = Some (k, t) \<Longrightarrow>
   (\<exists>e. (k, e) \<in> set m \<and> ce_expiresAt e = t) \<and> (\<forall>(x, e) \<in> set m. t \<le> ce_expiresAt e)"
  by (cases m) (fastforce dest!: oldest_of_Some)+

lemma evictExpired_fields [simp]:
  "tc_ttl (evictExpired now c) = tc_ttl c" "tc_maxEntries (evictExpired now c) = tc_maxEntries c"
  by (simp_all add: evictExpired_def)

lemma evictOldest_fields [simp]:
  "tc_ttl (evictOldest ord c) = tc_ttl c" "tc_maxEntries (evictOldest ord c) = tc_maxEntries c"
  by (simp_all add: evictOldest_def split: option.split prod.split)

lemma cache_wf_evictExpired: "cache_wf c \<Longrightarrow> cache_wf (evictExpired now c)"
proof -
  assume "cache_wf c"
  moreover have "length (tc_entries (evictExpired now c)) \<le> length (tc_entries c)"
    by (simp add: evictExpired_def)
  moreover have "wf_map (tc_entries c) \<Longrightarrow> wf_map (tc_entries (evictExpired now c))"
    by (simp add: evictExpired_def)
  ultimately show ?thesis by (auto simp: cache_wf_def cacheLen_def)
qed

lemma evictOldest_length:
  assumes "is_range ord" "wf_map (tc_entries c)" "tc_entries c \<noteq> []"
  shows "length (tc_entries (evictOldest ord c)) = length (tc_entries c) - 1"
proof -
  have "ord (tc_entries c) \<noteq> []"
    using assms(1,3) is_range_set [OF assms(1), of "tc_entries c"] by auto
  then obtain k t where kt: "oldest_of None (ord (tc_entries c)) = Some (k, t)"
    using oldest_of_None by fastforce
  then obtain e where "(k, e) \<in> set (tc_entries c)"
    using oldest_of_least [OF kt] is_range_set [OF assms(1)] by auto
  then have "map_of (tc_entries c) k \<noteq> None"
    by (metis map_of_eq_None_iff fst_conv image_eqI)
  with kt assms(2) show ?thesis
    by (simp add: evictOldest_def length_delete_old)
qed

lemma wf_map_evictOldest [simp]: "wf_map (tc_entries c) \<Longrightarrow> wf_map (tc_entries (evictOldest ord c))"
  by (simp add: evictOldest_def split: option.split prod.split)

lemma makeRoom_fields:
  "makeRoom ord now key (t, c) = (t', c') \<Longrightarrow>
   tc_ttl c' = tc_ttl c \<and> tc_maxEntries c' = tc_maxEntries c \<and> t \<le> t'"
  by (auto simp: makeRoom_def Let_def split: if_splits)

lemma makeRoom_wf:
  assumes "is_range ord" "cache_wf c" "makeRoom ord now key (t, c) = (t', c')"
  shows "wf_map (tc_entries c')" (is ?wf)
    and "map_of (tc_entries c') key \<noteq> None \<and> cacheLen c' \<le> tc_maxEntries c' \<or>
      cacheLen c' < tc_maxEntries c'" (is ?room)
proof -
  let ?c1 = "evictExpired (now t) c"
  have wf1: "cache_wf ?c1" by (rule cache_wf_evictExpired [OF assms(2)])
  have len: "cacheLen (evictOldest ord ?c1) < tc_maxEntries c" if "tc_maxEntries ?c1 \<le> cacheLen ?c1"
  proof -
    have ne: "tc_entries ?c1 \<noteq> []" using wf1 that by (auto simp: cache_wf_def cacheLen_def)
    then have "length (tc_entries ?c1) \<noteq> 0" by simp
    with evictOldest_length [OF assms(1) _ ne] wf1 show ?thesis
      by (auto simp: cache_wf_def cacheLen_def)
  qed
  show ?wf ?room
    using assms(2,3) wf1 len
    by (auto simp: makeRoom_def Let_def cache_wf_def split: if_splits)
qed

lemma cache_wf_update:
  assumes "wf_map (tc_entries c)" "0 < tc_maxEntries c"
    and "map_of (tc_entries c) key \<noteq> None \<and> cacheLen c \<le> tc_maxEntries c \<or> cacheLen c < tc_maxEntries c"
  shows "cache_wf (c\<lparr>tc_entries := AList.update key v (tc_entries c)\<rparr>)"
  using assms by (cases "map_of (tc_entries c) key")
    (auto simp: cache_wf_def cacheLen_def length_update_new length_update_old)

lemma cache_wf_cacheStore:
  assumes "is_range ord" "cache_wf c" "cacheStore ord now key result ttl (t, c) = (t', c')"
  shows "cache_wf c'"
proof -
  obtain t1 c1 where r: "makeRoom ord now key (t, c) = (t1, c1)" by fastforce
  have "0 < tc_maxEntries c1" using makeRoom_fields [OF r] assms(2) by (simp add: cache_wf_def)
  from cache_wf_update [OF makeRoom_wf(1) [OF assms(1,2) r] this makeRoom_wf(2) [OF assms(1,2) r]]
  show ?thesis using assms(3) r by (auto simp: cacheStore_def)
qed

lemma cache_wf_cacheSet:
  assumes "is_range ord" "cache_wf c" "cacheSet ord now token result (t, c) = (t', c')"
  shows "cache_wf c'"
  using assms cache_wf_cacheStore [OF assms(1,2)]
  by (auto simp: cacheSet_def Let_def split: if_splits)

lemma cache_wf_cacheGet:
  assumes "cache_wf c" "cacheGet now token (t, c) = (r, (t', c'))"
  shows "cache_wf c'"
  using assms length_delete_le' [of "hashToken token" "tc_entries c"]
  by (auto simp: cacheGet_def cache_wf_def cacheLen_def Let_def split: option.splits if_splits)

lemma cache_wf_New: "cache_wf (NewTokenCache [])"
  by (simp add: NewTokenCache_def cache_wf_def cacheLen_def defaultMaxEntries_def)

section \<open>What a cache promises its client\<close>

text \<open>
  The client of the cache (the auth middleware) relies on this much: a hit is something that was
  stored under the token's key, and no operation invents entries.  \<open>contents\<close> is the set of
  stored pairs of key and result.
\<close>

locale result_cache =
  fixes get :: "string \<Rightarrow> nat \<times> 'c \<Rightarrow> introspection option \<times> (nat \<times> 'c)"
    and put :: "string \<Rightarrow> introspection \<Rightarrow> nat \<times> 'c \<Rightarrow> nat \<times> 'c"
    and key :: "string \<Rightarrow> string"
    and contents :: "'c \<Rightarrow> (string \<times> introspection) set"
  assumes get_hit: "get token (t, c) = (Some r, tc) \<Longrightarrow> (key token, r) \<in> contents c"
    and get_contents: "contents (snd (snd (get token (t, c)))) \<subseteq> contents c"
    and put_contents: "contents (snd (put token r (t, c))) \<subseteq> insert (key token, r) (contents c)"
begin

text \<open>A property of the stored pairs is kept as long as only pairs with the property are put.\<close>

definition justified :: "(string \<Rightarrow> introspection \<Rightarrow> bool) \<Rightarrow> 'c \<Rightarrow> bool" where
  "justified P c \<longleftrightarrow> (\<forall>(k, r) \<in> contents c. P k r)"

lemma justified_mono: "justified P c \<Longrightarrow> (\<And>k r. P k r \<Longrightarrow> Q k r) \<Longrightarrow> justified Q c"
  by (auto simp: justified_def)

lemma justified_get: "justified P c \<Longrightarrow> justified P (snd (snd (get token (t, c))))"
  using get_contents [of token t c] by (auto simp: justified_def)

lemma justified_hit: "justified P c \<Longrightarrow> get token (t, c) = (Some r, tc) \<Longrightarrow> P (key token) r"
  using get_hit [of token t c r tc] by (auto simp: justified_def)

lemma justified_put: "justified P c \<Longrightarrow> P (key token) r \<Longrightarrow> justified P (snd (put token r (t, c)))"
  using put_contents [of token r t c] by (auto simp: justified_def)

end

definition cache_contents :: "token_cache \<Rightarrow> (string \<times> introspection) set" where
  "cache_contents c = (\<lambda>(k, e). (k, ce_result e)) ` set (tc_entries c)"

lemma set_update_subset: "set (AList.update k v m) \<subseteq> insert (k, v) (set m)"
  by (induction m) auto

lemma set_delete_subset: "set (AList.delete k m) \<subseteq> set m"
  by (induction m) auto

lemma makeRoom_entries:
  "makeRoom ord now key (t, c) = (t', c') \<Longrightarrow> set (tc_entries c') \<subseteq> set (tc_entries c)"
  using set_delete_subset
  by (fastforce simp: makeRoom_def evictExpired_def evictOldest_def Let_def
      split: if_splits option.splits)

lemma cacheStore_contents:
  "cache_contents (snd (cacheStore ord now key r ttl (t, c))) \<subseteq> insert (key, r) (cache_contents c)"
proof -
  obtain t1 c1 where m: "makeRoom ord now key (t, c) = (t1, c1)" by fastforce
  have "cache_contents (snd (cacheStore ord now key r ttl (t, c))) \<subseteq> insert (key, r) (cache_contents c1)"
    using set_update_subset by (fastforce simp: cacheStore_def m cache_contents_def)
  moreover have "cache_contents c1 \<subseteq> cache_contents c"
    unfolding cache_contents_def by (intro image_mono makeRoom_entries [OF m])
  ultimately show ?thesis by blast
qed

text \<open>An operation adds at most one entry, for its own key, which lives for the TTL of the cache at most.\<close>

lemma cacheStore_entries:
  assumes "cacheStore ord now key r n (t, c) = (t', c')"
  shows "set (tc_entries c') \<subseteq> insert (key, \<lparr>ce_result = r, ce_expiresAt = now (t' - 1) + n\<rparr>) (set (tc_entries c))"
    and "tc_ttl c' = tc_ttl c"
proof -
  obtain t1 c1 where m: "makeRoom ord now key (t, c) = (t1, c1)" by fastforce
  show "set (tc_entries c') \<subseteq> insert (key, \<lparr>ce_result = r, ce_expiresAt = now (t' - 1) + n\<rparr>) (set (tc_entries c))"
    using assms m makeRoom_entries [OF m] set_update_subset by (fastforce simp: cacheStore_def)
  show "tc_ttl c' = tc_ttl c" using assms m makeRoom_fields [OF m] by (auto simp: cacheStore_def)
qed

lemma cacheSet_entries:
  assumes "cacheSet ord now token r (t, c) = (t', c')"
  shows "tc_ttl c' = tc_ttl c" "(k, e) \<in> set (tc_entries c') \<Longrightarrow>
    (k, e) \<in> set (tc_entries c) \<or> k = hashToken token \<and> ce_result e = r \<and> (\<exists>u. ce_expiresAt e \<le> now u + tc_ttl c)"
proof -
  have "tc_ttl c' = tc_ttl c \<and> (\<forall>(k, e) \<in> set (tc_entries c'). (k, e) \<in> set (tc_entries c) \<or>
      k = hashToken token \<and> ce_result e = r \<and> (\<exists>u. ce_expiresAt e \<le> now u + tc_ttl c))"
  proof (cases "c' = c")
    case False
    then obtain u n where s: "cacheStore ord now (hashToken token) r n (u, c) = (t', c')" "n \<le> tc_ttl c"
      using assms by (auto simp: cacheSet_def Let_def split: if_splits)
    from cacheStore_entries [OF s(1)] s(2) show ?thesis by (auto intro!: exI [of _ "t' - 1"])
  qed auto
  then show "tc_ttl c' = tc_ttl c" "(k, e) \<in> set (tc_entries c') \<Longrightarrow>
    (k, e) \<in> set (tc_entries c) \<or> k = hashToken token \<and> ce_result e = r \<and> (\<exists>u. ce_expiresAt e \<le> now u + tc_ttl c)"
    by auto
qed

interpretation tokens: result_cache "cacheGet now" "cacheSet ord now" hashToken cache_contents
  for now ord
proof
  fix token t c r tc
  assume "cacheGet now token (t, c) = (Some r, tc)"
  then obtain e where "map_of (tc_entries c) (hashToken token) = Some e" "r = ce_result e"
    by (auto simp: cacheGet_def Let_def split: option.splits if_splits)
  then show "(hashToken token, r) \<in> cache_contents c"
    by (force simp: cache_contents_def dest: map_of_SomeD)
next
  fix token t c
  show "cache_contents (snd (snd (cacheGet now token (t, c)))) \<subseteq> cache_contents c"
    using set_delete_subset [of "hashToken token" "tc_entries c"]
    by (auto simp: cacheGet_def cache_contents_def Let_def split: option.split)
next
  fix token r t c
  show "cache_contents (snd (cacheSet ord now token r (t, c))) \<subseteq> insert (hashToken token, r) (cache_contents c)"
    using cacheStore_contents by (auto simp: cacheSet_def Let_def)
qed

section \<open>Functional behaviour\<close>

lemma cacheGet_miss:
  "map_of (tc_entries c) (hashToken token) = None \<Longrightarrow> cacheGet now token (t, c) = (None, (t, c))"
  by (simp add: cacheGet_def)

lemma cacheGet_Some_iff:
  "(\<exists>tc. cacheGet now token (t, c) = (Some r, tc)) \<longleftrightarrow>
   (\<exists>e. map_of (tc_entries c) (hashToken token) = Some e \<and> now t \<le> ce_expiresAt e \<and> r = ce_result e)"
  by (auto simp: cacheGet_def Let_def split: option.splits if_splits)

text \<open>An expired entry is removed by the \<open>Get\<close> that finds it; a hit changes nothing.\<close>

lemma cacheGet_entries:
  "map_of (tc_entries (snd (snd (cacheGet now token (t, c))))) k =
    (if k = hashToken token \<and>
        (\<exists>e. map_of (tc_entries c) k = Some e \<and> ce_expiresAt e < now t)
     then None else map_of (tc_entries c) k)"
  by (auto simp: cacheGet_def Let_def split: option.splits)

text \<open>The life time \<open>Set\<close> gives a result at time \<open>n\<close>; \<open>None\<close>: the token has expired.\<close>

definition entry_ttl :: "token_cache \<Rightarrow> introspection \<Rightarrow> int \<Rightarrow> int option" where
  "entry_ttl c result n =
    (if 0 < ir_ExpiresAt result then
       let remaining = time_Sub (time_Unix (ir_ExpiresAt result)) n in
       if remaining \<le> 0 then None else Some (min remaining (tc_ttl c))
     else Some (tc_ttl c))"

lemma cacheSet_expired:
  "entry_ttl c result (now t) = None \<Longrightarrow> cacheSet ord now token result (t, c) = (Suc t, c)"
  by (auto simp: cacheSet_def entry_ttl_def Let_def split: if_splits)

lemma cacheSet_stores:
  assumes "entry_ttl c result (now t) = Some ttl"
    and "cacheSet ord now token result (t, c) = (t', c')"
  shows "map_of (tc_entries c') (hashToken token) =
      Some \<lparr>ce_result = result, ce_expiresAt = now (t' - 1) + ttl\<rparr>"
    and "t < t'"
  using assms makeRoom_fields
  by (fastforce simp: cacheSet_def entry_ttl_def cacheStore_def Let_def min_def
      split: if_splits prod.splits)+

lemma entry_ttl_le: "entry_ttl c result n = Some ttl \<Longrightarrow> ttl \<le> tc_ttl c"
  by (auto simp: entry_ttl_def Let_def split: if_splits)

lemma entry_ttl_exp:
  "entry_ttl c result n = Some ttl \<Longrightarrow> 0 < ir_ExpiresAt result \<Longrightarrow>
   n + ttl \<le> time_Unix (ir_ExpiresAt result)"
  using time_Sub_le [of "time_Unix (ir_ExpiresAt result)" n]
  by (auto simp: entry_ttl_def Let_def split: if_splits)

text \<open>Other keys: \<open>Set\<close> keeps an entry that is not expired unless the cache is full.\<close>

lemma cacheSet_keeps:
  assumes "cacheLen c < tc_maxEntries c \<or> map_of (tc_entries c) (hashToken token) \<noteq> None"
    and "k \<noteq> hashToken token"
  shows "map_of (tc_entries (snd (cacheSet ord now token result (t, c)))) k = map_of (tc_entries c) k"
  using assms by (auto simp: cacheSet_def cacheStore_def makeRoom_def Let_def split: if_splits)

text \<open>Eviction: only expired entries, or one entry with the earliest expiry.\<close>

lemma evictOldest_removes:
  assumes "is_range ord" "wf_map (tc_entries c)" "tc_entries c \<noteq> []"
  obtains k e where "map_of (tc_entries c) k = Some e"
    "\<forall>(x, e') \<in> set (tc_entries c). ce_expiresAt e \<le> ce_expiresAt e'"
    "tc_entries (evictOldest ord c) = AList.delete k (tc_entries c)"
proof -
  have "ord (tc_entries c) \<noteq> []"
    using assms(1,3) is_range_set [OF assms(1), of "tc_entries c"] by auto
  then obtain k t where kt: "oldest_of None (ord (tc_entries c)) = Some (k, t)"
    using oldest_of_None by fastforce
  then obtain e where e: "(k, e) \<in> set (tc_entries c)" "ce_expiresAt e = t"
    and least: "\<forall>(x, e') \<in> set (tc_entries c). t \<le> ce_expiresAt e'"
    using oldest_of_least [OF kt] is_range_set [OF assms(1)] by auto
  with assms(2) have "map_of (tc_entries c) k = Some e" by (simp add: wf_map_def)
  moreover have "tc_entries (evictOldest ord c) = AList.delete k (tc_entries c)"
    by (simp add: evictOldest_def kt)
  ultimately show ?thesis using that e least by blast
qed

section \<open>Runs of operations\<close>

datatype cache_op = GetOp string | SetOp string introspection

fun cache_step :: "range_order \<Rightarrow> clock \<Rightarrow> cache_op \<Rightarrow> nat \<times> token_cache \<Rightarrow> nat \<times> token_cache" where
  "cache_step ord now (GetOp token) tc = snd (cacheGet now token tc)"
| "cache_step ord now (SetOp token r) tc = cacheSet ord now token r tc"

definition cache_run :: "range_order \<Rightarrow> clock \<Rightarrow> cache_op list \<Rightarrow> nat \<times> token_cache \<Rightarrow> nat \<times> token_cache" where
  "cache_run ord now ops tc = fold (cache_step ord now) ops tc"

lemma cacheGet_max: "tc_maxEntries (snd (snd (cacheGet now token tc))) = tc_maxEntries (snd tc)"
  by (cases tc) (auto simp: cacheGet_def Let_def split: option.split)

lemma cacheSet_max: "tc_maxEntries (snd (cacheSet ord now token r tc)) = tc_maxEntries (snd tc)"
  by (cases tc) (auto simp: cacheSet_def cacheStore_def Let_def dest: makeRoom_fields split: prod.split)

lemma cache_step_ok:
  assumes "is_range ord" "cache_wf (snd tc)"
  shows "cache_wf (snd (cache_step ord now op tc)) \<and>
    tc_maxEntries (snd (cache_step ord now op tc)) = tc_maxEntries (snd tc)"
proof (cases op)
  case (GetOp token)
  obtain r tc' where g: "cacheGet now token (fst tc, snd tc) = (r, (fst tc', snd tc'))"
    by (metis prod.collapse)
  show ?thesis using cache_wf_cacheGet [OF assms(2) g] g GetOp cacheGet_max [of now token tc] by simp
next
  case (SetOp token r)
  obtain t' c' where g: "cacheSet ord now token r (fst tc, snd tc) = (t', c')" by fastforce
  show ?thesis using cache_wf_cacheSet [OF assms g] g SetOp cacheSet_max [of ord now token r tc] by simp
qed

lemma cache_run_ok:
  "is_range ord \<Longrightarrow> cache_wf (snd tc) \<Longrightarrow> cache_wf (snd (cache_run ord now ops tc)) \<and>
    tc_maxEntries (snd (cache_run ord now ops tc)) = tc_maxEntries (snd tc)"
  unfolding cache_run_def by (induction ops arbitrary: tc) (simp_all add: cache_step_ok)

section \<open>Properties\<close>

text \<open>
  The cache is bounded: whatever is looked up and stored, and in whatever order the map is ranged
  over, it never holds more than its maximum number of entries (the option's value if it is positive,
  10000 otherwise), and one entry per key.
\<close>

lemma cache_stays_bounded:
  assumes "is_range ord"
    and "cache_run ord now ops (t, NewTokenCache [WithCacheTTL ttl, WithMaxEntries n]) = (t', c)"
  shows "cacheLen c \<le> (if 0 < n then n else 10000) \<and> distinct (keys (tc_entries c))"
proof -
  let ?c0 = "NewTokenCache [WithCacheTTL ttl, WithMaxEntries n]"
  have m: "tc_maxEntries ?c0 = (if 0 < n then n else 10000)"
    by (simp add: NewTokenCache_def WithCacheTTL_def WithMaxEntries_def defaultMaxEntries_def)
  have "cache_wf (snd (t, ?c0))"
    by (simp add: NewTokenCache_def WithCacheTTL_def WithMaxEntries_def cache_wf_def cacheLen_def
        defaultMaxEntries_def)
  from cache_run_ok [OF assms(1) this, of now ops] m show ?thesis
    using assms(2) by (simp add: cache_wf_def wf_map_def split: if_splits)
qed

definition demo_token_result :: introspection where
  "demo_token_result = \<lparr>ir_ClientID = ''agent'', ir_Scope = [], ir_ExpiresAt = 100, ir_Active = True\<rparr>"

text \<open>
  C19: an entry is stored for exactly the smaller of the cache's TTL and what \<open>Set\<close> found to remain of the
  token's life, counted from when it is inserted.  So it lives no longer than the TTL, and it outlives the token
  by at most the time between the clock readings by which \<open>Set\<close> finds what remains and inserts the entry; a
  token that has expired is not stored at all.
\<close>

theorem cacheSet_lifetime:
  assumes "cacheSet ord now token result (t, c) = (t', c')"
    and "map_of (tc_entries c') (hashToken token) = Some e" "c' \<noteq> c"
  shows "ce_result e = result \<and> ce_expiresAt e \<le> now (t' - 1) + tc_ttl c \<and>
    ce_expiresAt e = now (t' - 1) + (if 0 < ir_ExpiresAt result
      then min (time_Sub (time_Unix (ir_ExpiresAt result)) (now t)) (tc_ttl c) else tc_ttl c) \<and>
    (0 < ir_ExpiresAt result \<longrightarrow>
       now t < time_Unix (ir_ExpiresAt result) \<and>
       ce_expiresAt e \<le> time_Unix (ir_ExpiresAt result) + (now (t' - 1) - now t))"
proof -
  obtain ttl where ttl: "entry_ttl c result (now t) = Some ttl"
    using assms cacheSet_expired [of c result now t ord token] by (cases "entry_ttl c result (now t)") auto
  have e: "e = \<lparr>ce_result = result, ce_expiresAt = now (t' - 1) + ttl\<rparr>"
    using cacheSet_stores(1) [OF ttl assms(1)] assms(2) by simp
  have "now t < time_Unix (ir_ExpiresAt result)" if "0 < ir_ExpiresAt result"
    using ttl that time_Sub_le [of "time_Unix (ir_ExpiresAt result)" "now t"]
    by (auto simp: entry_ttl_def Let_def split: if_splits)
  moreover have "ttl = (if 0 < ir_ExpiresAt result
      then min (time_Sub (time_Unix (ir_ExpiresAt result)) (now t)) (tc_ttl c) else tc_ttl c)"
    using ttl by (auto simp: entry_ttl_def Let_def split: if_splits)
  ultimately show ?thesis using e entry_ttl_le [OF ttl] entry_ttl_exp [OF ttl] by auto
qed

theorem cacheSet_lifetime_witness:
  "\<exists>t' c' e. cacheSet (\<lambda>m. m) (\<lambda>_. 0) ''a'' demo_token_result (0, NewTokenCache []) = (t', c') \<and>
     map_of (tc_entries c') (hashToken ''a'') = Some e \<and> ce_expiresAt e \<le> 100 * second"
proof -
  let ?c = "NewTokenCache []"
  obtain t' c' where s: "cacheSet (\<lambda>m. m) (\<lambda>_. 0) ''a'' demo_token_result (0, ?c) = (t', c')" by fastforce
  have "entry_ttl ?c demo_token_result 0 = Some (100 * second)"
    by (simp add: entry_ttl_def demo_token_result_def time_Unix_def wrap64_def unixToInternal_def time_Sub_def
        min_duration_def max_duration_def second_def NewTokenCache_def defaultCacheTTL_def minute_def)
  from cacheSet_stores(1) [OF this s] obtain e where e: "map_of (tc_entries c') (hashToken ''a'') = Some e" by blast
  moreover have "c' \<noteq> ?c" using e by (auto simp: NewTokenCache_def)
  moreover have "time_Unix 100 = 100 * second" by (rule time_Unix_exact) (simp_all add: max_int64_def unixToInternal_def)
  ultimately show ?thesis using cacheSet_lifetime [OF s e] s by (auto simp: demo_token_result_def)
qed

text \<open>
  C20: what was stored is found again until it expires: after a \<open>Set\<close> that stores, a \<open>Get\<close> of the same
  token hits exactly while the clock has not passed the expiry, and returns what was stored.
\<close>

theorem cacheSet_then_Get:
  assumes "entry_ttl c result (now t) = Some ttl"
    and "cacheSet ord now token result (t, c) = (t', c')"
  shows "fst (cacheGet now token (u, c')) = (if now u \<le> now (t' - 1) + ttl then Some result else None)"
  using cacheSet_stores(1) [OF assms] by (simp add: cacheGet_def not_less Let_def)

theorem cacheSet_then_Get_witness:
  "\<exists>t' c'. cacheSet (\<lambda>m. m) (\<lambda>_. 0) ''a'' (demo_token_result\<lparr>ir_ExpiresAt := 0\<rparr>) (0, NewTokenCache []) = (t', c') \<and>
     fst (cacheGet (\<lambda>_. 0) ''a'' (t', c')) = Some (demo_token_result\<lparr>ir_ExpiresAt := 0\<rparr>)"
proof -
  let ?r = "demo_token_result\<lparr>ir_ExpiresAt := 0\<rparr>"
  obtain t' c' where s: "cacheSet (\<lambda>m. m) (\<lambda>_. 0) ''a'' ?r (0, NewTokenCache []) = (t', c')" by fastforce
  have "entry_ttl (NewTokenCache []) ?r 0 = Some defaultCacheTTL"
    by (simp add: entry_ttl_def NewTokenCache_def)
  from cacheSet_then_Get [OF this s, of t'] s show ?thesis
    by (simp add: defaultCacheTTL_def minute_def second_def)
qed

text \<open>
  C21: making room costs as little as it can: \<open>Set\<close> drops an entry only for a new key and only if the cache is
  full; and the entry it drops has expired, or no entry had expired and it is the one entry dropped, which
  expires no later than any other.
\<close>

theorem eviction_spares_live_entries:
  assumes "is_range ord" "cache_wf c" "makeRoom ord now key (t, c) = (t', c')"
    and "map_of (tc_entries c) k = Some e" "map_of (tc_entries c') k = None"
  shows "map_of (tc_entries c) key = None \<and> cacheLen c = tc_maxEntries c \<and>
    (ce_expiresAt e < now t \<or>
     (\<forall>(x, e') \<in> set (tc_entries c). now t \<le> ce_expiresAt e' \<and> ce_expiresAt e \<le> ce_expiresAt e') \<and>
     (\<forall>x. x \<noteq> k \<longrightarrow> map_of (tc_entries c') x = map_of (tc_entries c) x))"
proof -
  have full: "map_of (tc_entries c) key = None \<and> cacheLen c = tc_maxEntries c"
    using assms(2-5) by (auto simp: makeRoom_def cache_wf_def split: if_splits)
  moreover have "(\<forall>(x, e') \<in> set (tc_entries c). now t \<le> ce_expiresAt e' \<and> ce_expiresAt e \<le> ce_expiresAt e') \<and>
     (\<forall>x. x \<noteq> k \<longrightarrow> map_of (tc_entries c') x = map_of (tc_entries c) x)" if False: "\<not> ce_expiresAt e < now t"
  proof -
    let ?c1 = "evictExpired (now t) c"
    have wf: "wf_map (tc_entries c)" using assms(2) by (simp add: cache_wf_def)
    have "(k, e) \<in> set (tc_entries ?c1)"
      using assms(4) False by (auto simp: evictExpired_def dest: map_of_SomeD)
    moreover have wf1: "wf_map (tc_entries ?c1)" using wf by (simp add: evictExpired_def)
    ultimately have in1: "map_of (tc_entries ?c1) k = Some e" by (simp add: wf_map_def)
    then have c': "c' = evictOldest ord ?c1" and ne: "tc_entries ?c1 \<noteq> []" and cap: "tc_maxEntries c \<le> cacheLen ?c1"
      using assms(3-5) by (auto simp: makeRoom_def Let_def split: if_splits)
    have all: "tc_entries ?c1 = tc_entries c"
      using cap full length_filter_less [of _ "tc_entries c" "\<lambda>(k, e). \<not> ce_expiresAt e < now t"]
      by (fastforce simp: evictExpired_def cacheLen_def filter_id_conv)
    obtain k' e' where k': "map_of (tc_entries ?c1) k' = Some e'"
      "\<forall>(x, e'') \<in> set (tc_entries ?c1). ce_expiresAt e' \<le> ce_expiresAt e''"
      "tc_entries (evictOldest ord ?c1) = AList.delete k' (tc_entries ?c1)"
      by (rule evictOldest_removes [OF assms(1) wf1 ne])
    then have k: "k' = k" using in1 assms(5) c' by (auto simp: delete_conv' split: if_splits)
    with k'(1) in1 have "e' = e" by simp
    moreover have "now t \<le> ce_expiresAt e''" if "(x, e'') \<in> set (tc_entries c)" for x e''
      using that all by (auto simp: evictExpired_def filter_id_conv)
    moreover have "map_of (tc_entries c') x = map_of (tc_entries c) x" if "x \<noteq> k" for x
      using that k'(3) k c' all by (simp add: delete_conv')
    ultimately show ?thesis using k'(2) all by fastforce
  qed
  ultimately show ?thesis by blast
qed

theorem eviction_spares_live_entries_witness:
  "\<exists>c t' c'. cache_wf c \<and> makeRoom (\<lambda>m. m) (\<lambda>_. 0) ''n'' (0, c) = (t', c') \<and>
     map_of (tc_entries c) ''a'' \<noteq> None \<and> map_of (tc_entries c') ''a'' = None \<and>
     (\<forall>(x, e') \<in> set (tc_entries c). 5 \<le> ce_expiresAt e')"
proof -
  let ?a = "\<lparr>ce_result = demo_token_result, ce_expiresAt = 5\<rparr>"
  let ?b = "\<lparr>ce_result = demo_token_result, ce_expiresAt = 7\<rparr>"
  let ?c = "\<lparr>tc_entries = [(''b'', ?b), (''a'', ?a)], tc_ttl = 9, tc_maxEntries = 2\<rparr>"
  let ?c' = "?c\<lparr>tc_entries := [(''b'', ?b)]\<rparr>"
  have wf: "cache_wf ?c" by (simp add: cache_wf_def wf_map_def cacheLen_def)
  have m: "makeRoom (\<lambda>m. m) (\<lambda>_. 0) ''n'' (0, ?c) = (1, ?c')"
    by (simp add: makeRoom_def cacheLen_def evictExpired_def evictOldest_def)
  have "\<forall>(x, e') \<in> set (tc_entries ?c). 5 \<le> ce_expiresAt e'"
    using eviction_spares_live_entries [OF is_range_id wf m, of "''a''" ?a] by simp
  moreover have "map_of (tc_entries ?c) ''a'' \<noteq> None" "map_of (tc_entries ?c') ''a'' = None" by simp_all
  ultimately show ?thesis using wf m by blast
qed

end
