(* ===== verification/Http.thy ===== *)
theory Http
  imports GoText
begin

text \<open>
  The parts of \<open>net/http\<close> the gateway works on: header maps, the request with its context
  values, the request body with \<open>http.MaxBytesReader\<close>, and the response writer, including the
  wrapper \<open>statusRecorder\<close> of \<open>internal/audit/middleware.go\<close>, which is the only other
  \<open>http.ResponseWriter\<close> of the program.
\<close>

section \<open>Header maps\<close>

text \<open>\<open>textproto.CanonicalMIMEHeaderKey\<close>: unchanged if a byte is not a token byte.\<close>

definition is_upper :: "char \<Rightarrow> bool" where
  "is_upper c \<longleftrightarrow> 65 \<le> byte c \<and> byte c \<le> 90"

definition is_lower :: "char \<Rightarrow> bool" where
  "is_lower c \<longleftrightarrow> 97 \<le> byte c \<and> byte c \<le> 122"

definition is_token_byte :: "char \<Rightarrow> bool" where
  "is_token_byte c \<longleftrightarrow> is_digit c \<or> is_upper c \<or> is_lower c \<or>
     c \<in> set [CHR ''!'', CHR ''#'', CHR ''$'', CHR ''%'', CHR ''&'', CHR 0x27, CHR ''*'',
              CHR ''+'', CHR ''-'', CHR ''.'', CHR ''^'', CHR ''_'', CHR 0x60, CHR ''|'', CHR ''~'']"

definition to_upper :: "char \<Rightarrow> char" where
  "to_upper c = (if is_lower c then chr (byte c - 32) else c)"

definition to_lower :: "char \<Rightarrow> char" where
  "to_lower c = (if is_upper c then chr (byte c + 32) else c)"

fun canon_from :: "bool \<Rightarrow> string \<Rightarrow> string" where
  "canon_from up [] = []"
| "canon_from up (c # r) = (if up then to_upper c else to_lower c) # canon_from (c = CHR ''-'') r"

definition canonicalKey :: "string \<Rightarrow> string" where
  "canonicalKey s = (if list_all is_token_byte s then canon_from True s else s)"

text \<open>Evaluates a canonical name to itself.\<close>

lemma canonicalKeyI:
  "list_all is_token_byte s \<Longrightarrow> canon_from True s = s \<Longrightarrow> canonicalKey s = s"
  by (simp add: canonicalKey_def)

lemmas canonical_defs = is_token_byte_def is_upper_def is_lower_def is_digit_def
  to_upper_def to_lower_def

type_synonym header = "(string, string list) gomap"

definition hvalues :: "header \<Rightarrow> string \<Rightarrow> string list" where
  "hvalues h k = (case map_of h k of None \<Rightarrow> [] | Some vs \<Rightarrow> vs)"

definition hget :: "header \<Rightarrow> string \<Rightarrow> string" where
  "hget h k = (case hvalues h (canonicalKey k) of [] \<Rightarrow> [] | v # _ \<Rightarrow> v)"

definition hset :: "string \<Rightarrow> string \<Rightarrow> header \<Rightarrow> header" where
  "hset k v h = AList.update (canonicalKey k) [v] h"

definition hadd :: "string \<Rightarrow> string \<Rightarrow> header \<Rightarrow> header" where
  "hadd k v h = (let c = canonicalKey k in AList.update c (hvalues h c @ [v]) h)"

definition hdel :: "string \<Rightarrow> header \<Rightarrow> header" where
  "hdel k h = AList.delete (canonicalKey k) h"

lemma hvalues_Nil [simp]: "hvalues [] k = []"
  by (simp add: hvalues_def)

lemma hvalues_hset: "hvalues (hset k v h) k' = (if k' = canonicalKey k then [v] else hvalues h k')"
  by (simp add: hvalues_def hset_def)

lemma hvalues_hadd:
  "hvalues (hadd k v h) k' = (if k' = canonicalKey k then hvalues h k' @ [v] else hvalues h k')"
  by (simp add: hvalues_def hadd_def Let_def split: option.split)

lemma hvalues_hdel: "hvalues (hdel k h) k' = (if k' = canonicalKey k then [] else hvalues h k')"
  by (simp add: hvalues_def hdel_def)

lemma wf_map_header [simp]:
  "wf_map h \<Longrightarrow> wf_map (hset k v h)" "wf_map h \<Longrightarrow> wf_map (hadd k v h)" "wf_map h \<Longrightarrow> wf_map (hdel k h)"
  by (simp_all add: hset_def hadd_def hdel_def Let_def)

lemma hget_hset: "hget (hset k v h) k' = (if canonicalKey k' = canonicalKey k then v else hget h k')"
  by (simp add: hget_def hvalues_hset)

lemma hget_hdel: "hget (hdel k h) k' = (if canonicalKey k' = canonicalKey k then [] else hget h k')"
  by (simp add: hget_def hvalues_hdel)

section \<open>Status codes\<close>

definition StatusOK :: nat where "StatusOK = 200"
definition StatusTemporaryRedirect :: nat where "StatusTemporaryRedirect = 307"
definition StatusUnauthorized :: nat where "StatusUnauthorized = 401"
definition StatusForbidden :: nat where "StatusForbidden = 403"
definition StatusInternalServerError :: nat where "StatusInternalServerError = 500"
definition StatusBadGateway :: nat where "StatusBadGateway = 502"

lemmas http_status = StatusOK_def StatusTemporaryRedirect_def StatusUnauthorized_def
  StatusForbidden_def StatusInternalServerError_def StatusBadGateway_def

text \<open>\<open>http.StatusText\<close>.\<close>

definition status_texts :: "(nat \<times> string) list" where
  "status_texts =
   [(100, ''Continue''), (101, ''Switching Protocols''), (102, ''Processing''), (103, ''Early Hints''),
    (200, ''OK''), (201, ''Created''), (202, ''Accepted''), (203, ''Non-Authoritative Information''),
    (204, ''No Content''), (205, ''Reset Content''), (206, ''Partial Content''), (207, ''Multi-Status''),
    (208, ''Already Reported''), (226, ''IM Used''),
    (300, ''Multiple Choices''), (301, ''Moved Permanently''), (302, ''Found''), (303, ''See Other''),
    (304, ''Not Modified''), (305, ''Use Proxy''), (307, ''Temporary Redirect''),
    (308, ''Permanent Redirect''),
    (400, ''Bad Request''), (401, ''Unauthorized''), (402, ''Payment Required''), (403, ''Forbidden''),
    (404, ''Not Found''), (405, ''Method Not Allowed''), (406, ''Not Acceptable''),
    (407, ''Proxy Authentication Required''), (408, ''Request Timeout''), (409, ''Conflict''),
    (410, ''Gone''), (411, ''Length Required''), (412, ''Precondition Failed''),
    (413, ''Request Entity Too Large''), (414, ''Request URI Too Long''),
    (415, ''Unsupported Media Type''), (416, ''Requested Range Not Satisfiable''),
    (417, ''Expectation Failed''), (418, [CHR ''I'', CHR 0x27] @ ''m a teapot''),
    (421, ''Misdirected Request''), (422, ''Unprocessable Entity''), (423, ''Locked''),
    (424, ''Failed Dependency''), (425, ''Too Early''), (426, ''Upgrade Required''),
    (428, ''Precondition Required''), (429, ''Too Many Requests''),
    (431, ''Request Header Fields Too Large''), (451, ''Unavailable For Legal Reasons''),
    (500, ''Internal Server Error''), (501, ''Not Implemented''), (502, ''Bad Gateway''),
    (503, ''Service Unavailable''), (504, ''Gateway Timeout''), (505, ''HTTP Version Not Supported''),
    (506, ''Variant Also Negotiates''), (507, ''Insufficient Storage''), (508, ''Loop Detected''),
    (510, ''Not Extended''), (511, ''Network Authentication Required'')]"

definition StatusText :: "nat \<Rightarrow> string" where
  "StatusText code = (case map_of status_texts code of None \<Rightarrow> [] | Some t \<Rightarrow> t)"

section \<open>Request bodies\<close>

text \<open>
  A body is what reading it to the end yields: the bytes, and the error that stops the reading
  (\<open>None\<close> for the regular end of the body).  \<open>NilBody\<close> is a nil \<open>io.ReadCloser\<close>; a limited nil
  body is not nil but reading it dereferences the nil one.
\<close>

datatype read_error = MaxBytesError | ReadFailed

datatype body = NilBody | LimitedNil | Body string "read_error option"

definition maxRequestSize :: nat where
  "maxRequestSize = 2 ^ 20"

text \<open>
  \<open>http.MaxBytesReader(w, r, n)\<close> lets \<open>n\<close> bytes pass and fails on the next one.  That it then also asks the
  server to close the connection after the response is left out.
\<close>

fun maxBytesReader :: "nat \<Rightarrow> body \<Rightarrow> body" where
  "maxBytesReader n NilBody = LimitedNil"
| "maxBytesReader n LimitedNil = LimitedNil"
| "maxBytesReader n (Body d e) =
    (if n < length d then Body (take n d) (Some MaxBytesError) else Body d e)"

text \<open>\<open>io.ReadAll\<close>: the bytes read and the error; \<open>None\<close> is a nil dereference.\<close>

fun readAll :: "body \<Rightarrow> (string \<times> read_error option) option" where
  "readAll (Body d e) = Some (d, e)"
| "readAll NilBody = None"
| "readAll LimitedNil = None"

text \<open>\<open>io.NopCloser(bytes.NewReader(b))\<close>.\<close>

definition restored :: "string \<Rightarrow> body" where
  "restored b = Body b None"

lemma maxBytesReader_idem [simp]: "maxBytesReader n (maxBytesReader n b) = maxBytesReader n b"
  by (cases b) auto

lemma maxBytesReader_length: "readAll (maxBytesReader n b) = Some (d, e) \<Longrightarrow> length d \<le> n"
  by (cases b) (auto split: if_splits)

lemma maxBytesReader_restored:
  "readAll (maxBytesReader n b) = Some (d, e) \<Longrightarrow> maxBytesReader n (restored d) = restored d"
  using maxBytesReader_length [of n b d e] by (simp add: restored_def)

section \<open>Requests\<close>

text \<open>\<open>auth.TokenInfo\<close> (\<open>internal/auth/token.go\<close>), one of the two context values.\<close>

record token_info =
  ti_ClientID :: string
  ti_Scopes :: "string list"

text \<open>
  An incoming request: \<open>req_path\<close> is \<open>r.URL.Path\<close> (decoded), \<open>req_escaped\<close> is
  \<open>r.URL.EscapedPath()\<close>; the last two fields are the context values under \<open>tokenInfoKey\<close> and
  \<open>requestIDKey\<close>.
\<close>

record request =
  req_method :: string
  req_path :: string
  req_escaped :: string
  req_query :: string
  req_header :: header
  req_body :: body
  req_remote :: string
  req_tokenInfo :: "token_info option"
  req_requestID :: "string option"

text \<open>The functions of \<open>token.go\<close> on the context; the simplifier sees through them.\<close>

definition WithTokenInfo :: "token_info \<Rightarrow> request \<Rightarrow> request" where
  [simp]: "WithTokenInfo info r = r\<lparr>req_tokenInfo := Some info\<rparr>"

definition GetTokenInfo :: "request \<Rightarrow> token_info option" where
  [simp]: "GetTokenInfo r = req_tokenInfo r"

text \<open>An outgoing request of one of the HTTP clients.\<close>

record out_request =
  out_method :: string
  out_url :: string
  out_header :: header
  out_body :: body

text \<open>
  \<open>http.NewRequestWithContext\<close> rejects a method that is not a token (the empty method means
  GET); the URLs it is given here are the text of parsed URLs.
\<close>

definition validMethod :: "string \<Rightarrow> bool" where
  "validMethod m \<longleftrightarrow> m \<noteq> [] \<and> list_all is_token_byte m"

definition newRequest :: "string \<Rightarrow> string \<Rightarrow> body \<Rightarrow> out_request option" where
  "newRequest m u b = (let m' = (if m = [] then ''GET'' else m) in
     if validMethod m' then Some \<lparr>out_method = m', out_url = u, out_header = [], out_body = b\<rparr>
     else None)"

text \<open>
  What a client gets back: an error, or a response whose body is the bytes read up to its end or
  up to a read error.  For the client without time-out the body is a sequence of \<open>Read\<close> results
  (the bytes, and the error if any), which need not end.
\<close>

datatype stream_error = EOF | StreamFailed

datatype http_result = DoErr | DoResp nat header string bool

datatype stream_result = StreamErr | StreamResp nat header "nat \<Rightarrow> string \<times> stream_error option"

section \<open>Response writers\<close>

text \<open>
  The connection behind a response: the header map handlers change, the status and header sent
  (set once), the bytes written, how many more writes succeed before the client is gone
  (\<open>None\<close>: all), the write deadline, whether it can flush, and what has been
  flushed: the bytes that have certainly left the buffers of the server.
\<close>

record conn =
  c_header :: header
  c_sent :: "(nat \<times> header) option"
  c_written :: string
  c_writes_left :: "nat option"
  c_deadline :: "int option"
  c_flusher :: bool
  c_flushed :: string

datatype writer = Base conn | StatusRecorder (inner_writer: writer) (captured_clientID: string) (captured_status: nat)

definition AuditClientIDHeader :: string where
  "AuditClientIDHeader = ''X-Audit-Client-Id''"

lemma canonical_AuditClientIDHeader [simp]: "canonicalKey AuditClientIDHeader = AuditClientIDHeader"
  by (rule canonicalKeyI) (simp_all add: AuditClientIDHeader_def canonical_defs)

fun w_conn :: "writer \<Rightarrow> conn" where
  "w_conn (Base c) = c"
| "w_conn (StatusRecorder w i s) = w_conn w"

fun w_map :: "(conn \<Rightarrow> conn) \<Rightarrow> writer \<Rightarrow> writer" where
  "w_map f (Base c) = Base (f c)"
| "w_map f (StatusRecorder w i s) = StatusRecorder (w_map f w) i s"

definition w_header :: "writer \<Rightarrow> header" where
  "w_header w = c_header (w_conn w)"

definition w_set_header :: "(header \<Rightarrow> header) \<Rightarrow> writer \<Rightarrow> writer" where
  "w_set_header f = w_map (\<lambda>c. c\<lparr>c_header := f (c_header c)\<rparr>)"

fun layers :: "writer \<Rightarrow> nat" where
  "layers (Base c) = 0"
| "layers (StatusRecorder w i s) = Suc (layers w)"

lemma layers_w_map [simp]: "layers (w_map f w) = layers w"
  by (induction w) auto

lemma layers_w_set_header [simp]: "layers (w_set_header f w) = layers w"
  by (simp add: w_set_header_def)

text \<open>
  \<open>response.WriteHeader\<close>: the first call wins, an informational status (except 101) is sent
  without ending the header phase, and a code outside 100..999 panics.
\<close>

definition conn_WriteHeader :: "nat \<Rightarrow> conn \<Rightarrow> conn" where
  "conn_WriteHeader code c =
    (if c_sent c \<noteq> None \<or> 100 \<le> code \<and> code \<le> 199 \<and> code \<noteq> 101 then c
     else c\<lparr>c_sent := Some (code, c_header c)\<rparr>)"

definition WriteHeader_panics :: "nat \<Rightarrow> writer \<Rightarrow> bool" where
  "WriteHeader_panics code w \<longleftrightarrow> c_sent (w_conn w) = None \<and> (code < 100 \<or> 999 < code)"

text \<open>
  \<open>statusRecorder.WriteHeader\<close> notes the status, takes the client id from the internal header
  and removes that header before it passes the call on.
\<close>

function WriteHeader :: "nat \<Rightarrow> writer \<Rightarrow> writer" where
  "WriteHeader code (Base c) = Base (conn_WriteHeader code c)"
| "WriteHeader code (StatusRecorder w i s) =
    (let i' = hget (w_header w) AuditClientIDHeader
     in StatusRecorder (WriteHeader code (w_set_header (hdel AuditClientIDHeader) w))
          (if i' \<noteq> [] then i' else i) code)"
  by pat_completeness auto
termination
  by (relation "measure (\<lambda>(code, w). layers w)") auto

text \<open>
  \<open>Write\<close>: the flag tells whether the write succeeded.  A status 1xx, 204 or 304 allows no body.
\<close>

definition bodyAllowed :: "conn \<Rightarrow> bool" where
  "bodyAllowed c = (case c_sent c of
     None \<Rightarrow> True
   | Some (code, h) \<Rightarrow> \<not> (100 \<le> code \<and> code \<le> 199) \<and> code \<noteq> 204 \<and> code \<noteq> 304)"

definition conn_Write :: "string \<Rightarrow> conn \<Rightarrow> bool \<times> conn" where
  "conn_Write b c = (let c1 = (if c_sent c = None then conn_WriteHeader StatusOK c else c) in
     if b = [] then (True, c1)
     else if \<not> bodyAllowed c1 then (False, c1)
     else case c_writes_left c1 of
       None \<Rightarrow> (True, c1\<lparr>c_written := c_written c1 @ b\<rparr>)
     | Some 0 \<Rightarrow> (False, c1)
     | Some (Suc n) \<Rightarrow> (True, c1\<lparr>c_written := c_written c1 @ b, c_writes_left := Some n\<rparr>))"

lemma layers_WriteHeader [simp]: "layers (WriteHeader code w) = layers w"
  by (induction code w rule: WriteHeader.induct) (auto simp: Let_def)

text \<open>
  \<open>statusRecorder.Write\<close> first makes an implicit \<open>WriteHeader(200)\<close> go through its own
  \<open>WriteHeader\<close>, then writes to the writer inside.
\<close>

function Write :: "string \<Rightarrow> writer \<Rightarrow> bool \<times> writer" where
  "Write b (Base c) = (let (ok, c') = conn_Write b c in (ok, Base c'))"
| "Write b (StatusRecorder w i s) =
    (let r = (if s = 0 then WriteHeader StatusOK (StatusRecorder w i s) else StatusRecorder w i s);
         (ok, w') = Write b (inner_writer r)
     in (ok, StatusRecorder w' (captured_clientID r) (captured_status r)))"
  by pat_completeness auto
termination
  by (relation "measure (\<lambda>(b, w). layers w)") (auto simp: Let_def)

definition write_all :: "string \<Rightarrow> writer \<Rightarrow> writer" where
  "write_all b w = snd (Write b w)"

text \<open>Flushing; the wrapper forwards it when the writer inside is an \<open>http.Flusher\<close>.\<close>

definition conn_Flush :: "conn \<Rightarrow> conn" where
  "conn_Flush c = (let c1 = (if c_sent c = None then conn_WriteHeader StatusOK c else c)
                   in c1\<lparr>c_flushed := c_written c1\<rparr>)"

fun isFlusher :: "writer \<Rightarrow> bool" where
  "isFlusher (Base c) = c_flusher c"
| "isFlusher (StatusRecorder w i s) = True"

fun Flush :: "writer \<Rightarrow> writer" where
  "Flush (Base c) = Base (conn_Flush c)"
| "Flush (StatusRecorder w i s) = StatusRecorder (if isFlusher w then Flush w else w) i s"

text \<open>
  \<open>http.NewResponseController(w).SetWriteDeadline(t)\<close> works on a writer that has the method or
  an \<open>Unwrap\<close> method.  The connection has the first; \<open>statusRecorder\<close> embeds the interface
  \<open>http.ResponseWriter\<close> only, and has neither.  The flag tells whether the call succeeded.
\<close>

fun setWriteDeadline :: "int \<Rightarrow> writer \<Rightarrow> bool \<times> writer" where
  "setWriteDeadline t (Base c) = (True, Base (c\<lparr>c_deadline := Some t\<rparr>))"
| "setWriteDeadline t (StatusRecorder w i s) = (False, StatusRecorder w i s)"

text \<open>\<open>http.Error(w, msg, code)\<close>.\<close>

definition newline :: string where
  "newline = [CHR 0x0A]"

definition http_Error :: "string \<Rightarrow> nat \<Rightarrow> writer \<Rightarrow> writer" where
  "http_Error msg code w = write_all (msg @ newline) (WriteHeader code (w_set_header
     (\<lambda>h. hset ''X-Content-Type-Options'' ''nosniff''
       (hset ''Content-Type'' ''text/plain; charset=utf-8'' (hdel ''Content-Length'' h))) w))"

section \<open>Facts about writers\<close>

lemma w_conn_w_map [simp]: "w_conn (w_map f w) = f (w_conn w)"
  by (induction w) auto

lemma w_header_set [simp]: "w_header (w_set_header f w) = f (w_header w)"
  by (simp add: w_header_def w_set_header_def)

lemma conn_WriteHeader_fields [simp]:
  "c_header (conn_WriteHeader code c) = c_header c"
  "c_written (conn_WriteHeader code c) = c_written c"
  "c_writes_left (conn_WriteHeader code c) = c_writes_left c"
  "c_deadline (conn_WriteHeader code c) = c_deadline c"
  "c_flusher (conn_WriteHeader code c) = c_flusher c"
  by (simp_all add: conn_WriteHeader_def)

text \<open>
  A status is final when it ends the header phase.  After a final status every writer has sent
  a response, and no later call changes it.
\<close>

definition final_status :: "nat \<Rightarrow> bool" where
  "final_status code \<longleftrightarrow> \<not> (100 \<le> code \<and> code \<le> 199 \<and> code \<noteq> 101)"

lemma conn_WriteHeader_sent: "c_sent c = Some x \<Longrightarrow> conn_WriteHeader code c = c"
  by (simp add: conn_WriteHeader_def)

lemma WriteHeader_sent:
  "c_sent (w_conn w) = Some x \<Longrightarrow> c_sent (w_conn (WriteHeader code w)) = Some x"
  by (induction code w rule: WriteHeader.induct)
    (auto simp: conn_WriteHeader_def Let_def w_set_header_def)

lemma conn_Write_sent:
  "c_sent c = Some x \<Longrightarrow> conn_Write b c = (ok, c') \<Longrightarrow> c_sent c' = Some x"
  by (auto simp: conn_Write_def Let_def split: option.splits nat.splits if_splits)

lemma Write_sent:
  "c_sent (w_conn w) = Some x \<Longrightarrow> Write b w = (ok, w') \<Longrightarrow> c_sent (w_conn w') = Some x"
proof (induction b w arbitrary: ok w' rule: Write.induct)
  case (1 b c)
  then show ?case by (auto split: prod.splits dest: conn_Write_sent)
next
  case (2 b w i s)
  define r where "r = (if s = 0 then WriteHeader StatusOK (StatusRecorder w i s) else StatusRecorder w i s)"
  have "c_sent (w_conn (inner_writer r)) = Some x"
    using "2.prems"(1) by (auto simp: r_def Let_def w_set_header_def intro: WriteHeader_sent)
  with "2.IH" [of r] "2.prems"(2) show ?case
    by (auto simp: r_def Let_def split: prod.splits)
qed

text \<open>The deadline and the header map are not touched by writing.\<close>

lemma WriteHeader_deadline [simp]: "c_deadline (w_conn (WriteHeader code w)) = c_deadline (w_conn w)"
  by (induction code w rule: WriteHeader.induct) (auto simp: Let_def w_set_header_def)

lemma conn_Write_deadline: "conn_Write b c = (ok, c') \<Longrightarrow> c_deadline c' = c_deadline c"
  by (auto simp: conn_Write_def Let_def split: option.splits nat.splits if_splits)

lemma Write_deadline: "Write b w = (ok, w') \<Longrightarrow> c_deadline (w_conn w') = c_deadline (w_conn w)"
proof (induction b w arbitrary: ok w' rule: Write.induct)
  case (1 b c)
  then show ?case by (auto split: prod.splits dest: conn_Write_deadline)
next
  case (2 b w i s)
  then show ?case
    by (cases "s = 0") (auto simp: Let_def w_set_header_def split: prod.splits)
qed

lemma Flush_deadline [simp]: "c_deadline (w_conn (Flush w)) = c_deadline (w_conn w)"
  by (induction w) (auto simp: conn_Flush_def Let_def)

end
