(* ===== verification/GoUrl.thy ===== *)
theory GoUrl
  imports Http
begin

text \<open>
  The parts of \<open>net/url\<close>, \<open>path\<close> and the request multiplexer of \<open>net/http\<close> that decide where
  a request goes: \<open>url.ParseRequestURI\<close>, \<open>URL.JoinPath\<close>, \<open>URL.String\<close>, \<open>url.Values.Encode\<close> for
  one value, \<open>path.Clean\<close> on rooted paths, and \<open>http.ServeMux\<close> with the patterns \<open>/health\<close> and
  \<open>/\<close>.  An IPv6 zone is decoded like the rest of the host.
\<close>

section \<open>Percent encoding\<close>

definition hex_val_any :: "char \<Rightarrow> nat option" where
  "hex_val_any c = (let b = byte c in
     if 48 \<le> b \<and> b \<le> 57 then Some (b - 48)
     else if 97 \<le> b \<and> b \<le> 102 then Some (b - 87)
     else if 65 \<le> b \<and> b \<le> 70 then Some (b - 55)
     else None)"

definition upper_hex :: "nat \<Rightarrow> char" where
  "upper_hex d = (if d < 10 then chr (48 + d) else chr (55 + d))"

definition percent :: "char \<Rightarrow> string" where
  "percent c = [CHR ''%'', upper_hex (byte c div 16), upper_hex (byte c mod 16)]"

definition is_alnum :: "char \<Rightarrow> bool" where
  "is_alnum c \<longleftrightarrow> is_digit c \<or> is_upper c \<or> is_lower c"

definition unreserved :: "char \<Rightarrow> bool" where
  "unreserved c \<longleftrightarrow> is_alnum c \<or> c \<in> set ''-_.~''"

definition shouldEscapePath :: "char \<Rightarrow> bool" where
  "shouldEscapePath c \<longleftrightarrow> \<not> unreserved c \<and> c \<notin> set ''$&+,/:;=@''"

definition shouldEscapeHost :: "char \<Rightarrow> bool" where
  "shouldEscapeHost c \<longleftrightarrow>
     \<not> unreserved c \<and> c \<notin> set ''!$&()*+,;=:[]<>'' \<and> c \<noteq> CHR 0x27 \<and> c \<noteq> CHR 0x22"

definition escapePath :: "string \<Rightarrow> string" where
  "escapePath s = concat (map (\<lambda>c. if shouldEscapePath c then percent c else [c]) s)"

definition escapeHost :: "string \<Rightarrow> string" where
  "escapeHost s = concat (map (\<lambda>c. if shouldEscapeHost c then percent c else [c]) s)"

definition queryEscape :: "string \<Rightarrow> string" where
  "queryEscape s = concat (map (\<lambda>c. if c = CHR '' '' then ''+'' else
     if unreserved c then [c] else percent c) s)"

text \<open>Decoding; \<open>bad\<close> tells which bytes may not occur, encoded (first) or plain (second).\<close>

fun unescape :: "(char \<Rightarrow> bool) \<Rightarrow> (char \<Rightarrow> bool) \<Rightarrow> string \<Rightarrow> string option" where
  "unescape bad_enc bad [] = Some []"
| "unescape bad_enc bad (c # r) =
    (if c = CHR ''%'' then
       (case r of
          x # y # r' \<Rightarrow>
            (case (hex_val_any x, hex_val_any y) of
               (Some a, Some b) \<Rightarrow>
                 if bad_enc (chr (16 * a + b)) then None
                 else map_option (\<lambda>s. chr (16 * a + b) # s) (unescape bad_enc bad r')
             | _ \<Rightarrow> None)
        | _ \<Rightarrow> None)
     else if bad c then None
     else map_option (\<lambda>s. c # s) (unescape bad_enc bad r))"

definition unescapePath :: "string \<Rightarrow> string option" where
  "unescapePath s = unescape (\<lambda>_. False) (\<lambda>_. False) s"

definition unescapeHost :: "string \<Rightarrow> string option" where
  "unescapeHost s = unescape (\<lambda>c. byte c < 0x80 \<and> c \<noteq> CHR ''%'')
     (\<lambda>c. byte c < 0x80 \<and> shouldEscapeHost c) s"

text \<open>\<open>url.Values{k: {v}}.Encode()\<close>.\<close>

definition form_encode :: "string \<Rightarrow> string \<Rightarrow> string" where
  "form_encode k v = queryEscape k @ ''='' @ queryEscape v"

lemma upper_hex_inj: "d < 16 \<Longrightarrow> e < 16 \<Longrightarrow> upper_hex d = upper_hex e \<Longrightarrow> d = e"
  by (auto simp: upper_hex_def split: if_splits dest!: arg_cong [where f = byte])

lemma percent_inj: "percent c = percent d \<Longrightarrow> c = d"
proof -
  assume p: "percent c = percent d"
  have b: "byte x div 16 < 16" for x :: char
  proof -
    have "byte x < 256" by simp
    then show ?thesis by linarith
  qed
  from p have "byte c div 16 = byte d div 16" "byte c mod 16 = byte d mod 16"
    by (auto simp: percent_def intro!: upper_hex_inj b)
  then have "byte c = byte d" by (metis div_mult_mod_eq)
  then show ?thesis by simp
qed

definition queryEscape1 :: "char \<Rightarrow> string" where
  "queryEscape1 c = (if c = CHR '' '' then ''+'' else if unreserved c then [c] else percent c)"

lemma unreserved_neq: "unreserved c \<Longrightarrow> c \<noteq> CHR ''+'' \<and> c \<noteq> CHR ''%''"
  by (auto simp: unreserved_def is_alnum_def is_digit_def is_upper_def is_lower_def)

lemma percent_append:
  "percent c @ x = percent d @ y \<Longrightarrow> c = d \<and> x = y"
  "percent c @ x \<noteq> e # z \<or> e = CHR ''%''"
  by (auto simp: percent_def intro!: percent_inj)

lemma queryEscape1_cases:
  obtains "c = CHR '' ''" "queryEscape1 c = [CHR ''+'']"
  | "c \<noteq> CHR ''+''" "c \<noteq> CHR ''%''" "queryEscape1 c = [c]"
  | "queryEscape1 c = percent c"
  using unreserved_neq [of c] by (cases "c = CHR '' ''"; cases "unreserved c") (simp_all add: queryEscape1_def)

lemma percent_Cons: "\<exists>a b. percent c = [CHR ''%'', a, b]"
  by (simp add: percent_def)

lemma queryEscape1_prefix:
  assumes "queryEscape1 c @ x = queryEscape1 d @ y"
  shows "c = d \<and> x = y"
proof (cases rule: queryEscape1_cases [of c])
  case 1
  then show ?thesis using assms percent_Cons [of d]
    by (cases rule: queryEscape1_cases [of d]) auto
next
  case 2
  then show ?thesis using assms percent_Cons [of d]
    by (cases rule: queryEscape1_cases [of d]) auto
next
  case 3
  show ?thesis
  proof (cases rule: queryEscape1_cases [of d])
    case 1
    with 3 assms percent_Cons [of c] show ?thesis by auto
  next
    case 2
    with 3 assms percent_Cons [of c] show ?thesis by auto
  next
    case c3: 3
    with 3 assms percent_append(1) show ?thesis by simp
  qed
qed

lemma queryEscape_inj: "queryEscape s = queryEscape t \<Longrightarrow> s = t"
proof (induction s arbitrary: t)
  case Nil
  then show ?case
    by (cases t) (auto simp: queryEscape_def percent_def split: if_splits)
next
  case (Cons c s)
  have q: "queryEscape (x # xs) = queryEscape1 x @ queryEscape xs" for x xs
    by (simp add: queryEscape_def queryEscape1_def)
  from Cons.prems obtain d t' where t: "t = d # t'"
    by (cases t) (auto simp: queryEscape_def percent_def split: if_splits)
  with Cons.prems q have "c = d \<and> queryEscape s = queryEscape t'"
    by (metis queryEscape1_prefix)
  with Cons.IH t show ?case by simp
qed

section \<open>Paths\<close>

text \<open>\<open>split_on c s\<close> is \<open>strings.Split(s, c)\<close>.\<close>

fun split_on :: "char \<Rightarrow> string \<Rightarrow> string list" where
  "split_on d [] = [[]]"
| "split_on d (c # r) = (if c = d then [] # split_on d r
     else (case split_on d r of [] \<Rightarrow> [[c]] | x # xs \<Rightarrow> (c # x) # xs))"

lemma split_on_none: "d \<notin> set s \<Longrightarrow> split_on d s = [s]"
  by (induction s) auto

text \<open>\<open>path.Clean\<close> on a rooted path: \<open>stack\<close> holds the segments kept, last first.\<close>

fun clean_segs :: "string list \<Rightarrow> string list \<Rightarrow> string list" where
  "clean_segs stack [] = rev stack"
| "clean_segs stack (x # xs) =
    (if x = [] \<or> x = ''.'' then clean_segs stack xs
     else if x = ''..'' then clean_segs (tl stack) xs
     else clean_segs (x # stack) xs)"

definition join_segs :: "string list \<Rightarrow> string" where
  "join_segs xs = (if xs = [] then ''/'' else concat (map (\<lambda>x. CHR ''/'' # x) xs))"

definition clean_rooted :: "string \<Rightarrow> string" where
  "clean_rooted p = join_segs (clean_segs [] (split_on (CHR ''/'') p))"

definition ends_slash :: "string \<Rightarrow> bool" where
  "ends_slash p \<longleftrightarrow> p \<noteq> [] \<and> last p = CHR ''/''"

text \<open>\<open>cleanPath\<close> of the multiplexer keeps a trailing slash.\<close>

definition cleanPath :: "string \<Rightarrow> string" where
  "cleanPath p = (let p1 = (if hasPrefix p ''/'' then p else CHR ''/'' # p);
                      np = clean_rooted p1
                  in if ends_slash p1 \<and> np \<noteq> ''/'' then np @ ''/'' else np)"

definition plain_seg :: "string \<Rightarrow> bool" where
  "plain_seg x \<longleftrightarrow> x \<noteq> [] \<and> x \<noteq> ''.'' \<and> x \<noteq> ''..''"

lemma list_all_tl: "list_all P xs \<Longrightarrow> list_all P (tl xs)"
  by (cases xs) auto

lemma clean_segs_plain: "list_all plain_seg stack \<Longrightarrow> list_all plain_seg (clean_segs stack xs)"
proof (induction xs arbitrary: stack)
  case Nil
  then show ?case by (simp add: list_all_iff)
next
  case (Cons x xs)
  have "list_all plain_seg (x # stack)" if "x \<noteq> []" "x \<noteq> ''.''" "x \<noteq> ''..''"
  proof -
    have "plain_seg x" using that by (simp add: plain_seg_def)
    with Cons.prems show ?thesis by simp
  qed
  with Cons.IH [OF Cons.prems] Cons.IH [OF list_all_tl [OF Cons.prems]] Cons.IH [of "x # stack"]
  show ?case unfolding clean_segs.simps by presburger
qed

section \<open>URLs\<close>

record url =
  u_scheme :: string
  u_opaque :: string
  u_user :: "string option"
  u_host :: string
  u_path :: string
  u_rawPath :: string
  u_omitHost :: bool
  u_forceQuery :: bool
  u_rawQuery :: string

definition empty_url :: url where
  "empty_url = \<lparr>u_scheme = [], u_opaque = [], u_user = None, u_host = [], u_path = [],
     u_rawPath = [], u_omitHost = False, u_forceQuery = False, u_rawQuery = []\<rparr>"

text \<open>\<open>setPath\<close>: \<open>None\<close> is a bad escape.\<close>

definition setPath :: "string \<Rightarrow> url \<Rightarrow> url option" where
  "setPath p u = (case unescapePath p of
     None \<Rightarrow> None
   | Some path \<Rightarrow> Some (u\<lparr>u_path := path, u_rawPath := (if p = escapePath path then [] else p)\<rparr>))"

definition validEncodedPath :: "string \<Rightarrow> bool" where
  "validEncodedPath s \<longleftrightarrow> (\<forall>c \<in> set s. c \<in> set ''!$&()*+,;=:@[]%'' \<or> c = CHR 0x27 \<or> \<not> shouldEscapePath c)"

definition escapedPath :: "url \<Rightarrow> string" where
  "escapedPath u =
    (if u_rawPath u \<noteq> [] \<and> validEncodedPath (u_rawPath u) \<and> unescapePath (u_rawPath u) = Some (u_path u)
     then u_rawPath u
     else if u_path u = ''*'' then ''*'' else escapePath (u_path u))"

text \<open>The scheme and the rest; \<open>None\<close> is a missing scheme before a colon.\<close>

fun getScheme_from :: "string \<Rightarrow> string \<Rightarrow> string \<Rightarrow> (string \<times> string) option" where
  "getScheme_from raw acc [] = Some ([], raw)"
| "getScheme_from raw acc (c # r) =
    (if is_upper c \<or> is_lower c then getScheme_from raw (acc @ [c]) r
     else if is_digit c \<or> c \<in> set ''+-.'' then
       (if acc = [] then Some ([], raw) else getScheme_from raw (acc @ [c]) r)
     else if c = CHR '':'' then (if acc = [] then None else Some (acc, r))
     else Some ([], raw))"

definition is_port :: "string \<Rightarrow> bool" where
  "is_port p \<longleftrightarrow> p = [] \<or> hd p = CHR '':'' \<and> list_all is_digit (tl p)"

definition split_last :: "char \<Rightarrow> string \<Rightarrow> (string \<times> string) option" where
  "split_last d s = (if d \<in> set s
     then Some (rev (tl (dropWhile (\<lambda>c. c \<noteq> d) (rev s))), rev (takeWhile (\<lambda>c. c \<noteq> d) (rev s)))
     else None)"

text \<open>
  More than one colon outside brackets is an error since Go 1.26, except for the schemes of PostgreSQL.
\<close>

definition parseHost :: "string \<Rightarrow> string \<Rightarrow> string option" where
  "parseHost scheme h =
    (if hasPrefix h ''['' then
       (case split_last (CHR '']'') h of
          None \<Rightarrow> None
        | Some (_, p) \<Rightarrow> if is_port p then unescapeHost h else None)
     else (case split_last (CHR '':'') h of
          Some (_, p) \<Rightarrow>
            if is_port (if scheme \<in> {''postgresql'', ''postgres''} then CHR '':'' # p
              else dropWhile (\<lambda>c. c \<noteq> CHR '':'') h) then unescapeHost h else None
        | None \<Rightarrow> unescapeHost h))"

definition validUserinfo :: "string \<Rightarrow> bool" where
  "validUserinfo s \<longleftrightarrow> (\<forall>c \<in> set s. is_alnum c \<or> c \<in> set ''-._:~!$&()*+,;=%@'' \<or> c = CHR 0x27)"

definition parseAuthority :: "string \<Rightarrow> string \<Rightarrow> (string option \<times> string) option" where
  "parseAuthority scheme a = (case split_last (CHR ''@'') a of
     None \<Rightarrow> map_option (\<lambda>h. (None, h)) (parseHost scheme a)
   | Some (user, h) \<Rightarrow> (case parseHost scheme h of
       None \<Rightarrow> None
     | Some h' \<Rightarrow> if validUserinfo user \<and> unescapePath user \<noteq> None then Some (Some user, h') else None))"

definition is_ctl :: "char \<Rightarrow> bool" where
  "is_ctl c \<longleftrightarrow> byte c < 0x20 \<or> byte c = 0x7F"

text \<open>The rest after the scheme, split at the query.\<close>

definition split_query :: "string \<Rightarrow> string \<times> string \<times> bool" where
  "split_query rest =
    (let path = takeWhile (\<lambda>c. c \<noteq> CHR ''?'') rest; q = dropWhile (\<lambda>c. c \<noteq> CHR ''?'') rest
     in (path, tl q, q = ''?''))"

definition parseRequestURI :: "string \<Rightarrow> url option" where
  "parseRequestURI raw =
    (if (\<exists>c \<in> set raw. is_ctl c) \<or> raw = [] then None
     else if raw = ''*'' then Some (empty_url\<lparr>u_path := ''*''\<rparr>)
     else (case getScheme_from raw [] raw of
       None \<Rightarrow> None
     | Some (scheme, r) \<Rightarrow>
         (let (rest, query, force) = split_query r;
              u = empty_url\<lparr>u_scheme := map to_lower scheme, u_rawQuery := query, u_forceQuery := force\<rparr>
          in if \<not> hasPrefix rest ''/'' then
               (if scheme \<noteq> [] then Some (u\<lparr>u_opaque := rest\<rparr>) else None)
             else if scheme \<noteq> [] \<and> hasPrefix rest ''//'' then
               (let a = takeWhile (\<lambda>c. c \<noteq> CHR ''/'') (drop 2 rest);
                    p = dropWhile (\<lambda>c. c \<noteq> CHR ''/'') (drop 2 rest)
                in case parseAuthority (u_scheme u) a of
                     None \<Rightarrow> None
                   | Some (user, host) \<Rightarrow> setPath p (u\<lparr>u_user := user, u_host := host\<rparr>))
             else setPath rest (if scheme \<noteq> [] then u\<lparr>u_omitHost := True\<rparr> else u))))"

definition url_String :: "url \<Rightarrow> string" where
  "url_String u =
    (if u_scheme u \<noteq> [] then u_scheme u @ '':'' else []) @
    (if u_opaque u \<noteq> [] then u_opaque u
     else
       (if (u_scheme u \<noteq> [] \<or> u_host u \<noteq> [] \<or> u_user u \<noteq> None) \<and>
           \<not> (u_omitHost u \<and> u_host u = [] \<and> u_user u = None)
        then (if u_host u \<noteq> [] \<or> u_path u \<noteq> [] \<or> u_user u \<noteq> None then ''//'' else []) @
             (case u_user u of None \<Rightarrow> [] | Some i \<Rightarrow> i @ ''@'') @ escapeHost (u_host u)
        else []) @
       (let p = escapedPath u
        in (if p \<noteq> [] \<and> hd p \<noteq> CHR ''/'' \<and> u_host u \<noteq> [] then ''/'' else []) @ p)) @
    (if u_forceQuery u \<or> u_rawQuery u \<noteq> [] then ''?'' @ u_rawQuery u else [])"

text \<open>
  \<open>JoinPath\<close> joins the escaped base path and the element, cleans the result, keeps a trailing
  slash, and ignores the error of \<open>setPath\<close>, which then leaves the base path.
\<close>

definition joinPath :: "url \<Rightarrow> string \<Rightarrow> url" where
  "joinPath u elem =
    (let base = escapedPath u;
         rooted = hasPrefix base ''/'';
         c = clean_rooted ((if rooted then base else CHR ''/'' # base) @ ''/'' @ elem);
         p = (if rooted then c else tl c);
         p1 = (if ends_slash elem \<and> \<not> ends_slash p then p @ ''/'' else p)
     in case setPath p1 u of None \<Rightarrow> u | Some u' \<Rightarrow> u')"

section \<open>The multiplexer\<close>

datatype route = RouteHealth | RouteProxy | RouteRedirect string | RouteNotFound | RouteBadRequest

text \<open>
  Except for CONNECT, a request whose escaped path is not clean is redirected to the clean path.
  Segments are matched after decoding, \<open>/health\<close> as a whole, and \<open>/\<close> takes every other path
  that starts with a slash.  The request target \<open>*\<close>, the only one whose path is \<open>*\<close>, is a bad
  request.
\<close>

definition seg_health :: "string \<Rightarrow> bool" where
  "seg_health p \<longleftrightarrow> (case split_on (CHR ''/'') p of
     [[], x] \<Rightarrow> unescapePath x = Some ''health''
   | _ \<Rightarrow> False)"

definition mux_match :: "string \<Rightarrow> route" where
  "mux_match p = (if seg_health p then RouteHealth
                  else if hasPrefix p ''/'' then RouteProxy else RouteNotFound)"

definition mux_route :: "request \<Rightarrow> route" where
  "mux_route r =
    (if req_escaped r = ''*'' then RouteBadRequest
     else if req_method r = ''CONNECT'' then mux_match (req_escaped r)
     else let p = cleanPath (req_escaped r) in
       if p \<noteq> req_escaped r
       then RouteRedirect (escapePath p @ (if req_query r = [] then [] else ''?'' @ req_query r))
       else mux_match p)"

end
