(* ===== verification/GoJson.thy ===== *)
theory GoJson
  imports GoText
begin

text \<open>
  The part of \<open>encoding/json\<close> the gateway relies on: parsing a document
  (\<open>json.Unmarshal\<close>, and \<open>json.Decoder\<close> reading the first value of a stream), matching
  object members to struct fields, and writing strings.  The members of an object keep their
  order, their duplicates and the text of their value, because \<open>json.RawMessage\<close> stores that
  text and a later member overrides an earlier one.
\<close>

section \<open>Values\<close>

datatype json =
    JNull
  | JBool bool
  | JNum string
  | JStr string
  | JArr "json list"
  | JObj "(string \<times> string \<times> json) list"

type_synonym member = "string \<times> string \<times> json"

section \<open>Parsing\<close>

definition is_ws :: "char \<Rightarrow> bool" where
  "is_ws c \<longleftrightarrow> c = CHR '' '' \<or> c = CHR 0x09 \<or> c = CHR 0x0A \<or> c = CHR 0x0D"

definition skip_ws :: "string \<Rightarrow> string" where
  "skip_ws s = dropWhile is_ws s"

text \<open>At most 10000 arrays and objects may be open at a time.\<close>

definition maxNestingDepth :: nat where
  "maxNestingDepth = 10000"

definition hex_val :: "char \<Rightarrow> nat option" where
  "hex_val c = (let b = byte c in
     if 48 \<le> b \<and> b \<le> 57 then Some (b - 48)
     else if 97 \<le> b \<and> b \<le> 102 then Some (b - 87)
     else if 65 \<le> b \<and> b \<le> 70 then Some (b - 55)
     else None)"

definition hex4 :: "char \<Rightarrow> char \<Rightarrow> char \<Rightarrow> char \<Rightarrow> nat option" where
  "hex4 a b c d = (case (hex_val a, hex_val b, hex_val c, hex_val d) of
     (Some w, Some x, Some y, Some z) \<Rightarrow> Some (4096 * w + 256 * x + 16 * y + z)
   | _ \<Rightarrow> None)"

definition hex4_of :: "string \<Rightarrow> nat option" where
  "hex4_of s = (case s of a # b # c # d # _ \<Rightarrow> hex4 a b c d | _ \<Rightarrow> None)"

definition isSurrogate :: "nat \<Rightarrow> bool" where
  "isSurrogate n \<longleftrightarrow> 0xD800 \<le> n \<and> n < 0xE000"

text \<open>
  The rune of an escape \<open>\u\<close> with code \<open>n\<close> followed by the text \<open>s\<close>, and the number of
  further bytes of \<open>s\<close> it uses (6 when \<open>s\<close> starts with the second half of a surrogate pair).
\<close>

definition escape_rune :: "nat \<Rightarrow> string \<Rightarrow> nat \<times> nat" where
  "escape_rune n s =
    (if isSurrogate n then
       (case (if take 2 s = [CHR 0x5C, CHR ''u''] then hex4_of (drop 2 s) else None) of
          Some m \<Rightarrow>
            if n < 0xDC00 \<and> 0xDC00 \<le> m \<and> m < 0xE000
            then ((n - 0xD800) * 1024 + (m - 0xDC00) + 0x10000, 6)
            else (runeError, 0)
        | None \<Rightarrow> (runeError, 0))
     else (n, 0))"

definition simple_escape :: "char \<Rightarrow> string option" where
  "simple_escape c =
    (if c = CHR 0x22 \<or> c = CHR 0x5C \<or> c = CHR ''/'' then Some [c]
     else if c = CHR ''b'' then Some [CHR 0x08]
     else if c = CHR ''f'' then Some [CHR 0x0C]
     else if c = CHR ''n'' then Some [CHR 0x0A]
     else if c = CHR ''r'' then Some [CHR 0x0D]
     else if c = CHR ''t'' then Some [CHR 0x09]
     else None)"

text \<open>A string literal after its opening quote: the value and the text after the closing quote.\<close>

fun jstring :: "string \<Rightarrow> (string \<times> string) option" where
  "jstring [] = None"
| "jstring (c # r) =
    (if c = CHR 0x22 then Some ([], r)
     else if c = CHR 0x5C then
       (case r of
          [] \<Rightarrow> None
        | e # r1 \<Rightarrow>
            if e = CHR ''u'' then
              (case hex4_of r1 of
                 None \<Rightarrow> None
               | Some n \<Rightarrow> (let (rn, k) = escape_rune n (drop 4 r1) in
                   map_option (\<lambda>(v, t). (encodeRune rn @ v, t)) (jstring (drop (4 + k) r1))))
            else
              (case simple_escape e of
                 None \<Rightarrow> None
               | Some x \<Rightarrow> map_option (\<lambda>(v, t). (x @ v, t)) (jstring r1)))
     else if byte c < 0x20 then None
     else (let (n, w) = decodeRune c r in
        map_option (\<lambda>(v, t). ((if n = runeError then encodeRune runeError
                               else c # take (w - 1) r) @ v, t))
          (jstring (drop (w - 1) r))))"

declare jstring.simps(2) [simp del]

text \<open>Numbers: \<open>-?(0|[1-9][0-9]*)([.][0-9]+)?([eE][+-]?[0-9]+)?\<close>.\<close>

definition span_digits :: "string \<Rightarrow> string \<times> string" where
  "span_digits s = (takeWhile is_digit s, dropWhile is_digit s)"

definition jnum_int :: "string \<Rightarrow> (string \<times> string) option" where
  "jnum_int s = (case s of
     [] \<Rightarrow> None
   | c # r \<Rightarrow> if c = CHR ''0'' then Some ([c], r)
              else if is_digit c then Some (span_digits s) else None)"

definition jnum_frac :: "string \<Rightarrow> (string \<times> string) option" where
  "jnum_frac s = (case s of
     [] \<Rightarrow> Some ([], [])
   | c # r \<Rightarrow> if c = CHR ''.''
              then (let (ds, t) = span_digits r in if ds = [] then None else Some (c # ds, t))
              else Some ([], s))"

definition jnum_exp :: "string \<Rightarrow> (string \<times> string) option" where
  "jnum_exp s = (case s of
     [] \<Rightarrow> Some ([], [])
   | c # r \<Rightarrow> if c = CHR ''e'' \<or> c = CHR ''E''
              then (let (sg, r') = (case r of
                            x # r1 \<Rightarrow> if x = CHR ''+'' \<or> x = CHR ''-'' then ([x], r1) else ([], r)
                          | [] \<Rightarrow> ([], []));
                        (ds, t) = span_digits r'
                    in if ds = [] then None else Some (c # sg @ ds, t))
              else Some ([], s))"

definition jnumber :: "string \<Rightarrow> (string \<times> string) option" where
  "jnumber s =
    (let (sg, r) = (case s of c # r1 \<Rightarrow> if c = CHR ''-'' then ([c], r1) else ([], s)
                            | [] \<Rightarrow> ([], [])) in
     case jnum_int r of None \<Rightarrow> None | Some (i, r1) \<Rightarrow>
     case jnum_frac r1 of None \<Rightarrow> None | Some (f, r2) \<Rightarrow>
     case jnum_exp r2 of None \<Rightarrow> None | Some (e, r3) \<Rightarrow>
       Some (sg @ i @ f @ e, r3))"

text \<open>
  \<open>jval f d s\<close> reads one value at the start of \<open>s\<close>; \<open>d\<close> counts the open arrays and objects,
  \<open>f\<close> is fuel.  Each array element costs one unit for \<open>jelems\<close> and one for \<open>jval\<close> on the same
  text and every other call has consumed a byte, so \<open>f > 2 * length s\<close> is enough
  (\<open>jval_fuel\<close> below).
\<close>

fun jval :: "nat \<Rightarrow> nat \<Rightarrow> string \<Rightarrow> (json \<times> string) option"
  and jelems :: "nat \<Rightarrow> nat \<Rightarrow> string \<Rightarrow> (json list \<times> string) option"
  and jmembers :: "nat \<Rightarrow> nat \<Rightarrow> string \<Rightarrow> (member list \<times> string) option" where
  "jval 0 d s = None"
| "jval (Suc f) d s = (case s of
     [] \<Rightarrow> None
   | c # r \<Rightarrow>
       if c = CHR ''{'' then
         (if d < maxNestingDepth then
            (case skip_ws r of
               [] \<Rightarrow> None
             | x # r1 \<Rightarrow> if x = CHR ''}'' then Some (JObj [], r1)
                         else map_option (\<lambda>(ms, t). (JObj ms, t)) (jmembers f (Suc d) (x # r1)))
          else None)
       else if c = CHR ''['' then
         (if d < maxNestingDepth then
            (case skip_ws r of
               [] \<Rightarrow> None
             | x # r1 \<Rightarrow> if x = CHR '']'' then Some (JArr [], r1)
                         else map_option (\<lambda>(vs, t). (JArr vs, t)) (jelems f (Suc d) (x # r1)))
          else None)
       else if c = CHR 0x22 then map_option (\<lambda>(v, t). (JStr v, t)) (jstring r)
       else if hasPrefix s ''true'' then Some (JBool True, drop 4 s)
       else if hasPrefix s ''false'' then Some (JBool False, drop 5 s)
       else if hasPrefix s ''null'' then Some (JNull, drop 4 s)
       else map_option (\<lambda>(n, t). (JNum n, t)) (jnumber s))"
| "jelems 0 d s = None"
| "jelems (Suc f) d s = (case jval f d s of
     None \<Rightarrow> None
   | Some (v, t) \<Rightarrow> (case skip_ws t of
       [] \<Rightarrow> None
     | x # r \<Rightarrow> if x = CHR '']'' then Some ([v], r)
                else if x = CHR '','' then
                  map_option (\<lambda>(vs, u). (v # vs, u)) (jelems f d (skip_ws r))
                else None))"
| "jmembers 0 d s = None"
| "jmembers (Suc f) d s = (case s of
     [] \<Rightarrow> None
   | q # r \<Rightarrow>
       if q \<noteq> CHR 0x22 then None else
       (case jstring r of
          None \<Rightarrow> None
        | Some (k, t) \<Rightarrow> (case skip_ws t of
            [] \<Rightarrow> None
          | x # t1 \<Rightarrow>
              if x \<noteq> CHR '':'' then None else
              (let vs = skip_ws t1 in
               case jval f d vs of
                 None \<Rightarrow> None
               | Some (v, u) \<Rightarrow>
                   (let m = (k, take (length vs - length u) vs, v) in
                    case skip_ws u of
                      [] \<Rightarrow> None
                    | y # u1 \<Rightarrow>
                        if y = CHR ''}'' then Some ([m], u1)
                        else if y = CHR '','' then
                          map_option (\<lambda>(ms, z). (m # ms, z)) (jmembers f d (skip_ws u1))
                        else None)))))"

definition json_value :: "string \<Rightarrow> (json \<times> string) option" where
  "json_value s = (let t = skip_ws s in jval (Suc (2 * length t)) 0 t)"

text \<open>\<open>json.Unmarshal\<close> checks the whole input first: one value, then only white space.\<close>

definition json_parse :: "string \<Rightarrow> json option" where
  "json_parse s = (case json_value s of
     None \<Rightarrow> None
   | Some (v, t) \<Rightarrow> if skip_ws t = [] then Some v else None)"

text \<open>
  \<open>json.NewDecoder(r).Decode\<close> reads the first value only.  The end of an object, array or
  string is seen at its last byte or at the byte after it; a value that is not closed by itself
  needs the end of the input, so a read error (\<open>bad\<close>) right after it is an error.
\<close>

definition is_container :: "json \<Rightarrow> bool" where
  "is_container v = (case v of JObj _ \<Rightarrow> True | JArr _ \<Rightarrow> True | _ \<Rightarrow> False)"

definition json_decode_stream :: "string \<Rightarrow> bool \<Rightarrow> json option" where
  "json_decode_stream s bad = (case json_value s of
     None \<Rightarrow> None
   | Some (v, t) \<Rightarrow> if t = [] \<and> bad \<and> \<not> is_container v then None else Some v)"

section \<open>Struct fields\<close>

text \<open>
  A member goes to the field whose name it equals, or else to the field it equals up to case
  folding.  Among the runes that are not ASCII only the long s (U+017F) and the Kelvin sign
  (U+212A) fold to ASCII letters.
\<close>

definition foldRune :: "nat \<Rightarrow> nat" where
  "foldRune n = (if 97 \<le> n \<and> n \<le> 122 then n - 32
                 else if n = 0x17F then 83 else if n = 0x212A then 75 else n)"

definition foldName :: "string \<Rightarrow> nat list" where
  "foldName s = map foldRune (runes s)"

definition field_name :: "string list \<Rightarrow> string \<Rightarrow> string option" where
  "field_name names k = (if k \<in> set names then Some k
     else find (\<lambda>n. foldName n = foldName k) names)"

text \<open>Storing a value in a field: \<open>null\<close> leaves a string, number or bool as it is.\<close>

definition set_string :: "json \<Rightarrow> string \<Rightarrow> string option" where
  "set_string v old = (case v of JNull \<Rightarrow> Some old | JStr s \<Rightarrow> Some s | _ \<Rightarrow> None)"

definition set_bool :: "json \<Rightarrow> bool \<Rightarrow> bool option" where
  "set_bool v old = (case v of JNull \<Rightarrow> Some old | JBool b \<Rightarrow> Some b | _ \<Rightarrow> None)"

definition set_bool_ptr :: "json \<Rightarrow> bool option option" where
  "set_bool_ptr v = (case v of JNull \<Rightarrow> Some None | JBool b \<Rightarrow> Some (Some b) | _ \<Rightarrow> None)"

definition set_int64 :: "json \<Rightarrow> int \<Rightarrow> int option" where
  "set_int64 v old = (case v of JNull \<Rightarrow> Some old | JNum n \<Rightarrow> parseInt64 n | _ \<Rightarrow> None)"

text \<open>
  Decoding into a struct: the members in order, each stored by \<open>upd\<close> (\<open>None\<close>: the value does
  not fit the field).  Go stores the other members and reports the first such error at the end;
  the gateway never uses a struct whose decoding failed.
\<close>

fun decode_members :: "(string \<Rightarrow> string \<Rightarrow> json \<Rightarrow> 's \<Rightarrow> 's option) \<Rightarrow> string list \<Rightarrow>
    member list \<Rightarrow> 's \<Rightarrow> 's option" where
  "decode_members upd names [] s = Some s"
| "decode_members upd names ((k, raw, v) # ms) s = (case field_name names k of
     None \<Rightarrow> decode_members upd names ms s
   | Some f \<Rightarrow> (case upd f raw v s of
       None \<Rightarrow> None
     | Some s' \<Rightarrow> decode_members upd names ms s'))"

definition decode_struct :: "(string \<Rightarrow> string \<Rightarrow> json \<Rightarrow> 's \<Rightarrow> 's option) \<Rightarrow> string list \<Rightarrow>
    's \<Rightarrow> json \<Rightarrow> 's option" where
  "decode_struct upd names zero v = (case v of
     JNull \<Rightarrow> Some zero
   | JObj ms \<Rightarrow> decode_members upd names ms zero
   | _ \<Rightarrow> None)"

section \<open>Writing strings\<close>

definition u_escape :: "nat \<Rightarrow> string" where
  "u_escape n = [CHR 0x5C, CHR ''u'', hex_digit (n div 4096 mod 16), hex_digit (n div 256 mod 16),
                 hex_digit (n div 16 mod 16), hex_digit (n mod 16)]"

definition escape_ascii :: "char \<Rightarrow> string" where
  "escape_ascii c =
    (if c = CHR 0x22 \<or> c = CHR 0x5C then [CHR 0x5C, c]
     else if c = CHR 0x08 then [CHR 0x5C, CHR ''b'']
     else if c = CHR 0x0C then [CHR 0x5C, CHR ''f'']
     else if c = CHR 0x0A then [CHR 0x5C, CHR ''n'']
     else if c = CHR 0x0D then [CHR 0x5C, CHR ''r'']
     else if c = CHR 0x09 then [CHR 0x5C, CHR ''t'']
     else if byte c < 0x20 \<or> c = CHR ''<'' \<or> c = CHR ''>'' \<or> c = CHR ''&''
       then u_escape (byte c)
     else [c])"

text \<open>
  \<open>encoding/json\<close> and \<open>log/slog\<close> escape the same way but for the ASCII characters, which \<open>esc\<close> does.
\<close>

fun escape_text :: "(char \<Rightarrow> string) \<Rightarrow> string \<Rightarrow> string" where
  "escape_text esc [] = []"
| "escape_text esc (c # r) =
    (if byte c < 0x80 then esc c @ escape_text esc r
     else (let (n, w) = decodeRune c r in
       (if n = runeError \<and> w = 1 then u_escape runeError
        else if n = 0x2028 \<or> n = 0x2029 then u_escape n
        else c # take (w - 1) r) @ escape_text esc (drop (w - 1) r)))"

declare escape_text.simps(2) [simp del]

abbreviation json_escape :: "string \<Rightarrow> string" where
  "json_escape \<equiv> escape_text escape_ascii"

definition json_string :: "string \<Rightarrow> string" where
  "json_string s = quote @ json_escape s @ quote"

fun json_string_list :: "string list \<Rightarrow> string" where
  "json_string_list [] = []"
| "json_string_list [s] = json_string s"
| "json_string_list (s # t # ss) = json_string s @ '','' @ json_string_list (t # ss)"

text \<open>An object, from the names of its members and the texts of their values.\<close>

definition member_text :: "string \<Rightarrow> string \<Rightarrow> string" where
  "member_text k v = json_string k @ '':'' @ v"

fun members_text :: "(string \<times> string) list \<Rightarrow> string" where
  "members_text [] = []"
| "members_text [(k, v)] = member_text k v"
| "members_text ((k, v) # x # xs) = member_text k v @ '','' @ members_text (x # xs)"

definition json_object :: "(string \<times> string) list \<Rightarrow> string" where
  "json_object kvs = ''{'' @ members_text kvs @ ''}''"

text \<open>What a string becomes when it is written and read back: invalid bytes are replaced.\<close>

fun valid_utf8 :: "string \<Rightarrow> string" where
  "valid_utf8 [] = []"
| "valid_utf8 (c # r) = (let (n, w) = decodeRune c r in
     (if n = runeError then encodeRune runeError else c # take (w - 1) r) @
     valid_utf8 (drop (w - 1) r))"

declare valid_utf8.simps(2) [simp del]

section \<open>Parsing consumes its input\<close>

lemma skip_ws_length: "length (skip_ws s) \<le> length s"
  by (simp add: skip_ws_def length_dropWhile_le)

lemma skip_ws_Cons_length: "skip_ws s = x # r \<Longrightarrow> length r < length s"
  using skip_ws_length [of s] by simp

lemma escape_rune_width: "escape_rune n s = (rn, k) \<Longrightarrow> k = 0 \<or> k = 6"
  by (auto simp: escape_rune_def split: if_splits option.splits)

lemma jstring_length: "jstring s = Some (v, t) \<Longrightarrow> length t < length s"
proof (induction s arbitrary: v t rule: measure_induct_rule [where f = length])
  case (less s)
  show ?case
  proof (cases s)
    case Nil
    with less.prems show ?thesis by simp
  next
    case (Cons c r)
    have rest: "length u \<le> length r \<longrightarrow> length t' \<le> length r"
      if "jstring u = Some (v', t')" for u v' t'
      using less.IH [of u v' t'] that Cons by auto
    from less.prems Cons show ?thesis
      by (auto simp: jstring.simps(2) Let_def split: if_splits list.splits option.splits prod.splits
          dest!: rest)
  qed
qed

lemma jnum_int_length: "jnum_int s = Some (a, t) \<Longrightarrow> s = a @ t \<and> a \<noteq> []"
  by (auto simp: jnum_int_def span_digits_def split: list.splits if_splits)

lemma jnum_frac_length: "jnum_frac s = Some (a, t) \<Longrightarrow> s = a @ t"
  by (auto simp: jnum_frac_def span_digits_def Let_def split: list.splits if_splits prod.splits)

lemma jnum_exp_length: "jnum_exp s = Some (a, t) \<Longrightarrow> s = a @ t"
  by (auto simp: jnum_exp_def span_digits_def Let_def split: list.splits if_splits prod.splits)

lemma jnumber_split: "jnumber s = Some (a, t) \<Longrightarrow> s = a @ t \<and> a \<noteq> []"
  by (auto simp: jnumber_def Let_def split: list.splits if_splits option.splits prod.splits
      dest!: jnum_int_length jnum_frac_length jnum_exp_length)

lemma jnumber_length: "jnumber s = Some (a, t) \<Longrightarrow> length t < length s"
  by (auto dest: jnumber_split)

lemma hasPrefix_length: "hasPrefix s p \<Longrightarrow> length p \<le> length s"
  by (auto simp: hasPrefix_iff)

lemma jelems_SucE:
  assumes "jelems (Suc f) d s = Some (vs, t)"
  obtains v u x r where "jval f d s = Some (v, u)" "skip_ws u = x # r"
    "x = CHR '']'' \<and> vs = [v] \<and> t = r \<or>
     x = CHR '','' \<and> (\<exists>vs'. jelems f d (skip_ws r) = Some (vs', t) \<and> vs = v # vs')"
  using assms by (fastforce split: list.splits if_splits option.splits)

lemma jmembers_SucE:
  assumes "jmembers (Suc f) d s = Some (ms, t)"
  obtains q r k t0 t1 v u y u1 where "s = CHR 0x22 # r" "jstring r = Some (k, t0)"
    "skip_ws t0 = CHR '':'' # t1" "jval f d (skip_ws t1) = Some (v, u)" "skip_ws u = y # u1"
    "y = CHR ''}'' \<and> ms = [(k, take (length (skip_ws t1) - length u) (skip_ws t1), v)] \<and> t = u1 \<or>
     y = CHR '','' \<and> (\<exists>ms'. jmembers f d (skip_ws u1) = Some (ms', t) \<and>
       ms = (k, take (length (skip_ws t1) - length u) (skip_ws t1), v) # ms')"
proof -
  from assms obtain r k t0 where r: "s = CHR 0x22 # r" "jstring r = Some (k, t0)"
    by (auto split: list.splits if_splits option.splits)
  with assms obtain t1 where t1: "skip_ws t0 = CHR '':'' # t1"
    by (auto split: list.splits if_splits option.splits)
  with assms r obtain v u where u: "jval f d (skip_ws t1) = Some (v, u)"
    by (auto simp: Let_def split: if_splits option.splits)
  with assms r t1 obtain y u1 where y: "skip_ws u = y # u1"
    by (auto simp: Let_def split: list.splits)
  with assms r t1 u show ?thesis
    by (intro that [OF r t1 u y]) (auto simp: Let_def split: if_splits)
qed

lemma jval_length:
  "jval f d s = Some (v, t) \<Longrightarrow> length t < length s"
  "jelems f d s = Some (vs, t) \<Longrightarrow> length t < length s"
  "jmembers f d s = Some (ms, t) \<Longrightarrow> length t < length s"
proof (induction f arbitrary: d s v vs ms t)
  case (Suc f)
  have ws: "length t < length (skip_ws r) \<Longrightarrow> length t < length r" for r t :: string
    using skip_ws_length [of r] by simp
  {
    case 1
    then show ?case
      by (auto split: list.splits if_splits dest!: Suc.IH skip_ws_Cons_length jstring_length
          jnumber_length hasPrefix_length)
  next
    case 2
    then show ?case
      by (elim jelems_SucE) (auto dest!: Suc.IH skip_ws_Cons_length ws)
  next
    case 3
    then show ?case
      by (elim jmembers_SucE) (auto dest!: Suc.IH skip_ws_Cons_length jstring_length ws)
  }
qed auto

section \<open>Enough fuel\<close>

lemmas jparse_simps = jval.simps(2) jelems.simps(2) jmembers.simps(2)

declare jparse_simps [simp del]

lemma jval_fuel_Suc:
  "2 * length s < f \<Longrightarrow> jval (Suc f) d s = jval f d s"
  "2 * length s + 1 < f \<Longrightarrow> jelems (Suc f) d s = jelems f d s"
  "2 * length s < f \<Longrightarrow> jmembers (Suc f) d s = jmembers f d s"
proof (induction f arbitrary: d s)
  case (Suc f)
  {
    case 1
    have ih: "jmembers (Suc f) (Suc d) (x # u) = jmembers f (Suc d) (x # u)"
      "jelems (Suc f) (Suc d) (x # u) = jelems f (Suc d) (x # u)"
      if "s = c # r" "skip_ws r = x # u" for c r x u
      using Suc.IH(2,3) [of "x # u" "Suc d"] 1 skip_ws_length [of r] that by simp_all
    show ?case
      using ih by (auto simp: jval.simps(2) split: list.split)
  next
    case 2
    have ih1: "jval (Suc f) d s = jval f d s"
      using Suc.IH(1) [of s d] 2 by simp
    have ih2: "jelems (Suc f) d (skip_ws r) = jelems f d (skip_ws r)"
      if "jval f d s = Some (v, t)" "skip_ws t = x # r" for v t x r
      using Suc.IH(2) [of "skip_ws r" d] 2 jval_length(1) [OF that(1)] skip_ws_length [of t]
        skip_ws_length [of r] that(2) by simp
    show ?case
      using ih2 by (auto simp: jelems.simps(2) ih1 split: list.split option.split)
  next
    case 3
    have ih1: "jval (Suc f) d (skip_ws t1) = jval f d (skip_ws t1)"
      if "s = q # r" "jstring r = Some (k, t)" "skip_ws t = x # t1" for q r k t x t1
      using Suc.IH(1) [of "skip_ws t1" d] 3 jstring_length [OF that(2)] skip_ws_length [of t]
        skip_ws_length [of t1] that by simp
    have ih2: "jmembers (Suc f) d (skip_ws u1) = jmembers f d (skip_ws u1)"
      if "s = q # r" "jstring r = Some (k, t)" "skip_ws t = x # t1"
        "jval f d (skip_ws t1) = Some (v, u)" "skip_ws u = y # u1" for q r k t x t1 v u y u1
      using Suc.IH(3) [of "skip_ws u1" d] 3 jstring_length [OF that(2)] skip_ws_length [of t]
        skip_ws_length [of t1] jval_length(1) [OF that(4)] skip_ws_length [of u]
        skip_ws_length [of u1] that by simp
    show ?case
      using ih1 ih2 by (auto simp: jmembers.simps(2) Let_def split: list.split option.split)
  }
qed auto

lemma jval_fuel: "2 * length s < f \<Longrightarrow> jval f d s = jval (Suc (2 * length s)) d s"
proof (induction f)
  case (Suc f)
  show ?case
  proof (cases "2 * length s < f")
    case True
    with Suc.IH jval_fuel_Suc(1) [OF True] show ?thesis by simp
  next
    case False
    with Suc.prems have "f = 2 * length s" by simp
    then show ?thesis by simp
  qed
qed simp

section \<open>Strings survive writing and reading\<close>

lemma hex_val_digit: "d < 16 \<Longrightarrow> hex_val (hex_digit d) = Some d"
  by (auto simp: hex_val_def hex_digit_def Let_def)

lemma split_base: "q < b \<Longrightarrow> (m * b + q) div b = m \<and> (m * b + q) mod b = (q::nat)"
  by simp

lemma hex4_u: "n < 65536 \<Longrightarrow>
  hex4 (hex_digit (n div 4096)) (hex_digit (n div 256 mod 16))
    (hex_digit (n div 16 mod 16)) (hex_digit (n mod 16)) = Some n"
proof -
  assume n: "n < 65536"
  define a b where "a = n div 16" and "b = n div 16 div 16"
  have ab: "n div 256 = b" "n div 4096 = b div 16"
    by (simp_all add: b_def div_mult2_eq [symmetric])
  have "n = 16 * a + n mod 16" "a = 16 * b + a mod 16" "b = 16 * (b div 16) + b mod 16"
    by (simp_all add: a_def b_def)
  then have sum: "4096 * (b div 16) + 256 * (b mod 16) + 16 * (a mod 16) + n mod 16 = n"
    by linarith
  have "n div 4096 < 16" using n by simp
  with sum show ?thesis
    by (simp add: hex4_def hex_val_digit ab flip: a_def)
qed

lemma jstring_u_escape:
  assumes "n < 65536" "\<not> isSurrogate n"
  shows "jstring (u_escape n @ x) = map_option (\<lambda>(v, t). (encodeRune n @ v, t)) (jstring x)"
proof -
  have "n div 4096 mod 16 = n div 4096" using assms by simp
  then show ?thesis using assms
    by (simp add: u_escape_def jstring.simps(2) hex4_of_def hex4_u escape_rune_def)
qed

lemma jstring_escape_ascii:
  assumes "byte c < 0x80"
  shows "jstring (escape_ascii c @ x) = map_option (\<lambda>(v, t). (c # v, t)) (jstring x)"
proof -
  have enc: "encodeRune (byte c) = [c]" using assms by (simp add: encodeRune_def)
  have u: "jstring (u_escape (byte c) @ x) = map_option (\<lambda>(v, t). (c # v, t)) (jstring x)"
    using assms by (subst jstring_u_escape) (auto simp: isSurrogate_def enc)
  show ?thesis
    using assms u
    by (auto simp: escape_ascii_def jstring.simps(2) simple_escape_def decodeRune_ascii runeError_def)
qed

lemma decodeRune_take:
  "decodeRune c r = (n, w) \<Longrightarrow> 1 < w \<Longrightarrow> decodeRune c (take (w - Suc 0) r @ x) = (n, w)"
  by (auto simp: decodeRune_def decodeRune_parts Let_def take_Cons split: if_splits list.splits nat.splits)

lemma encodeRune_3:
  assumes "0xE0 \<le> a" "a \<le> 0xEF" "0x80 \<le> p" "p \<le> 0xBF" "0x80 \<le> q" "q \<le> 0xBF"
    and "a = 0xE0 \<longrightarrow> 0xA0 \<le> p"
  shows "encodeRune ((a - 0xE0) * 4096 + (p - 0x80) * 64 + (q - 0x80)) = [chr a, chr p, chr q]"
proof -
  define a' p' q' where d: "a' = a - 0xE0" "p' = p - 0x80" "q' = q - 0x80"
  have b: "a' < 16" "p' < 64" "q' < 64" "a = 0xE0 + a'" "p = 0x80 + p'" "q = 0x80 + q'"
    using assms d by auto
  define n where "n = a' * 4096 + p' * 64 + q'"
  have n: "n = (a' * 64 + p') * 64 + q'" by (simp add: n_def)
  have "n div 64 = a' * 64 + p'" "n mod 64 = q'" by (simp_all only: n split_base [OF b(3)])
  moreover from this have "n div 4096 = a'" "n div 64 mod 64 = p'"
    using split_base [OF b(2), of a'] by (simp_all add: div_mult2_eq [of n 64 64, simplified])
  moreover have "0x800 \<le> n" "n < 0x10000" using assms b n by (cases "a' = 0"; simp add: n_def)+
  ultimately show ?thesis using b by (simp add: encodeRune_def flip: n_def d)
qed

lemma decodeRune_ls:
  assumes "decodeRune c r = (n, w)" "n = 0x2028 \<or> n = 0x2029"
  shows "encodeRune n = c # take (w - 1) r"
proof -
  have a: "0xE0 \<le> byte c" "byte c \<le> 0xEF" and d: "decodeRune3 (byte c) r = (n, w)"
    using assms by (auto simp: decodeRune_def decodeRune2_def decodeRune4_def cont_byte_def
        runeError_def Let_def split: if_splits list.splits)
  from d assms(2) obtain x y r' where r: "r = x # y # r'"
    by (auto simp: decodeRune3_def runeError_def split: list.splits)
  with d assms(2) have w: "w = 3"
    and n: "n = (byte c - 0xE0) * 4096 + (byte x - 0x80) * 64 + (byte y - 0x80)"
    and x: "0x80 \<le> byte x" "byte x \<le> 0xBF" "byte c = 0xE0 \<longrightarrow> 0xA0 \<le> byte x"
    and y: "0x80 \<le> byte y" "byte y \<le> 0xBF"
    by (auto simp: decodeRune3_def runeError_def cont_byte_def split: if_splits)
  have "encodeRune n = [chr (byte c), chr (byte x), chr (byte y)]"
    unfolding n by (rule encodeRune_3 [OF a x(1,2) y x(3)])
  with w r show ?thesis by (simp add: numeral_2_eq_2)
qed

lemma jstring_raw:
  assumes "0x80 \<le> byte c" "decodeRune c r = (n, w)" "1 < w"
  shows "jstring (c # take (w - Suc 0) r @ x) =
    map_option (\<lambda>(v, t). ((if n = runeError then encodeRune runeError
                           else c # take (w - Suc 0) r) @ v, t)) (jstring x)"
proof -
  have w: "w - 1 \<le> length r" using decodeRune_width [OF assms(2)] by auto
  then have [simp]: "min (length r) (w - Suc 0) = w - Suc 0" by auto
  have "c \<noteq> CHR 0x22" "c \<noteq> CHR 0x5C" using assms(1) by auto
  with assms(1) w show ?thesis
    by (simp add: jstring.simps(2) decodeRune_take [OF assms(2,3)])
qed

lemma jstring_escape_text:
  assumes "\<And>c x. byte c < 0x80 \<Longrightarrow> jstring (esc c @ x) = map_option (\<lambda>(v, t). (c # v, t)) (jstring x)"
  shows "jstring (escape_text esc s @ CHR 0x22 # x) = Some (valid_utf8 s, x)"
  using assms
proof (induction esc s rule: escape_text.induct)
  case 1
  then show ?case by (simp add: jstring.simps(2))
next
  case (2 esc c r)
  obtain n w where nw: "decodeRune c r = (n, w)" by fastforce
  show ?case
  proof (cases "byte c < 0x80")
    case True
    with "2.IH"(1) [OF True "2.prems"] show ?thesis
      by (simp add: escape_text.simps(2) valid_utf8.simps(2) "2.prems" [OF True] decodeRune_ascii runeError_def)
  next
    case False
    note ih = "2.IH"(2) [OF False nw [symmetric] refl "2.prems"]
    consider (bad) "n = runeError" "w = 1" | (ls) "n = 0x2028 \<or> n = 0x2029"
      | (raw) "n \<noteq> runeError \<or> w \<noteq> 1" "n \<noteq> 0x2028 \<and> n \<noteq> 0x2029" by blast
    then show ?thesis
    proof cases
      case bad
      with ih nw False show ?thesis
        by (simp add: escape_text.simps(2) valid_utf8.simps(2) jstring_u_escape runeError_def
            isSurrogate_def)
    next
      case ls
      with decodeRune_ls [OF nw ls] have "c # take (w - Suc 0) r = encodeRune n" by simp
      with ih nw False ls show ?thesis
        by (auto simp: escape_text.simps(2) valid_utf8.simps(2) jstring_u_escape runeError_def
            isSurrogate_def)
    next
      case raw
      have "1 < w" using raw nw False decodeRune_width [OF nw]
        by (auto simp: decodeRune_def decodeRune_parts Let_def split: if_splits list.splits)
      with ih nw False raw show ?thesis
        by (simp add: escape_text.simps(2) valid_utf8.simps(2) jstring_raw)
    qed
  qed
qed

lemmas jstring_json_escape = jstring_escape_text [OF jstring_escape_ascii]

lemma valid_utf8_ascii: "\<forall>c \<in> set s. byte c < 0x80 \<Longrightarrow> valid_utf8 s = s"
  by (induction s) (simp_all add: valid_utf8.simps(2) decodeRune_ascii runeError_def)

section \<open>Written texts read back\<close>

text \<open>
  \<open>reads_as v x n\<close>: wherever a value may stand, the text \<open>v\<close> is read as the value \<open>x\<close>; \<open>n\<close>
  bounds the arrays and objects it opens.
\<close>

definition delimited :: "string \<Rightarrow> bool" where
  "delimited t \<longleftrightarrow> t = [] \<or> hd t = CHR '','' \<or> hd t = CHR ''}'' \<or> hd t = CHR '']'' \<or> is_ws (hd t)"

definition reads_as :: "string \<Rightarrow> json \<Rightarrow> nat \<Rightarrow> bool" where
  "reads_as v x n \<longleftrightarrow> v \<noteq> [] \<and> \<not> is_ws (hd v) \<and>
     (\<forall>f d t. 2 * length (v @ t) < f \<longrightarrow> d + n \<le> maxNestingDepth \<longrightarrow> delimited t \<longrightarrow>
        jval f d (v @ t) = Some (x, t))"

lemma skip_ws_id [simp]: "\<not> is_ws c \<Longrightarrow> skip_ws (c # r) = c # r"
  by (simp add: skip_ws_def)

lemma not_is_ws [simp]: "\<not> is_ws (CHR 0x22)" "\<not> is_ws (CHR ''{'')" "\<not> is_ws (CHR ''['')"
  "\<not> is_ws (CHR ''}'')" "\<not> is_ws (CHR '']'')" "\<not> is_ws (CHR '','')" "\<not> is_ws (CHR '':'')"
  "\<not> is_ws (CHR ''n'')" "\<not> is_ws (CHR ''t'')" "\<not> is_ws (CHR ''f'')"
  by (simp_all add: is_ws_def)

lemma reads_asI:
  assumes "v \<noteq> []" "\<not> is_ws (hd v)"
    and "\<And>f d t. 2 * length (v @ t) \<le> f \<Longrightarrow> d + n \<le> maxNestingDepth \<Longrightarrow> delimited t \<Longrightarrow>
      jval (Suc f) d (v @ t) = Some (x, t)"
  shows "reads_as v x n"
  unfolding reads_as_def
proof (intro conjI allI impI assms(1,2))
  fix f d t
  assume "2 * length (v @ t) < f" "d + n \<le> maxNestingDepth" "delimited t"
  then show "jval f d (v @ t) = Some (x, t)"
    using assms(3) by (cases f) auto
qed

lemma reads_as_string: "reads_as (json_string s) (JStr (valid_utf8 s)) n"
  by (rule reads_asI) (simp_all add: json_string_def quote_def jval.simps(2) jstring_json_escape)

lemma reads_as_null: "reads_as ''null'' JNull n"
  by (rule reads_asI) (simp_all add: jval.simps(2))

lemma digit_not_special:
  "is_digit c \<Longrightarrow> c \<noteq> CHR ''{'' \<and> c \<noteq> CHR ''['' \<and> c \<noteq> CHR 0x22 \<and> c \<noteq> CHR ''t'' \<and>
    c \<noteq> CHR ''f'' \<and> c \<noteq> CHR ''n'' \<and> c \<noteq> CHR ''-'' \<and> \<not> is_ws c"
  by (auto simp: is_digit_def is_ws_def)

lemma delimited_stops: "delimited t \<Longrightarrow> jnum_frac t = Some ([], t) \<and> jnum_exp t = Some ([], t) \<and>
   takeWhile is_digit t = [] \<and> dropWhile is_digit t = t"
  by (cases t) (auto simp: delimited_def jnum_frac_def jnum_exp_def is_digit_def is_ws_def)

lemma itoa_nat_leading: "itoa_nat n = CHR ''0'' # r \<Longrightarrow> r = []"
proof (induction n arbitrary: r rule: itoa_nat.induct)
  case (1 n)
  show ?case
  proof (cases "n < 10")
    case True
    with "1.prems" show ?thesis by (subst (asm) itoa_nat.simps) simp
  next
    case False
    obtain c x where c: "itoa_nat (n div 10) = c # x" by (rule itoa_nat_Cons)
    with "1.prems" False have "c = CHR ''0''" by (subst (asm) itoa_nat.simps) simp
    with "1.IH" [OF False, of x] c have "itoa_nat (n div 10) = ''0''" by simp
    then have "n div 10 = 0"
      using digits_value_itoa_nat [of "n div 10"] by (simp add: digit_val_def)
    with False show ?thesis by simp
  qed
qed

lemma jnum_int_itoa:
  assumes "delimited t"
  shows "jnum_int (itoa_nat n @ t) = Some (itoa_nat n, t)"
proof -
  obtain c r where c: "itoa_nat n = c # r" by (rule itoa_nat_Cons)
  have d: "list_all is_digit (itoa_nat n)" by (rule itoa_nat_digits)
  show ?thesis
  proof (cases "c = CHR ''0''")
    case True
    with c itoa_nat_leading have "r = []" by simp
    with c True show ?thesis by (simp add: jnum_int_def)
  next
    case False
    have "takeWhile is_digit (c # r @ t) = c # r" "dropWhile is_digit (c # r @ t) = t"
      using d c delimited_stops [OF assms] by (simp_all add: list_all_iff)
    with False c d show ?thesis by (simp add: jnum_int_def span_digits_def)
  qed
qed

lemma jnumber_itoa: "delimited t \<Longrightarrow> jnumber (itoa n @ t) = Some (itoa n, t)"
proof -
  assume t: "delimited t"
  obtain c r where c: "itoa_nat (nat n) = c # r" "c \<noteq> CHR ''-''" by (rule itoa_nat_Cons)
  show ?thesis
    using t jnum_int_itoa [OF t, of "nat n"] jnum_int_itoa [OF t, of "nat (- n)"]
      delimited_stops [OF t] c
    by (auto simp: jnumber_def itoa_def)
qed

lemma reads_as_itoa: "reads_as (itoa n) (JNum (itoa n)) k"
proof (rule reads_asI)
  obtain c r where c: "itoa n = c # r" "c = CHR ''-'' \<or> is_digit c"
  proof (cases "n < 0")
    case True
    then show ?thesis using that by (simp add: itoa_def)
  next
    case False
    then show ?thesis using that itoa_nat_digits [of "nat n"] itoa_nat_nonempty [of "nat n"]
      by (cases "itoa_nat (nat n)") (auto simp: itoa_def)
  qed
  then show "\<not> is_ws (hd (itoa n))" by (auto simp: is_ws_def is_digit_def)
  fix f d t
  assume "delimited t"
  then have num: "jnumber (c # r @ t) = Some (itoa n, t)" using jnumber_itoa [of t n] c(1) by simp
  have "c \<noteq> CHR ''{'' \<and> c \<noteq> CHR ''['' \<and> c \<noteq> CHR 0x22 \<and> c \<noteq> CHR ''t'' \<and> c \<noteq> CHR ''f'' \<and> c \<noteq> CHR ''n''"
    using c(2) digit_not_special [of c] by auto
  with c(1) num show "jval (Suc f) d (itoa n @ t) = Some (JNum (itoa n), t)"
    by (simp add: jval.simps(2))
qed (rule itoa_nonempty)

lemma jmembers_members_text:
  assumes "kvs \<noteq> []"
    and "list_all2 (\<lambda>(k, v) x. reads_as v x n) kvs xs"
    and "2 * length (members_text kvs @ CHR ''}'' # t) < f" "d + n \<le> maxNestingDepth"
  shows "jmembers f d (members_text kvs @ CHR ''}'' # t) =
    Some (map2 (\<lambda>(k, v) x. (valid_utf8 k, v, x)) kvs xs, t)"
  using assms
proof (induction kvs arbitrary: xs f rule: members_text.induct)
  case 1
  then show ?case by simp
next
  case (2 k v)
  then obtain x where xs: "xs = [x]" and x: "reads_as v x n"
    by (auto simp: list_all2_Cons1)
  obtain g where f: "f = Suc g" using "2.prems"(3) by (cases f) auto
  have v: "v \<noteq> []" "\<not> is_ws (hd v)" using x by (auto simp: reads_as_def)
  then have sk: "skip_ws (v @ CHR ''}'' # t) = v @ CHR ''}'' # t" by (cases v) auto
  have "jval g d (v @ CHR ''}'' # t) = Some (x, CHR ''}'' # t)"
    using x "2.prems" f by (simp add: reads_as_def delimited_def member_text_def json_string_def)
  then show ?case
    by (simp add: f jmembers.simps(2) member_text_def json_string_def quote_def
        jstring_json_escape sk xs)
next
  case (3 k v y kvs)
  then obtain x xs' where xs: "xs = x # xs'" and x: "reads_as v x n"
    and xs': "list_all2 (\<lambda>(k, v) x. reads_as v x n) (y # kvs) xs'"
    by (auto simp: list_all2_Cons1)
  obtain g where f: "f = Suc g" using "3.prems"(3) by (cases f) auto
  let ?r = "members_text (y # kvs) @ CHR ''}'' # t"
  have v: "v \<noteq> []" "\<not> is_ws (hd v)" using x by (auto simp: reads_as_def)
  then have sk: "skip_ws (v @ CHR '','' # ?r) = v @ CHR '','' # ?r" by (cases v) auto
  have "hd (members_text (y # kvs)) = CHR 0x22 \<and> members_text (y # kvs) \<noteq> []"
    by (cases y; cases kvs) (auto simp: member_text_def json_string_def quote_def)
  then have sk': "skip_ws ?r = ?r" by (cases "members_text (y # kvs)") auto
  have "jval g d (v @ CHR '','' # ?r) = Some (x, CHR '','' # ?r)"
    using x "3.prems" f by (simp add: reads_as_def delimited_def member_text_def json_string_def)
  moreover have "jmembers g d ?r =
      Some (map2 (\<lambda>(k, v) x. (valid_utf8 k, v, x)) (y # kvs) xs', t)"
    using "3.prems"(3,4) f by (intro "3.IH" xs') auto
  ultimately show ?case
    by (simp add: f jmembers.simps(2) member_text_def json_string_def quote_def
        jstring_json_escape sk sk' xs Let_def)
qed

lemma reads_as_object:
  assumes "kvs \<noteq> []" and "list_all2 (\<lambda>(k, v) x. reads_as v x n) kvs xs"
  shows "reads_as (json_object kvs) (JObj (map2 (\<lambda>(k, v) x. (valid_utf8 k, v, x)) kvs xs)) (Suc n)"
proof (rule reads_asI)
  fix f d t
  assume f: "2 * length (json_object kvs @ t) \<le> f" and d: "d + Suc n \<le> maxNestingDepth"
  obtain k v kvs' where kvs: "kvs = (k, v) # kvs'" using assms(1) by (cases kvs) auto
  obtain m where m: "members_text kvs @ CHR ''}'' # t = CHR 0x22 # m"
    by (cases kvs') (auto simp: kvs member_text_def json_string_def quote_def)
  have "jmembers f (Suc d) (CHR 0x22 # m) =
      Some (map2 (\<lambda>(k, v) x. (valid_utf8 k, v, x)) kvs xs, t)"
    using f d jmembers_members_text [OF assms, of t f "Suc d"] m by (simp add: json_object_def)
  then show "jval (Suc f) d (json_object kvs @ t) =
      Some (JObj (map2 (\<lambda>(k, v) x. (valid_utf8 k, v, x)) kvs xs), t)"
    using d m by (simp add: json_object_def jval.simps(2))
qed (simp_all add: json_object_def)

lemma json_value_reads_as:
  assumes "reads_as v x n" "n \<le> maxNestingDepth"
  shows "json_value v = Some (x, [])"
proof -
  have "skip_ws v = v" using assms by (cases v) (auto simp: reads_as_def)
  then show ?thesis
    using assms unfolding json_value_def reads_as_def Let_def
    by (metis add_0 append_Nil2 delimited_def lessI)
qed

text \<open>The line \<open>json.Encoder\<close> writes.\<close>

lemma json_decode_line:
  assumes "reads_as v x n" "n \<le> maxNestingDepth"
  shows "json_decode_stream (v @ [CHR 0x0A]) bad = Some x"
proof -
  have "skip_ws (v @ [CHR 0x0A]) = v @ [CHR 0x0A]" using assms by (cases v) (auto simp: reads_as_def)
  moreover have "delimited [CHR 0x0A]" by (simp add: delimited_def is_ws_def)
  ultimately have "json_value (v @ [CHR 0x0A]) = Some (x, [CHR 0x0A])"
    using assms unfolding json_value_def reads_as_def Let_def by (metis add_0 lessI)
  then show ?thesis by (simp add: json_decode_stream_def)
qed

lemma json_parse_decode: "json_parse s = Some v \<Longrightarrow> json_decode_stream s False = Some v"
  by (auto simp: json_parse_def json_decode_stream_def split: option.splits prod.splits if_splits)

lemma json_parse_reads_as:
  "reads_as v x n \<Longrightarrow> n \<le> maxNestingDepth \<Longrightarrow> json_parse v = Some x"
  by (simp add: json_parse_def json_value_reads_as skip_ws_def)

lemma reads_as_bool: "reads_as ''true'' (JBool True) n" "reads_as ''false'' (JBool False) n"
  by (rule reads_asI, simp_all add: jval.simps(2))+

text \<open>An object with ASCII names.\<close>

lemma json_value_object:
  assumes "kvs \<noteq> []" "list_all2 (\<lambda>(k, v) x. reads_as v x 0) kvs xs"
    and "\<forall>(k, v) \<in> set kvs. \<forall>c \<in> set k. byte c < 0x80"
  shows "json_value (json_object kvs) = Some (JObj (map2 (\<lambda>(k, v) x. (k, v, x)) kvs xs), [])"
proof -
  have "map2 (\<lambda>(k, v) x. (valid_utf8 k, v, x)) kvs xs = map2 (\<lambda>(k, v) x. (k, v, x)) kvs xs"
    using assms(3) by (auto intro!: map_cong valid_utf8_ascii dest: set_zip_leftD)
  with json_value_reads_as [OF reads_as_object [OF assms(1,2)]] show ?thesis
    by (simp add: maxNestingDepth_def)
qed

end
