(* ===== verification/Token.thy ===== *)
theory Token
  imports TokenCache GoUrl GoJson
begin

text \<open>
  \<open>internal/auth/token.go\<close>: extracting the Bearer token of a request, the context value
  \<open>TokenInfo\<close>, and token introspection against ORY Hydra.
\<close>

section \<open>The Bearer token\<close>

definition maxTokenLength :: nat where
  "maxTokenLength = 2048"

datatype token_error = MissingHeader | NotBearer | EmptyToken | TokenTooLong | InvalidCharacters

fun token_error_text :: "token_error \<Rightarrow> string" where
  "token_error_text MissingHeader = ''missing Authorization header''"
| "token_error_text NotBearer = ''authorization header must use Bearer scheme''"
| "token_error_text EmptyToken = ''empty Bearer token''"
| "token_error_text TokenTooLong =
     ''token exceeds maximum length of '' @ itoa (int maxTokenLength) @ '' characters''"
| "token_error_text InvalidCharacters = ''token contains invalid characters''"

definition extractBearerToken :: "request \<Rightarrow> token_error + string" where
  "extractBearerToken r =
    (let authHeader = hget (req_header r) ''Authorization'' in
     if authHeader = [] then Inl MissingHeader
     else if \<not> hasPrefix authHeader ''Bearer '' then Inl NotBearer
     else let token = trimPrefix authHeader ''Bearer '' in
       if token = [] then Inl EmptyToken
       else if maxTokenLength < length token then Inl TokenTooLong
       else if \<exists>c \<in> set (runes token). c < 0x20 \<or> 0x7E < c then Inl InvalidCharacters
       else Inr token)"

text \<open>
  The check over runes is a check over bytes: every byte of an accepted token is a printable
  ASCII character, although the code looks at decoded runes only.
\<close>

definition printable :: "char \<Rightarrow> bool" where
  "printable c \<longleftrightarrow> 0x20 \<le> byte c \<and> byte c \<le> 0x7E"

lemma runes_printable:
  "(\<exists>c \<in> set (runes s). c < 0x20 \<or> 0x7E < c) \<longleftrightarrow> \<not> list_all printable s"
proof (cases "\<forall>c \<in> set s. byte c < 0x80")
  case True
  then have "runes s = map byte s" by (rule runes_of_ascii)
  then show ?thesis by (auto simp: list_all_iff printable_def not_le)
next
  case False
  then have "\<not> (\<forall>n \<in> set (runes s). n < 0x80)" using runes_ascii_iff [of s] by blast
  then obtain n where "n \<in> set (runes s)" "0x80 \<le> n" by (auto simp: not_less)
  moreover have "\<not> list_all printable s"
    using False by (fastforce simp: list_all_iff printable_def not_less)
  ultimately show ?thesis by (intro iffI) (auto intro!: bexI [of _ n])
qed

lemma extractBearerToken_Inr_iff:
  "extractBearerToken r = Inr token \<longleftrightarrow>
   hget (req_header r) ''Authorization'' = ''Bearer '' @ token \<and> token \<noteq> [] \<and>
   length token \<le> maxTokenLength \<and> list_all printable token"
proof -
  have p: "hasPrefix a ''Bearer '' \<Longrightarrow> a = ''Bearer '' @ trimPrefix a ''Bearer ''" for a
    by (metis hasPrefix_iff trimPrefix_append)
  show ?thesis
    unfolding extractBearerToken_def runes_printable Let_def
    using p [of "hget (req_header r) ''Authorization''"] by auto
qed

section \<open>Introspection\<close>

text \<open>\<open>json.NewDecoder(resp.Body).Decode(&result)\<close> into an \<open>IntrospectionResult\<close>.\<close>

definition ir_zero :: introspection where
  "ir_zero = \<lparr>ir_ClientID = [], ir_Scope = [], ir_ExpiresAt = 0, ir_Active = False\<rparr>"

definition ir_fields :: "string list" where
  "ir_fields = [''client_id'', ''scope'', ''exp'', ''active'']"

definition ir_store :: "string \<Rightarrow> string \<Rightarrow> json \<Rightarrow> introspection \<Rightarrow> introspection option" where
  "ir_store f raw v r =
    (if f = ''client_id'' then map_option (\<lambda>s. r\<lparr>ir_ClientID := s\<rparr>) (set_string v (ir_ClientID r))
     else if f = ''scope'' then map_option (\<lambda>s. r\<lparr>ir_Scope := s\<rparr>) (set_string v (ir_Scope r))
     else if f = ''exp'' then map_option (\<lambda>n. r\<lparr>ir_ExpiresAt := n\<rparr>) (set_int64 v (ir_ExpiresAt r))
     else map_option (\<lambda>b. r\<lparr>ir_Active := b\<rparr>) (set_bool v (ir_Active r)))"

record hydra_introspector =
  hi_adminURL :: string

datatype introspect_error =
    IntrospectNewRequest
  | IntrospectRequestFailed
  | IntrospectStatus nat
  | IntrospectDecode

datatype new_introspector_error = HydraURLRequired | HydraURLInvalid

definition NewHydraIntrospector :: "string \<Rightarrow> new_introspector_error + hydra_introspector" where
  "NewHydraIntrospector adminURL =
    (if adminURL = [] then Inl HydraURLRequired
     else if parseRequestURI adminURL = None then Inl HydraURLInvalid
     else Inr \<lparr>hi_adminURL = trimRight adminURL (CHR ''/'')\<rparr>)"

text \<open>The request \<open>Introspect\<close> sends.\<close>

definition introspect_request :: "hydra_introspector \<Rightarrow> string \<Rightarrow> out_request option" where
  "introspect_request h token =
    map_option (\<lambda>q. q\<lparr>out_header := hset ''Content-Type'' ''application/x-www-form-urlencoded'' (out_header q)\<rparr>)
      (newRequest ''POST'' (hi_adminURL h @ ''/admin/oauth2/introspect'')
        (Body (form_encode ''token'' token) None))"

text \<open>What \<open>Introspect\<close> makes of the answer.\<close>

definition introspect_answer :: "http_result \<Rightarrow> introspect_error + introspection" where
  "introspect_answer res = (case res of
     DoErr \<Rightarrow> Inl IntrospectRequestFailed
   | DoResp status hdr data bad \<Rightarrow>
       if status \<noteq> StatusOK then Inl (IntrospectStatus status)
       else (case json_decode_stream data bad of
         None \<Rightarrow> Inl IntrospectDecode
       | Some v \<Rightarrow> (case decode_struct ir_store ir_fields ir_zero v of
           None \<Rightarrow> Inl IntrospectDecode
         | Some result \<Rightarrow> Inr result)))"

text \<open>\<open>parseScopes\<close> of \<open>internal/auth/middleware.go\<close>.\<close>

definition parseScopes :: "string \<Rightarrow> string list" where
  "parseScopes scope = (if scope = [] then [] else Fields scope)"

lemma introspect_answer_Inr:
  "introspect_answer res = Inr result \<Longrightarrow> \<exists>hdr data bad. res = DoResp StatusOK hdr data bad"
  by (auto simp: introspect_answer_def split: http_result.splits if_splits)

lemma validMethod_POST: "validMethod ''POST''"
  by (simp add: validMethod_def canonical_defs)

lemma canonical_ContentType [simp]: "canonicalKey ''Content-Type'' = ''Content-Type''"
  by (rule canonicalKeyI) (simp_all add: canonical_defs)

lemma canonical_Authorization [simp]: "canonicalKey ''Authorization'' = ''Authorization''"
  by (rule canonicalKeyI) (simp_all add: canonical_defs)

lemma introspect_request_eq:
  "introspect_request h token = Some \<lparr>out_method = ''POST'',
     out_url = hi_adminURL h @ ''/admin/oauth2/introspect'',
     out_header = [(''Content-Type'', [''application/x-www-form-urlencoded''])],
     out_body = Body (form_encode ''token'' token) None\<rparr>"
  by (simp add: introspect_request_def newRequest_def validMethod_POST hset_def)

text \<open>The request names the token: two tokens never give the same request.\<close>

lemma introspect_request_inj:
  "introspect_request h token = introspect_request h token' \<longleftrightarrow> token = token'"
  by (auto simp: introspect_request_eq form_encode_def dest: queryEscape_inj)

lemma NewHydraIntrospector_no_slash:
  "NewHydraIntrospector u = Inr h \<Longrightarrow> hi_adminURL h = [] \<or> last (hi_adminURL h) \<noteq> CHR ''/''"
  using trimRight_last [of u "CHR ''/''"] by (auto simp: NewHydraIntrospector_def split: if_splits)

lemma decode_members_active:
  "decode_members ir_store ir_fields ms acc = Some result \<Longrightarrow> ir_Active result \<Longrightarrow> \<not> ir_Active acc \<Longrightarrow>
   \<exists>k raw. (k, raw, JBool True) \<in> set ms \<and> field_name ir_fields k = Some ''active''"
proof (induction ms arbitrary: acc)
  case Nil
  then show ?case by simp
next
  case (Cons m ms)
  obtain k raw v where m: "m = (k, raw, v)" by (cases m) auto
  show ?case
  proof (cases "field_name ir_fields k")
    case None
    with Cons.prems m have "decode_members ir_store ir_fields ms acc = Some result" by simp
    from Cons.IH [OF this Cons.prems(2,3)] show ?thesis using m by auto
  next
    case (Some f)
    with Cons.prems m obtain acc' where acc': "ir_store f raw v acc = Some acc'"
      "decode_members ir_store ir_fields ms acc' = Some result" by (auto split: option.splits)
    show ?thesis
    proof (cases "ir_Active acc'")
      case False
      with Cons.IH [OF acc'(2) Cons.prems(2)] show ?thesis using m by auto
    next
      case True
      have "f \<in> set ir_fields"
        using Some by (auto simp: field_name_def find_Some_iff split: if_splits)
      then have "f = ''active'' \<and> v = JBool True"
        using acc'(1) True Cons.prems(3)
        by (auto simp: ir_store_def ir_fields_def set_bool_def split: if_splits json.splits)
      with Some m show ?thesis by auto
    qed
  qed
qed

section \<open>Properties\<close>

text \<open>
  A bearer token is accepted exactly if the \<open>Authorization\<close> header is \<open>Bearer\<close>, a space and 1 to
  2048 printable ASCII characters.
\<close>

lemma bearer_token_iff:
  "extractBearerToken r = Inr token \<longleftrightarrow>
   hget (req_header r) ''Authorization'' = ''Bearer '' @ token \<and> token \<noteq> [] \<and>
   length token \<le> 2048 \<and> list_all (\<lambda>c. 0x20 \<le> byte c \<and> byte c \<le> 0x7E) token"
  by (simp add: extractBearerToken_Inr_iff maxTokenLength_def list_all_iff printable_def)

text \<open>
  C26: introspection fails closed: Hydra's answer makes a token active only if it is a 200 whose body
  starts with a JSON object with a member \<open>active\<close> (up to case) that is \<open>true\<close>; no connection, another
  status, no JSON or another type is an error, and a missing member means inactive.
\<close>

theorem active_needs_explicit_answer:
  assumes "introspect_answer res = Inr result" "ir_Active result"
  shows "\<exists>hdr data bad ms k raw. res = DoResp StatusOK hdr data bad \<and>
    json_decode_stream data bad = Some (JObj ms) \<and> (k, raw, JBool True) \<in> set ms \<and>
    field_name ir_fields k = Some ''active''"
proof -
  obtain hdr data bad v where res: "res = DoResp StatusOK hdr data bad" "json_decode_stream data bad = Some v"
    "decode_struct ir_store ir_fields ir_zero v = Some result"
    using assms(1) by (auto simp: introspect_answer_def split: http_result.splits if_splits option.splits)
  then obtain ms where "v = JObj ms" "decode_members ir_store ir_fields ms ir_zero = Some result"
    using assms(2) by (auto simp: decode_struct_def ir_zero_def split: json.splits)
  moreover have "\<not> ir_Active ir_zero" by (simp add: ir_zero_def)
  ultimately obtain k raw where "(k, raw, JBool True) \<in> set ms" "field_name ir_fields k = Some ''active''"
    using decode_members_active [OF _ assms(2)] by blast
  then show ?thesis using res \<open>v = JObj ms\<close> by blast
qed

lemma active_document:
  "introspect_answer (DoResp StatusOK [] (json_object [(''active'', ''true'')]) False) =
    Inr (ir_zero\<lparr>ir_Active := True\<rparr>)"
proof -
  have "json_value (json_object [(''active'', ''true'')]) = Some (JObj [(''active'', ''true'', JBool True)], [])"
    using json_value_object [of "[(''active'', ''true'')]" "[JBool True]"] reads_as_bool by simp
  then show ?thesis
    by (simp add: introspect_answer_def json_decode_stream_def decode_struct_def ir_fields_def
        field_name_def ir_store_def set_bool_def)
qed

theorem active_needs_explicit_answer_witness:
  "\<exists>hdr data bad ms. DoResp StatusOK [] (json_object [(''active'', ''true'')]) False = DoResp StatusOK hdr data bad \<and>
     json_decode_stream data bad = Some (JObj ms)"
  using active_needs_explicit_answer [OF active_document] by (auto simp: ir_zero_def)

text \<open>
  The introspection request names the token and nothing else can be taken for it: it is a POST to
  the admin URL with the form-encoded token as its body, and different tokens give different bodies.
\<close>

lemma introspection_names_token:
  "(\<exists>q. introspect_request h token = Some q \<and> out_method q = ''POST'' \<and>
      out_url q = hi_adminURL h @ ''/admin/oauth2/introspect'' \<and>
      out_body q = Body (form_encode ''token'' token) None) \<and>
   (introspect_request h token = introspect_request h token' \<longleftrightarrow> token = token')"
  using introspect_request_inj [of h token token'] by (simp add: introspect_request_eq)

end
