(* ===== verification/AuditStore.thy ===== *)
theory AuditStore
  imports Prelude
begin

text \<open>
  \<open>internal/audit/store.go\<close>: the ring buffer of audit entries.  The locale \<open>audit_log\<close> states
  what the rest of the program may rely on (a log that keeps the newest \<open>cap\<close> entries and is read
  newest first, a page at a time); the ring buffer is shown to provide it.
\<close>

section \<open>The interface\<close>

text \<open>The page size \<open>List\<close> uses for a requested limit.\<close>

definition page_limit :: "int \<Rightarrow> nat" where
  "page_limit limit = nat (let l = (if limit \<le> 0 then 20 else limit) in if 100 < l then 100 else l)"

lemma page_limit_bounds: "1 \<le> page_limit limit" "page_limit limit \<le> 100"
  by (auto simp: page_limit_def Let_def)

locale audit_log =
  fixes new :: "'s"
    and app :: "'e \<Rightarrow> 's \<Rightarrow> 's"
    and lst :: "'s \<Rightarrow> int \<Rightarrow> int \<Rightarrow> 'e option list \<times> int"
    and cap :: nat
    and inv :: "'s \<Rightarrow> bool"
    and log :: "'s \<Rightarrow> 'e list"
  assumes inv_new: "inv new"
    and log_new: "log new = []"
    and inv_app: "inv s \<Longrightarrow> inv (app e s)"
    and log_app: "inv s \<Longrightarrow> log (app e s) = take cap (e # log s)"
    and log_cap: "inv s \<Longrightarrow> length (log s) \<le> cap"
    and lst_page: "inv s \<Longrightarrow> 0 \<le> offset \<Longrightarrow> lst s offset limit =
      (map Some (take (page_limit limit) (drop (nat offset) (log s))), int (length (log s)))"
begin

lemma inv_run: "inv s \<Longrightarrow> inv (fold app es s)"
  by (induction es arbitrary: s) (auto simp: inv_app)

lemma log_run: "inv s \<Longrightarrow> log (fold app es s) = take cap (rev es @ log s)"
proof (induction es arbitrary: s)
  case Nil
  then show ?case using log_cap by simp
next
  case (Cons e es)
  have "take cap (rev es @ take cap (e # log s)) = take cap (rev es @ e # log s)"
    by (simp add: take_Cons' min_def)
  with Cons show ?case by (simp add: inv_app log_app)
qed

lemma log_fresh: "log (fold app es new) = take cap (rev es)"
  using log_run [OF inv_new] by (simp add: log_new)

text \<open>Consecutive pages join to one longer page.\<close>

lemma pages_join:
  assumes "inv s" "0 \<le> offset" "0 < limit" "limit \<le> 100"
  shows "fst (lst s offset limit) @ map Some (drop (nat (offset + limit)) (log s)) =
    map Some (drop (nat offset) (log s))"
proof -
  have "page_limit limit = nat limit" using assms by (simp add: page_limit_def)
  moreover have "drop (nat (offset + limit)) (log s) = drop (nat limit) (drop (nat offset) (log s))"
    using assms by (simp add: nat_add_distrib add.commute)
  ultimately show ?thesis
    using assms by (simp only: lst_page fst_conv append_take_drop_id flip: map_append)
qed

end

section \<open>The ring buffer\<close>

definition maxStoreSize :: nat where
  "maxStoreSize = 10000"

record 'e store =
  entries :: "'e option list"
  head :: nat
  count :: nat

definition NewStore :: "'e store" where
  "NewStore = \<lparr>entries = replicate maxStoreSize None, head = 0, count = 0\<rparr>"

definition Append :: "'e \<Rightarrow> 'e store \<Rightarrow> 'e store" where
  "Append e s =
    s\<lparr>entries := (entries s)[head s := Some e],
      head := (head s + 1) mod maxStoreSize,
      count := (if count s < maxStoreSize then count s + 1 else count s)\<rparr>"

text \<open>The physical slot of logical index \<open>idx\<close> (0 is the newest entry).\<close>

definition physIdx :: "'e store \<Rightarrow> int \<Rightarrow> nat" where
  "physIdx s idx = nat ((int (head s) - 1 - idx + int maxStoreSize) mod int maxStoreSize)"

text \<open>The loop of \<open>List\<close> from logical index \<open>idx\<close>, at most \<open>k\<close> more entries.\<close>

fun list_from :: "'e store \<Rightarrow> int \<Rightarrow> nat \<Rightarrow> 'e option list" where
  "list_from s idx 0 = []"
| "list_from s idx (Suc k) =
    (if int (count s) \<le> idx then []
     else entries s ! physIdx s idx # list_from s (idx + 1) k)"

definition List :: "'e store \<Rightarrow> int \<Rightarrow> int \<Rightarrow> 'e option list \<times> int" where
  "List s offset limit =
    (let total = int (count s) in
     if total \<le> offset then ([], total)
     else let limit1 = (if limit \<le> 0 then 20 else limit);
              limit2 = (if 100 < limit1 then 100 else limit1)
          in (list_from s offset (nat limit2), total))"

definition Count :: "'e store \<Rightarrow> int" where
  "Count s = int (count s)"

section \<open>Refinement\<close>

definition store_inv :: "'e store \<Rightarrow> bool" where
  "store_inv s \<longleftrightarrow> length (entries s) = maxStoreSize \<and> head s < maxStoreSize \<and>
     count s \<le> maxStoreSize \<and> (\<forall>j < count s. entries s ! physIdx s (int j) \<noteq> None)"

text \<open>The abstraction: the stored entries, newest first.\<close>

definition store_log :: "'e store \<Rightarrow> 'e list" where
  "store_log s = map (\<lambda>j. the (entries s ! physIdx s (int j))) [0..<count s]"

lemma maxStoreSize_pos [simp]: "0 < maxStoreSize"
  by (simp add: maxStoreSize_def)

lemma physIdx_bound: "physIdx s idx < maxStoreSize"
  by (simp add: physIdx_def maxStoreSize_def nat_less_iff)

lemma head_Append:
  assumes "head s < maxStoreSize"
  obtains "head (Append e s) = head s + 1"
  | "head (Append e s) = 0" "int maxStoreSize = int (head s) + 1"
proof (cases "head s + 1 = maxStoreSize")
  case True
  then have "int maxStoreSize = int (head s) + 1" by linarith
  moreover have "head (Append e s) = 0" using True by (simp add: Append_def)
  ultimately show ?thesis by (rule that(2) [rotated])
next
  case False
  with assms have "head (Append e s) = head s + 1" by (simp add: Append_def)
  then show ?thesis by (rule that(1))
qed

lemma physIdx_Append_0:
  assumes "head s < maxStoreSize"
  shows "physIdx (Append e s) 0 = head s"
  using assms by (rule head_Append [of s e]) (use assms in \<open>simp_all add: physIdx_def\<close>)

lemma physIdx_Append_Suc:
  assumes "head s < maxStoreSize"
  shows "physIdx (Append e s) (int (Suc j)) = physIdx s (int j)"
  using assms
proof (rule head_Append [of s e])
  assume "head (Append e s) = 0" and N: "int maxStoreSize = int (head s) + 1"
  moreover have "(int (head s) - 1 - int j + int maxStoreSize) mod int maxStoreSize
      = (int (head s) - 1 - int j) mod int maxStoreSize" by simp
  ultimately show ?thesis by (simp add: physIdx_def algebra_simps)
qed (simp add: physIdx_def algebra_simps)

lemma physIdx_head_iff:
  assumes "head s < maxStoreSize" "j < maxStoreSize"
  shows "physIdx s (int j) = head s \<longleftrightarrow> j = maxStoreSize - 1"
proof -
  let ?N = "int maxStoreSize"
  have "physIdx s (int j) = head s \<longleftrightarrow> (int (head s) - 1 - int j + ?N) mod ?N = int (head s)"
    by (simp add: physIdx_def nat_eq_iff)
  also have "\<dots> \<longleftrightarrow> j = maxStoreSize - 1"
  proof (cases "int (head s) - 1 - int j < 0")
    case True
    then have "(int (head s) - 1 - int j + ?N) mod ?N = int (head s) - 1 - int j + ?N"
      using assms by (intro mod_pos_pos_trivial) auto
    then show ?thesis using assms by auto
  next
    case False
    then have "(int (head s) - 1 - int j + ?N) mod ?N = int (head s) - 1 - int j"
      using assms by simp
    then show ?thesis using assms False by auto
  qed
  finally show ?thesis .
qed

lemma entry_Append:
  assumes "store_inv s"
  shows "entries (Append e s) ! physIdx (Append e s) 0 = Some e"
    and "Suc j < count (Append e s) \<Longrightarrow>
      entries (Append e s) ! physIdx (Append e s) (int (Suc j)) = entries s ! physIdx s (int j)"
proof -
  show "entries (Append e s) ! physIdx (Append e s) 0 = Some e"
    using assms physIdx_Append_0 [of s e] by (simp add: store_inv_def Append_def)
  assume "Suc j < count (Append e s)"
  then have "j < maxStoreSize - 1" using assms
    by (auto simp: store_inv_def Append_def split: if_splits)
  then have "physIdx s (int j) \<noteq> head s"
    using physIdx_head_iff [of s j] assms by (auto simp: store_inv_def)
  moreover have "physIdx (Append e s) (int (Suc j)) = physIdx s (int j)"
    using assms by (intro physIdx_Append_Suc) (simp add: store_inv_def)
  ultimately show "entries (Append e s) ! physIdx (Append e s) (int (Suc j)) = entries s ! physIdx s (int j)"
    by (simp only:) (simp add: Append_def)
qed

lemma store_inv_Append: "store_inv s \<Longrightarrow> store_inv (Append e s)"
proof -
  assume inv: "store_inv s"
  have "entries (Append e s) ! physIdx (Append e s) (int j) \<noteq> None" if "j < count (Append e s)" for j
  proof (cases j)
    case 0
    then show ?thesis using entry_Append(1) [OF inv, of e] by simp
  next
    case (Suc i)
    with that have "i < count s" using inv by (auto simp: Append_def store_inv_def split: if_splits)
    with Suc that entry_Append(2) [OF inv, of i e] inv show ?thesis by (simp add: store_inv_def)
  qed
  with inv show ?thesis by (auto simp: store_inv_def Append_def)
qed

lemma store_log_Append:
  assumes "store_inv s"
  shows "store_log (Append e s) = take maxStoreSize (e # store_log s)"
proof (rule nth_equalityI)
  show "length (store_log (Append e s)) = length (take maxStoreSize (e # store_log s))"
    using assms by (auto simp: store_log_def Append_def store_inv_def)
  fix j assume "j < length (store_log (Append e s))"
  then have j: "j < count (Append e s)" by (simp add: store_log_def)
  then have jm: "j < maxStoreSize" using store_inv_Append [OF assms, of e] by (simp add: store_inv_def)
  show "store_log (Append e s) ! j = take maxStoreSize (e # store_log s) ! j"
  proof (cases j)
    case 0
    with j jm entry_Append(1) [OF assms, of e] show ?thesis by (simp add: store_log_def)
  next
    case (Suc i)
    with j have "i < count s" using assms by (auto simp: Append_def store_inv_def split: if_splits)
    with Suc j jm entry_Append(2) [OF assms, of i e] show ?thesis by (simp add: store_log_def)
  qed
qed

lemma list_from_log:
  "store_inv s \<Longrightarrow> list_from s (int i) k = map Some (take k (drop i (store_log s)))"
proof (induction k arbitrary: i)
  case 0
  then show ?case by simp
next
  case (Suc k)
  show ?case
  proof (cases "count s \<le> i")
    case True
    then show ?thesis by (simp add: store_log_def)
  next
    case False
    then have i: "i < length (store_log s)" by (simp add: store_log_def)
    have "list_from s (int i + 1) k = map Some (take k (drop (Suc i) (store_log s)))"
      using Suc.IH [OF Suc.prems, of "Suc i"] by (simp add: add.commute)
    moreover have "entries s ! physIdx s (int i) = Some (store_log s ! i)"
      using Suc.prems False by (auto simp: store_log_def store_inv_def)
    ultimately show ?thesis using False i by (simp add: Cons_nth_drop_Suc [symmetric])
  qed
qed

interpretation ring: audit_log NewStore Append List maxStoreSize store_inv store_log
proof
  show "store_inv NewStore" "store_log NewStore = []"
    by (simp_all add: store_inv_def store_log_def NewStore_def)
  fix s :: "'a store" and e :: 'a and offset limit :: int
  assume inv: "store_inv s"
  show "store_inv (Append e s)" by (rule store_inv_Append [OF inv])
  show "store_log (Append e s) = take maxStoreSize (e # store_log s)"
    by (rule store_log_Append [OF inv])
  show "length (store_log s) \<le> maxStoreSize"
    using inv by (simp add: store_inv_def store_log_def)
  assume "0 \<le> offset"
  then obtain i where i: "offset = int i" using nonneg_int_cases by blast
  have "store_log s = [] \<or> count s = length (store_log s)" by (simp add: store_log_def)
  then show "List s offset limit =
      (map Some (take (page_limit limit) (drop (nat offset) (store_log s))), int (length (store_log s)))"
    using list_from_log [OF inv, of i]
    by (auto simp: List_def page_limit_def Let_def i store_log_def)
qed

section \<open>Properties\<close>

text \<open>
  C22: the ring buffer implements a bounded log: after any sequence of \<open>Append\<close> it holds the newest
  10000 entries, newest first, its indices are within bounds, and \<open>Count\<close> is their number.
\<close>

theorem store_is_bounded_log:
  "store_log (fold Append es NewStore) = take maxStoreSize (rev es) \<and>
   Count (fold Append es NewStore) = int (min (length es) maxStoreSize) \<and>
   store_inv (fold Append es NewStore)"
proof -
  have l: "store_log (fold Append es NewStore) = take maxStoreSize (rev es)" by (rule ring.log_fresh)
  have "count (fold Append es NewStore) = length (store_log (fold Append es NewStore))"
    by (simp add: store_log_def)
  with l show ?thesis using ring.inv_run [OF ring.inv_new] by (simp add: Count_def min.commute)
qed

text \<open>
  \<open>List\<close> returns the entries from the offset on, newest first, as many as the limit allows (20 if
  the limit is not positive, never more than 100), and the number of all entries.
\<close>

lemma List_page:
  assumes "0 \<le> offset"
  shows "List (fold Append es NewStore) offset limit =
    (map Some (take (page_limit limit) (drop (nat offset) (take maxStoreSize (rev es)))),
     int (min (length es) maxStoreSize))"
  using ring.lst_page [OF ring.inv_run [OF ring.inv_new] assms, of es limit]
  by (simp add: ring.log_fresh min.commute)

end
