(* ===== verification/AuditEntry.thy ===== *)
theory AuditEntry
  imports AuditStore GoText "HOL-Library.Word"
begin

unbundle bit_operations_syntax

text \<open>
  \<open>internal/audit/entry.go\<close> and \<open>internal/audit/logger.go\<close>: audit entries, their identifiers,
  and the logger that writes each entry as one structured line and appends it to the store.
\<close>

section \<open>Time stamps\<close>

text \<open>
  \<open>time.RFC3339\<close> in UTC of a number of nanoseconds since the epoch.  The calendar date of a day
  number counts days from 1 March of year 0 in eras of 400 years.
\<close>

definition civil :: "int \<Rightarrow> int \<times> int \<times> int" where
  "civil days =
    (let z = days + 719468; era = z div 146097; doe = z mod 146097;
         yoe = (doe - doe div 1460 + doe div 36524 - doe div 146096) div 365;
         doy = doe - (365 * yoe + yoe div 4 - yoe div 100);
         mp = (5 * doy + 2) div 153;
         d = doy - (153 * mp + 2) div 5 + 1;
         m = (if mp < 10 then mp + 3 else mp - 9);
         y = yoe + era * 400 + (if m \<le> 2 then 1 else 0)
     in (y, m, d))"

definition pad_int :: "nat \<Rightarrow> int \<Rightarrow> string" where
  "pad_int w n = (let ds = itoa_nat (nat \<bar>n\<bar>) in
     (if n < 0 then ''-'' else []) @ replicate (w - length ds) (CHR ''0'') @ ds)"

definition rfc3339 :: "int \<Rightarrow> string" where
  "rfc3339 ns =
    (let secs = ns div 1000000000; days = secs div 86400; s = secs mod 86400; (y, m, d) = civil days
     in pad_int 4 y @ ''-'' @ pad_int 2 m @ ''-'' @ pad_int 2 d @ ''T'' @ pad_int 2 (s div 3600) @
        '':'' @ pad_int 2 (s div 60 mod 60) @ '':'' @ pad_int 2 (s mod 60) @ ''Z'')"

section \<open>Entries\<close>

datatype decision = DecisionAllow | DecisionDeny

fun decision_string :: "decision \<Rightarrow> string" where
  "decision_string DecisionAllow = ''ALLOW''"
| "decision_string DecisionDeny = ''DENY''"

record entry =
  e_Metadata :: "(string, string) gomap"
  e_ID :: string
  e_ClientID :: string
  e_ToolName :: string
  e_Decision :: decision
  e_Timestamp :: string
  e_RequestID :: string

text \<open>
  \<open>generateID\<close> gets 16 random bytes, or an error and the time in nanoseconds; it sets the
  version and variant bits and prints the five groups in hexadecimal.
\<close>

definition set_version :: "8 word list \<Rightarrow> 8 word list" where
  "set_version b = (let b1 = b[6 := ((b ! 6) AND 0x0F) OR 0x40]
                    in b1[8 := ((b1 ! 8) AND 0x3F) OR 0x80])"

definition hex_bytes :: "8 word list \<Rightarrow> string" where
  "hex_bytes b = hex_string (map unat b)"

definition slice :: "nat \<Rightarrow> nat \<Rightarrow> 'a list \<Rightarrow> 'a list" where
  "slice i j b = drop i (take j b)"

definition generateID :: "8 word list option \<Rightarrow> int \<Rightarrow> string" where
  "generateID random now = (case random of
     None \<Rightarrow> ''fallback-'' @ itoa now
   | Some b0 \<Rightarrow> (let b = set_version b0 in
       hex_bytes (slice 0 4 b) @ ''-'' @ hex_bytes (slice 4 6 b) @ ''-'' @ hex_bytes (slice 6 8 b) @
       ''-'' @ hex_bytes (slice 8 10 b) @ ''-'' @ hex_bytes (slice 10 16 b)))"

definition NewEntry :: "string \<Rightarrow> string \<Rightarrow> decision \<Rightarrow> string \<Rightarrow> (string, string) gomap \<Rightarrow>
    string \<Rightarrow> int \<Rightarrow> entry" where
  "NewEntry clientID toolName decision requestID metadata genID now =
    \<lparr>e_Metadata = metadata, e_ID = genID, e_ClientID = clientID, e_ToolName = toolName,
     e_Decision = decision, e_Timestamp = rfc3339 now, e_RequestID = requestID\<rparr>"

section \<open>Logger\<close>

text \<open>
  A logger writes to standard output or to a file it owns.  Opening a file is the operating
  system's (\<open>open_file\<close>: \<open>None\<close> is success).
\<close>

datatype destination = Stdout | LogFile string | GivenWriter

record logger =
  lg_dest :: destination
  lg_closer :: bool
  lg_closed :: bool

definition NewLogger :: "(string \<Rightarrow> string option) \<Rightarrow> string \<Rightarrow> string + logger" where
  "NewLogger open_file logPath =
    (if logPath = ''stdout'' \<or> logPath = [] then
       Inr \<lparr>lg_dest = Stdout, lg_closer = False, lg_closed = False\<rparr>
     else (case open_file logPath of
       Some err \<Rightarrow> Inl err
     | None \<Rightarrow> Inr \<lparr>lg_dest = LogFile logPath, lg_closer = True, lg_closed = False\<rparr>))"

definition NewLoggerWithWriter :: logger where
  "NewLoggerWithWriter = \<lparr>lg_dest = GivenWriter, lg_closer = False, lg_closed = False\<rparr>"

text \<open>\<open>Close\<close>: the flag tells whether it returned nil; closing a file twice is an error.\<close>

definition Close :: "logger \<Rightarrow> bool \<times> logger" where
  "Close l = (if lg_closer l then (\<not> lg_closed l, l\<lparr>lg_closed := True\<rparr>) else (True, l))"

text \<open>
  The attributes of one line of the log.  The code ranges over the metadata map in an order that is
  not specified; here it is the order of the list.
\<close>

definition log_attrs :: "entry \<Rightarrow> (string \<times> string) list" where
  "log_attrs e =
    [(''audit_id'', e_ID e), (''client_id'', e_ClientID e), (''tool_name'', e_ToolName e),
     (''decision'', decision_string (e_Decision e)), (''request_id'', e_RequestID e),
     (''timestamp'', e_Timestamp e)] @
    map (\<lambda>(k, v). (''meta.'' @ k, v)) (e_Metadata e)"

type_synonym audit_out = "(string \<times> string) list list"

definition Log :: "entry \<Rightarrow> audit_out \<times> entry store \<Rightarrow> audit_out \<times> entry store" where
  "Log e = (\<lambda>(out, st). (out @ [log_attrs e], Append e st))"

section \<open>Identifiers\<close>

lemma length_set_version [simp]: "length (set_version b) = length b"
  by (simp add: set_version_def Let_def)

lemma length_hex_bytes [simp]: "length (hex_bytes b) = 2 * length b"
  by (simp add: hex_bytes_def)

lemma length_slice: "j \<le> length b \<Longrightarrow> length (slice i j b) = j - i"
  by (simp add: slice_def)

lemma generateID_length: "length b = 16 \<Longrightarrow> length (generateID (Some b) now) = 36"
  by (simp add: generateID_def Let_def length_slice)

lemma hex_bytes_lower: "list_all is_hex_lower (hex_bytes b)"
  unfolding hex_bytes_def
proof (rule hex_string_lower, rule ballI)
  fix x assume "x \<in> set (map unat b)"
  then obtain w :: "8 word" where "x = unat w" by auto
  moreover have "unat w < 2 ^ LENGTH(8)" by (rule unsigned_less)
  ultimately show "x < 256" by simp
qed

lemma unat_drop_bit8: "unat (drop_bit n (w :: 8 word)) = unat w div 2 ^ n"
  by (simp only: unat_drop_bit_eq) (simp only: drop_bit_eq_div)

lemma version_nibble: "unat ((w AND 0x0F) OR 0x40 :: 8 word) div 16 = 4"
proof -
  have "drop_bit 4 ((w AND 0x0F) OR 0x40 :: 8 word) = 4"
    by (rule bit_word_eqI) (auto simp: bit_simps elim: less_SucE)
  then have "unat (drop_bit 4 ((w AND 0x0F) OR 0x40 :: 8 word)) = unat (4 :: 8 word)" by (rule arg_cong)
  then show ?thesis by (simp only: unat_drop_bit8) simp
qed

lemma variant_nibble: "unat ((w AND 0x3F) OR 0x80 :: 8 word) div 16 \<in> {8, 9, 10, 11}"
proof -
  have "drop_bit 6 ((w AND 0x3F) OR 0x80 :: 8 word) = 2"
    by (rule bit_word_eqI) (auto simp: bit_simps elim: less_SucE)
  then have "unat (drop_bit 6 ((w AND 0x3F) OR 0x80 :: 8 word)) = unat (2 :: 8 word)" by (rule arg_cong)
  then have "unat ((w AND 0x3F) OR 0x80 :: 8 word) div 2 ^ 6 = 2"
    by (simp only: unat_drop_bit8) simp
  then have "unat ((w AND 0x3F) OR 0x80 :: 8 word) div 64 = 2" by simp
  then have "128 \<le> unat ((w AND 0x3F) OR 0x80 :: 8 word) \<and> unat ((w AND 0x3F) OR 0x80 :: 8 word) < 192"
    by presburger
  then show ?thesis by auto
qed

text \<open>The form of a version 4 UUID.\<close>

definition is_uuid4 :: "string \<Rightarrow> bool" where
  "is_uuid4 s \<longleftrightarrow> (\<exists>a b c d e. s = a @ ''-'' @ b @ ''-'' @ c @ ''-'' @ d @ ''-'' @ e \<and>
     map length [a, b, c, d, e] = [8, 4, 4, 4, 12] \<and>
     list_all is_hex_lower (a @ b @ c @ d @ e) \<and>
     hd c = CHR ''4'' \<and> hd d \<in> set ''89ab'')"

lemma hd_hex_bytes: "b \<noteq> [] \<Longrightarrow> hd (hex_bytes b) = hex_digit (unat (hd b) div 16)"
  by (cases b) (auto simp: hex_bytes_def hex_byte_def)

lemma hex_digit_eval: "hex_digit 4 = CHR ''4''" "hex_digit 8 = CHR ''8''" "hex_digit 9 = CHR ''9''"
  "hex_digit 10 = CHR ''a''" "hex_digit 11 = CHR ''b''"
  by code_simp+

lemma hd_slice: "i < j \<Longrightarrow> j \<le> length b \<Longrightarrow> slice i j b \<noteq> [] \<and> hd (slice i j b) = b ! i"
  by (simp add: slice_def hd_drop_conv_nth)

lemma set_version_nth:
  assumes "length b = 16"
  shows "set_version b ! 6 = ((b ! 6) AND 0x0F) OR 0x40"
    and "set_version b ! 8 = ((b ! 8) AND 0x3F) OR 0x80"
  using assms by (simp_all add: set_version_def Let_def)

lemma generateID_uuid4:
  assumes "length b = 16"
  shows "is_uuid4 (generateID (Some b) now)"
proof -
  let ?b = "set_version b"
  have len: "length ?b = 16" using assms by simp
  have v: "hd (hex_bytes (slice 6 8 ?b)) = CHR ''4''"
    using hd_slice [of 6 8 ?b] len version_nibble [of "b ! 6"]
    by (simp add: hd_hex_bytes set_version_nth [OF assms] hex_digit_eval)
  have w: "hd (hex_bytes (slice 8 10 ?b)) \<in> set ''89ab''"
    using hd_slice [of 8 10 ?b] len variant_nibble [of "b ! 8"]
    by (auto simp add: hd_hex_bytes set_version_nth [OF assms] hex_digit_eval)
  show ?thesis
    unfolding is_uuid4_def generateID_def option.case Let_def
    using v w len hex_bytes_lower
    by (intro exI [of _ "hex_bytes (slice 0 4 ?b)"] exI [of _ "hex_bytes (slice 4 6 ?b)"]
        exI [of _ "hex_bytes (slice 6 8 ?b)"] exI [of _ "hex_bytes (slice 8 10 ?b)"]
        exI [of _ "hex_bytes (slice 10 16 ?b)"]) (simp add: length_slice)
qed

section \<open>Properties\<close>

text \<open>
  With 16 random bytes an identifier is a version 4 UUID: 36 characters, lower-case hexadecimal
  groups of 8, 4, 4, 4 and 12, with version 4 and the variant bits of RFC 4122.
\<close>

lemma entry_ids_are_uuid4:
  assumes "length b = 16"
  shows "is_uuid4 (generateID (Some b) now) \<and> length (generateID (Some b) now) = 36"
  using generateID_uuid4 [OF assms] generateID_length [OF assms] by simp

end
