(* ===== verification/World.thy ===== *)
theory World
  imports Token AuditEntry
begin

text \<open>
  The state the handlers share and what surrounds them.  A request handler is a function of the
  environment (clock, random source, the services the gateway calls), the request, the response
  writer and the world; it gives the writer and the world back.  Every clock reading, random draw
  and call to a service takes the next number (\<open>wd_tick\<close>), so that no two need to agree.
\<close>

datatype event =
    Ev_Hydra out_request http_result
  | Ev_OPA out_request http_result
  | Ev_Upstream out_request
  | Ev_SSE out_request

fun is_upstream :: "event \<Rightarrow> bool" where
  "is_upstream (Ev_Upstream q) = True"
| "is_upstream (Ev_SSE q) = True"
| "is_upstream _ = False"

record world =
  wd_tick :: nat
  wd_cache :: token_cache
  wd_store :: "entry store"
  wd_audit_out :: audit_out
  wd_events :: "event list"

record env =
  env_clock :: clock
  env_range :: range_order
  env_random :: "nat \<Rightarrow> 8 word list option"
  env_hydra :: "nat \<Rightarrow> out_request \<Rightarrow> http_result"
  env_opa :: "nat \<Rightarrow> out_request \<Rightarrow> http_result"
  env_upstream :: "nat \<Rightarrow> out_request \<Rightarrow> http_result"
  env_sse :: "nat \<Rightarrow> out_request \<Rightarrow> stream_result"
  env_json_text :: "string \<Rightarrow> string"

type_synonym served = "(writer \<times> world) go"
type_synonym handler = "env \<Rightarrow> request \<Rightarrow> writer \<Rightarrow> world \<Rightarrow> served"
type_synonym middleware = "handler \<Rightarrow> handler"

text \<open>Requests sent to the MCP server so far, on either client.\<close>

definition upstream_events :: "world \<Rightarrow> event list" where
  "upstream_events s = filter is_upstream (wd_events s)"

definition emit :: "event \<Rightarrow> world \<Rightarrow> world" where
  "emit ev s = s\<lparr>wd_tick := Suc (wd_tick s), wd_events := wd_events s @ [ev]\<rparr>"

definition readClock :: "env \<Rightarrow> world \<Rightarrow> int \<times> world" where
  "readClock env s = (env_clock env (wd_tick s), s\<lparr>wd_tick := Suc (wd_tick s)\<rparr>)"

text \<open>The cache operations on the world.\<close>

definition w_cacheGet :: "env \<Rightarrow> string \<Rightarrow> world \<Rightarrow> introspection option \<times> world" where
  "w_cacheGet env token s =
    (let (r, (t, c)) = cacheGet (env_clock env) token (wd_tick s, wd_cache s)
     in (r, s\<lparr>wd_tick := t, wd_cache := c\<rparr>))"

definition w_cacheSet :: "env \<Rightarrow> string \<Rightarrow> introspection \<Rightarrow> world \<Rightarrow> world" where
  "w_cacheSet env token result s =
    (let (t, c) = cacheSet (env_range env) (env_clock env) token result (wd_tick s, wd_cache s)
     in s\<lparr>wd_tick := t, wd_cache := c\<rparr>)"

section \<open>Frames\<close>

text \<open>
  \<open>calls_only s s'\<close>: a step that only calls services other than the MCP server.  \<open>unaudited s s'\<close>:
  a step that leaves the audit log alone.
\<close>

definition calls_only :: "world \<Rightarrow> world \<Rightarrow> bool" where
  "calls_only s s' \<longleftrightarrow> wd_cache s' = wd_cache s \<and> wd_store s' = wd_store s \<and>
     wd_audit_out s' = wd_audit_out s \<and>
     (\<exists>evs. wd_events s' = wd_events s @ evs \<and> filter is_upstream evs = [])"

definition unaudited :: "world \<Rightarrow> world \<Rightarrow> bool" where
  "unaudited s s' \<longleftrightarrow> wd_store s' = wd_store s \<and> wd_audit_out s' = wd_audit_out s"

lemma calls_only_refl [simp, intro]: "calls_only s s"
  by (simp add: calls_only_def)

lemma calls_only_upstream: "calls_only s s' \<Longrightarrow> upstream_events s' = upstream_events s"
  by (auto simp: calls_only_def upstream_events_def)

lemma calls_only_unaudited [frame]: "calls_only s s' \<Longrightarrow> unaudited s s'"
  by (simp add: calls_only_def unaudited_def)

lemma unaudited_refl [simp, intro]: "unaudited s s"
  by (simp add: unaudited_def)

lemma unaudited_trans [trans]: "unaudited s s' \<Longrightarrow> unaudited s' s'' \<Longrightarrow> unaudited s s''"
  by (simp add: unaudited_def)

lemma w_cacheGet_frame [frame]:
  "w_cacheGet env token s = (r, s') \<Longrightarrow> wd_events s' = wd_events s \<and> unaudited s s'"
  by (auto simp: w_cacheGet_def unaudited_def Let_def split: prod.splits)

lemma w_cacheSet_frame [frame]:
  "wd_events (w_cacheSet env token r s) = wd_events s" "unaudited s (w_cacheSet env token r s)"
  by (auto simp: w_cacheSet_def unaudited_def Let_def split: prod.splits)

section \<open>Where a cached result comes from\<close>

text \<open>
  \<open>introspected evs k r\<close>: among the calls so far, Hydra was asked about a token with cache key \<open>k\<close>
  and its answer was \<open>r\<close>.
\<close>

definition introspected :: "event list \<Rightarrow> string \<Rightarrow> introspection \<Rightarrow> bool" where
  "introspected evs k r \<longleftrightarrow> (\<exists>token q res. k = hashToken token \<and> Ev_Hydra q res \<in> set evs \<and>
     out_body q = Body (form_encode ''token'' token) None \<and> introspect_answer res = Inr r)"

lemma introspected_mono: "introspected evs k r \<Longrightarrow> set evs \<subseteq> set evs' \<Longrightarrow> introspected evs' k r"
  by (auto simp: introspected_def)

text \<open>The invariant of the shared state: every cached result is an answer Hydra gave.\<close>

definition provenance :: "world \<Rightarrow> bool" where
  "provenance s \<longleftrightarrow> (\<forall>(k, r) \<in> cache_contents (wd_cache s). introspected (wd_events s) k r)"

lemma provenance_justified:
  "provenance s = result_cache.justified cache_contents (introspected (wd_events s)) (wd_cache s)"
  by (simp add: provenance_def tokens.justified_def)

lemma provenance_events:
  "provenance s \<Longrightarrow> wd_cache s' = wd_cache s \<Longrightarrow> wd_events s' = wd_events s @ evs \<Longrightarrow> provenance s'"
  by (fastforce simp: provenance_def intro: introspected_mono)

lemma provenance_calls: "provenance s \<Longrightarrow> calls_only s s' \<Longrightarrow> provenance s'"
  by (auto simp: calls_only_def intro: provenance_events)

lemma provenance_get:
  assumes "provenance s" "w_cacheGet env token s = (r, s')"
  shows "provenance s'" and "r = Some x \<Longrightarrow> introspected (wd_events s') (hashToken token) x"
proof -
  obtain t c where g: "cacheGet (env_clock env) token (wd_tick s, wd_cache s) = (r, (t, c))"
    and s': "s' = s\<lparr>wd_tick := t, wd_cache := c\<rparr>"
    using assms(2) by (auto simp: w_cacheGet_def Let_def split: prod.splits)
  show "provenance s'"
    using tokens.justified_get [of "introspected (wd_events s)" "wd_cache s" "env_clock env" token "wd_tick s"]
      assms(1) g s' by (simp add: provenance_justified)
  assume "r = Some x"
  with tokens.justified_hit [of "introspected (wd_events s)" "wd_cache s" "env_clock env" token "wd_tick s" x]
    assms(1) g s' show "introspected (wd_events s') (hashToken token) x"
    by (simp add: provenance_justified)
qed

lemma provenance_put:
  assumes "provenance s" "introspected (wd_events s) (hashToken token) r"
  shows "provenance (w_cacheSet env token r s)"
proof -
  have "wd_events (w_cacheSet env token r s) = wd_events s" by (rule w_cacheSet_frame)
  moreover have "wd_cache (w_cacheSet env token r s) =
      snd (cacheSet (env_range env) (env_clock env) token r (wd_tick s, wd_cache s))"
    by (simp add: w_cacheSet_def Let_def split: prod.split)
  ultimately show ?thesis
    using tokens.justified_put [of "introspected (wd_events s)" "wd_cache s" token r] assms
    by (simp add: provenance_justified)
qed

end
