(* ===== verification/Jsonrpc.thy ===== *)
theory Jsonrpc
  imports GoJson
begin

text \<open>
  Package \<open>jsonrpc\<close> (\<open>internal/jsonrpc/jsonrpc.go\<close>): the JSON-RPC 2.0 request and response
  types, \<open>Parse\<close>, \<open>NewErrorResponse\<close> and \<open>Marshal\<close>.  A \<open>json.RawMessage\<close> is its text; the nil
  message is the empty text.
\<close>

definition CodeParseError :: int where "CodeParseError = -32700"
definition CodeInvalidRequest :: int where "CodeInvalidRequest = -32600"
definition CodeMethodNotFound :: int where "CodeMethodNotFound = -32601"
definition CodeInvalidParams :: int where "CodeInvalidParams = -32602"
definition CodeInternalError :: int where "CodeInternalError = -32603"

lemmas rpc_codes = CodeParseError_def CodeInvalidRequest_def CodeMethodNotFound_def
  CodeInvalidParams_def CodeInternalError_def

record rpc_request =
  Params :: string
  JSONRPC :: string
  Method :: string
  ID :: string

record rpc_error =
  Message :: string
  Data :: string
  Code :: int

record rpc_response =
  Error :: "rpc_error option"
  Result :: string
  RespJSONRPC :: string
  RespID :: string

section \<open>Parse\<close>

datatype parse_error = InvalidJSON | VersionMismatch | MethodRequired

definition rpc_zero :: rpc_request where
  "rpc_zero = \<lparr>Params = [], JSONRPC = [], Method = [], ID = []\<rparr>"

definition rpc_fields :: "string list" where
  "rpc_fields = [''params'', ''jsonrpc'', ''method'', ''id'']"

definition rpc_store :: "string \<Rightarrow> string \<Rightarrow> json \<Rightarrow> rpc_request \<Rightarrow> rpc_request option" where
  "rpc_store f raw v r =
    (if f = ''params'' then Some (r\<lparr>Params := raw\<rparr>)
     else if f = ''jsonrpc'' then map_option (\<lambda>s. r\<lparr>JSONRPC := s\<rparr>) (set_string v (JSONRPC r))
     else if f = ''method'' then map_option (\<lambda>s. r\<lparr>Method := s\<rparr>) (set_string v (Method r))
     else Some (r\<lparr>ID := raw\<rparr>))"

text \<open>\<open>json.Unmarshal(data, &req)\<close>.\<close>

definition unmarshal_request :: "string \<Rightarrow> rpc_request option" where
  "unmarshal_request data = (case json_parse data of
     None \<Rightarrow> None
   | Some v \<Rightarrow> decode_struct rpc_store rpc_fields rpc_zero v)"

definition Parse :: "string \<Rightarrow> parse_error + rpc_request" where
  "Parse data = (case unmarshal_request data of
     None \<Rightarrow> Inl InvalidJSON
   | Some req \<Rightarrow>
       if JSONRPC req \<noteq> ''2.0'' then Inl VersionMismatch
       else if Method req = [] then Inl MethodRequired
       else Inr req)"

text \<open>
  The text of an error.  \<open>json_text\<close> is the wording \<open>encoding/json\<close> gives its own errors on
  this input.
\<close>

definition parse_error_text :: "(string \<Rightarrow> string) \<Rightarrow> string \<Rightarrow> parse_error \<Rightarrow> string" where
  "parse_error_text json_text data e = (case e of
     InvalidJSON \<Rightarrow> ''invalid JSON: '' @ json_text data
   | VersionMismatch \<Rightarrow> ''jsonrpc field must be '' @ quote @ ''2.0'' @ quote
   | MethodRequired \<Rightarrow> ''method field is required'')"

section \<open>Responses\<close>

definition NewErrorResponse :: "string \<Rightarrow> int \<Rightarrow> string \<Rightarrow> rpc_response" where
  "NewErrorResponse i code message =
    \<lparr>Error = Some \<lparr>Message = message, Data = [], Code = code\<rparr>, Result = [],
     RespJSONRPC = ''2.0'', RespID = i\<rparr>"

text \<open>
  A raw message is written in compact form: white space outside string literals is dropped and
  \<open><\<close>, \<open>>\<close>, \<open>&\<close>, U+2028 and U+2029 are escaped.  The flag tells whether the text is inside a
  string literal.
\<close>

fun compact :: "bool \<Rightarrow> string \<Rightarrow> string" where
  "compact q [] = []"
| "compact q (c # r) =
    (if \<not> q \<and> is_ws c then compact q r
     else if q \<and> c = CHR 0x5C then (case r of [] \<Rightarrow> [c] | e # r' \<Rightarrow> c # e # compact q r')
     else if c = CHR ''<'' \<or> c = CHR ''>'' \<or> c = CHR ''&'' then u_escape (byte c) @ compact q r
     else if c = CHR 0xE2 \<and> (take 2 r = [CHR 0x80, CHR 0xA8] \<or> take 2 r = [CHR 0x80, CHR 0xA9])
       then u_escape (0x2028 + (byte (r ! 1) - 0xA8)) @ compact q (drop 2 r)
     else c # compact (if c = CHR 0x22 then \<not> q else q) r)"

definition marshal_raw :: "string \<Rightarrow> string option" where
  "marshal_raw raw =
    (if raw = [] then Some ''null''
     else if json_parse raw = None then None
     else Some (compact False raw))"

definition marshal_error :: "rpc_error \<Rightarrow> string option" where
  "marshal_error e =
    (if Data e = [] then
       Some (json_object [(''message'', json_string (Message e)), (''code'', itoa (Code e))])
     else map_option (\<lambda>d. json_object
         [(''message'', json_string (Message e)), (''data'', d), (''code'', itoa (Code e))])
       (marshal_raw (Data e)))"

definition omit_empty :: "string \<Rightarrow> string option \<Rightarrow> (string \<times> string) list option" where
  "omit_empty k v = map_option (\<lambda>t. [(k, t)]) v"

definition Marshal :: "rpc_response \<Rightarrow> string option" where
  "Marshal r =
    (case (case Error r of None \<Rightarrow> Some [] | Some e \<Rightarrow> omit_empty ''error'' (marshal_error e)) of
       None \<Rightarrow> None
     | Some es \<Rightarrow>
     (case (if Result r = [] then Some [] else omit_empty ''result'' (marshal_raw (Result r))) of
       None \<Rightarrow> None
     | Some rs \<Rightarrow>
         map_option (\<lambda>i. json_object (es @ rs @
             [(''jsonrpc'', json_string (RespJSONRPC r)), (''id'', i)]))
           (marshal_raw (RespID r))))"

section \<open>What Parse accepts\<close>

lemma Parse_Inr_iff:
  "Parse data = Inr req \<longleftrightarrow>
   unmarshal_request data = Some req \<and> JSONRPC req = ''2.0'' \<and> Method req \<noteq> []"
  by (auto simp: Parse_def split: option.splits if_splits)

lemma Parse_empty: "Parse [] = Inl InvalidJSON"
  by (simp add: Parse_def unmarshal_request_def json_parse_def json_value_def skip_ws_def
      jval.simps)

lemma Marshal_error_response:
  "Marshal (NewErrorResponse [] code msg) = Some (json_object
     [(''error'', json_object [(''message'', json_string msg), (''code'', itoa code)]),
      (''jsonrpc'', json_string ''2.0''), (''id'', ''null'')])"
  by (simp add: Marshal_def NewErrorResponse_def marshal_error_def marshal_raw_def omit_empty_def)

section \<open>Properties\<close>

text \<open>
  \<open>Parse\<close> accepts exactly the JSON objects whose members decode into a request with version
  \<open>2.0\<close> and a method; everything else is one of three errors, with the text of each.
\<close>

lemma Parse_accepts_iff:
  "Parse data = Inr req \<longleftrightarrow>
   (\<exists>ms. json_parse data = Some (JObj ms) \<and> decode_members rpc_store rpc_fields ms rpc_zero = Some req) \<and>
   JSONRPC req = ''2.0'' \<and> Method req \<noteq> []"
proof -
  have "unmarshal_request data = Some req \<and> JSONRPC req = ''2.0'' \<longleftrightarrow>
    (\<exists>ms. json_parse data = Some (JObj ms) \<and> decode_members rpc_store rpc_fields ms rpc_zero = Some req) \<and>
    JSONRPC req = ''2.0''"
    by (auto simp: unmarshal_request_def decode_struct_def rpc_zero_def split: option.splits json.splits)
  then show ?thesis by (auto simp: Parse_Inr_iff)
qed

text \<open>
  An error response reads back: the text \<open>Marshal\<close> writes is a JSON object with the members error
  (message and code), jsonrpc and id, in this order, with the message (invalid UTF-8 replaced), the
  code and a null id.
\<close>

lemma error_response_reads_back:
  "\<exists>text err. Marshal (NewErrorResponse [] code msg) = Some text \<and>
     json_parse text = Some (JObj
       [(''error'', err, JObj [(''message'', json_string msg, JStr (valid_utf8 msg)),
                               (''code'', itoa code, JNum (itoa code))]),
        (''jsonrpc'', json_string ''2.0'', JStr ''2.0''), (''id'', ''null'', JNull)])"
proof -
  let ?err = "json_object [(''message'', json_string msg), (''code'', itoa code)]"
  let ?errv = "JObj [(''message'', json_string msg, JStr (valid_utf8 msg)), (''code'', itoa code, JNum (itoa code))]"
  have ascii: "valid_utf8 ''message'' = ''message''" "valid_utf8 ''code'' = ''code''"
    "valid_utf8 ''error'' = ''error''" "valid_utf8 ''jsonrpc'' = ''jsonrpc''" "valid_utf8 ''id'' = ''id''"
    "valid_utf8 ''2.0'' = ''2.0''"
    by (rule valid_utf8_ascii, simp)+
  have e: "reads_as ?err ?errv 1"
    using reads_as_object [of "[(''message'', json_string msg), (''code'', itoa code)]" 0
        "[JStr (valid_utf8 msg), JNum (itoa code)]"] reads_as_string reads_as_itoa ascii by simp
  have "reads_as (json_object [(''error'', ?err), (''jsonrpc'', json_string ''2.0''), (''id'', ''null'')])
      (JObj [(''error'', ?err, ?errv), (''jsonrpc'', json_string ''2.0'', JStr ''2.0''), (''id'', ''null'', JNull)]) (Suc 1)"
    using reads_as_object [of "[(''error'', ?err), (''jsonrpc'', json_string ''2.0''), (''id'', ''null'')]" 1
        "[?errv, JStr ''2.0'', JNull]"] e reads_as_string [of "''2.0''" 1] reads_as_null ascii by simp
  then have "json_parse (json_object [(''error'', ?err), (''jsonrpc'', json_string ''2.0''), (''id'', ''null'')]) =
      Some (JObj [(''error'', ?err, ?errv), (''jsonrpc'', json_string ''2.0'', JStr ''2.0''), (''id'', ''null'', JNull)])"
    by (rule json_parse_reads_as) (simp add: maxNestingDepth_def)
  then show ?thesis unfolding Marshal_error_response by blast
qed

end
