(* ===== verification/Policy.thy ===== *)
theory Policy
  imports World Jsonrpc
begin

text \<open>
  \<open>internal/policy/policy.go\<close>: the OPA client.  \<open>Evaluate\<close> posts the input document and accepts
  nothing but a 200 answer with a boolean result.
\<close>

section \<open>Definitions\<close>

definition decisionPath :: string where
  "decisionPath = ''/v1/data/gateway/authz/allow''"

record policy_input =
  in_ClientID :: string
  in_Method :: string
  in_ToolName :: string
  in_Scopes :: "string list"

record opa_client =
  oc_decisionURL :: string

datatype new_client_error = OPAURLRequired | OPAURLInvalid

definition policy_NewClient :: "string \<Rightarrow> new_client_error + opa_client" where
  "policy_NewClient opaURL =
    (if opaURL = [] then Inl OPAURLRequired
     else if parseRequestURI opaURL = None then Inl OPAURLInvalid
     else Inr \<lparr>oc_decisionURL = trimRight opaURL (CHR ''/'') @ decisionPath\<rparr>)"

text \<open>\<open>json.Marshal\<close> of the payload; \<open>tool_name\<close> and \<open>scopes\<close> are omitted when empty.\<close>

definition json_array :: "string list \<Rightarrow> string" where
  "json_array ss = ''['' @ json_string_list ss @ '']''"

definition input_members :: "policy_input \<Rightarrow> (string \<times> string) list" where
  "input_members i =
    [(''client_id'', json_string (in_ClientID i)), (''method'', json_string (in_Method i))] @
    (if in_ToolName i = [] then [] else [(''tool_name'', json_string (in_ToolName i))]) @
    (if in_Scopes i = [] then [] else [(''scopes'', json_array (in_Scopes i))])"

definition marshal_payload :: "policy_input \<Rightarrow> string" where
  "marshal_payload i = json_object [(''input'', json_object (input_members i))]"

definition policy_request :: "opa_client \<Rightarrow> policy_input \<Rightarrow> out_request option" where
  "policy_request c i =
    map_option (\<lambda>q. q\<lparr>out_header := hset ''Content-Type'' ''application/json'' (out_header q)\<rparr>)
      (newRequest ''POST'' (oc_decisionURL c) (Body (marshal_payload i) None))"

datatype eval_error =
    EvalNewRequest
  | EvalRequestFailed
  | EvalStatus nat
  | EvalDecode
  | DecisionUndefined

text \<open>Decoding into \<open>struct { Result *bool }\<close>.\<close>

definition result_store :: "string \<Rightarrow> string \<Rightarrow> json \<Rightarrow> bool option \<Rightarrow> bool option option" where
  "result_store f raw v r = set_bool_ptr v"

definition decision_answer :: "http_result \<Rightarrow> eval_error + bool" where
  "decision_answer res = (case res of
     DoErr \<Rightarrow> Inl EvalRequestFailed
   | DoResp status hdr data bad \<Rightarrow>
       if status \<noteq> StatusOK then Inl (EvalStatus status)
       else (case json_decode_stream data bad of
         None \<Rightarrow> Inl EvalDecode
       | Some v \<Rightarrow> (case decode_struct result_store [''result''] None v of
           None \<Rightarrow> Inl EvalDecode
         | Some None \<Rightarrow> Inl DecisionUndefined
         | Some (Some b) \<Rightarrow> Inr b)))"

type_synonym evaluator = "env \<Rightarrow> policy_input \<Rightarrow> world \<Rightarrow> (eval_error + bool) \<times> world"

definition Evaluate :: "opa_client \<Rightarrow> evaluator" where
  "Evaluate c env i s = (case policy_request c i of
     None \<Rightarrow> (Inl EvalNewRequest, s)
   | Some q \<Rightarrow> (let res = env_opa env (wd_tick s) q
               in (decision_answer res, emit (Ev_OPA q res) s)))"

section \<open>The decision\<close>

lemma policy_request_eq:
  "policy_request c i = Some \<lparr>out_method = ''POST'', out_url = oc_decisionURL c,
     out_header = [(''Content-Type'', [''application/json''])],
     out_body = Body (marshal_payload i) None\<rparr>"
  by (simp add: policy_request_def newRequest_def validMethod_POST hset_def)

text \<open>
  The last member of an object whose name matches \<open>result\<close> decides; \<open>null\<close> takes an earlier
  value back.
\<close>

fun last_result :: "bool option \<Rightarrow> member list \<Rightarrow> bool option option" where
  "last_result acc [] = Some acc"
| "last_result acc ((k, raw, v) # ms) =
    (if field_name [''result''] k = None then last_result acc ms
     else (case v of
       JNull \<Rightarrow> last_result None ms
     | JBool b \<Rightarrow> last_result (Some b) ms
     | _ \<Rightarrow> None))"

lemma decode_result: "decode_members result_store [''result''] ms acc = last_result acc ms"
  by (induction acc ms rule: last_result.induct)
    (auto simp: result_store_def set_bool_ptr_def split: json.split option.split)

lemma decision_answer_Inr_iff:
  "decision_answer res = Inr b \<longleftrightarrow> (\<exists>hdr data bad ms. res = DoResp StatusOK hdr data bad \<and>
     json_decode_stream data bad = Some (JObj ms) \<and> last_result None ms = Some (Some b))"
  by (auto simp: decision_answer_def decode_struct_def decode_result
      split: http_result.splits if_splits option.splits json.splits)

section \<open>The input document\<close>

lemma jval_json_string:
  "2 * length (json_string s @ t) < f \<Longrightarrow> jval f d (json_string s @ t) = Some (JStr (valid_utf8 s), t)"
  by (cases f) (simp_all add: json_string_def quote_def jval.simps(2) jstring_json_escape)

lemma jelems_json_string_list:
  "ss \<noteq> [] \<Longrightarrow> 2 * length (json_string_list ss @ CHR '']'' # t) + 1 < f \<Longrightarrow>
   jelems f d (json_string_list ss @ CHR '']'' # t) = Some (map (\<lambda>s. JStr (valid_utf8 s)) ss, t)"
proof (induction ss arbitrary: f rule: json_string_list.induct)
  case 1
  then show ?case by simp
next
  case (2 s)
  then obtain g where f: "f = Suc g" by (cases f) auto
  then have "jval g d (json_string s @ CHR '']'' # t) = Some (JStr (valid_utf8 s), CHR '']'' # t)"
    using "2.prems"(2) by (intro jval_json_string) simp
  then show ?case by (simp add: f jelems.simps(2))
next
  case (3 s u ss)
  then obtain g where f: "f = Suc g" by (cases f) auto
  let ?r = "json_string_list (u # ss) @ CHR '']'' # t"
  have "jval g d (json_string s @ CHR '','' # ?r) = Some (JStr (valid_utf8 s), CHR '','' # ?r)"
    using "3.prems"(2) f by (intro jval_json_string) simp
  moreover have "jelems g d ?r = Some (map (\<lambda>s. JStr (valid_utf8 s)) (u # ss), t)"
    using "3.prems"(2) f by (intro "3.IH") simp_all
  moreover have "skip_ws ?r = ?r"
    by (cases ss) (simp_all add: json_string_def quote_def)
  ultimately show ?case by (simp add: f jelems.simps(2))
qed

lemma reads_as_string_array:
  assumes "ss \<noteq> []"
  shows "reads_as (json_array ss) (JArr (map (\<lambda>s. JStr (valid_utf8 s)) ss)) 1"
proof (rule reads_asI)
  show "json_array ss \<noteq> []" "\<not> is_ws (hd (json_array ss))" by (simp_all add: json_array_def)
  fix f d t
  assume f: "2 * length (json_array ss @ t) \<le> f" and d: "d + 1 \<le> maxNestingDepth"
  obtain m where m: "json_string_list ss @ CHR '']'' # t = CHR 0x22 # m"
    using assms by (cases ss rule: json_string_list.cases) (simp_all add: json_string_def quote_def)
  have "jelems f (Suc d) (CHR 0x22 # m) = Some (map (\<lambda>s. JStr (valid_utf8 s)) ss, t)"
    using jelems_json_string_list [OF assms, of t f "Suc d"] f m by (simp add: json_array_def)
  then show "jval (Suc f) d (json_array ss @ t) = Some (JArr (map (\<lambda>s. JStr (valid_utf8 s)) ss), t)"
    using d m by (simp add: json_array_def jval.simps(2))
qed

text \<open>The values of the input document, member by member.\<close>

definition input_values :: "policy_input \<Rightarrow> json list" where
  "input_values i =
    [JStr (valid_utf8 (in_ClientID i)), JStr (valid_utf8 (in_Method i))] @
    (if in_ToolName i = [] then [] else [JStr (valid_utf8 (in_ToolName i))]) @
    (if in_Scopes i = [] then [] else [JArr (map (\<lambda>s. JStr (valid_utf8 s)) (in_Scopes i))])"

definition input_document :: "policy_input \<Rightarrow> json" where
  "input_document i = JObj (map2 (\<lambda>(k, v) x. (k, v, x)) (input_members i) (input_values i))"

lemma valid_utf8_keys: "valid_utf8 ''client_id'' = ''client_id''" "valid_utf8 ''method'' = ''method''"
  "valid_utf8 ''tool_name'' = ''tool_name''" "valid_utf8 ''scopes'' = ''scopes''"
  "valid_utf8 ''input'' = ''input''"
  by (rule valid_utf8_ascii, simp)+

lemma reads_as_input: "reads_as (json_object (input_members i)) (input_document i) 2"
proof -
  have "list_all2 (\<lambda>(k, v) x. reads_as v x 1) (input_members i) (input_values i)"
    by (simp add: input_members_def input_values_def reads_as_string
        reads_as_string_array [simplified])
  moreover have "input_members i \<noteq> []" by (simp add: input_members_def)
  ultimately have "reads_as (json_object (input_members i))
      (JObj (map2 (\<lambda>(k, v) x. (valid_utf8 k, v, x)) (input_members i) (input_values i))) (Suc 1)"
    by (intro reads_as_object)
  moreover have "map2 (\<lambda>(k, v) x. (valid_utf8 k, v, x)) (input_members i) (input_values i) =
      map2 (\<lambda>(k, v) x. (k, v, x)) (input_members i) (input_values i)"
    by (simp add: input_members_def input_values_def valid_utf8_keys)
  ultimately show ?thesis by (simp add: input_document_def numeral_2_eq_2)
qed

lemma payload_reads_back:
  "json_parse (marshal_payload i) =
    Some (JObj [(''input'', json_object (input_members i), input_document i)])"
proof -
  have "reads_as (marshal_payload i)
      (JObj (map2 (\<lambda>(k, v) x. (valid_utf8 k, v, x))
        [(''input'', json_object (input_members i))] [input_document i])) (Suc 2)"
    unfolding marshal_payload_def by (intro reads_as_object) (simp_all add: reads_as_input)
  then show ?thesis
    by (intro json_parse_reads_as [where n = "Suc 2"]) (simp_all add: valid_utf8_keys maxNestingDepth_def)
qed

section \<open>Properties\<close>

text \<open>
  The policy decision fails closed: \<open>Evaluate\<close> answers with a decision exactly if OPA answers 200
  with a JSON object whose last member \<open>result\<close> (up to case) is a boolean; a connection error, another
  status, no JSON, another type and an undefined decision are errors.
\<close>

lemma opa_decision_iff:
  "fst (Evaluate c env i s) = Inr b \<longleftrightarrow>
   (\<exists>q hdr data bad ms. policy_request c i = Some q \<and>
      env_opa env (wd_tick s) q = DoResp StatusOK hdr data bad \<and>
      json_decode_stream data bad = Some (JObj ms) \<and> last_result None ms = Some (Some b))"
  by (auto simp: Evaluate_def policy_request_eq decision_answer_Inr_iff Let_def)

text \<open>
  The document OPA is asked about is what the gateway knows: the body of the request is valid JSON
  that reads back as the object \<open>input\<close> with client id, method, tool name and scopes (invalid UTF-8
  replaced), the last two left out when empty.
\<close>

lemma policy_input_reads_back:
  "\<exists>q. policy_request c i = Some q \<and> out_url q = oc_decisionURL c \<and>
     out_body q = Body (marshal_payload i) None \<and>
     json_parse (marshal_payload i) = Some (JObj [(''input'', json_object (input_members i), input_document i)])"
  by (simp add: policy_request_eq payload_reads_back)

end
