(* ===== verification/AuthMiddleware.thy ===== *)
theory AuthMiddleware
  imports World
begin

text \<open>
  \<open>internal/auth/middleware.go\<close> and the method \<open>Introspect\<close> of \<open>internal/auth/token.go\<close>: the
  middleware that lets a request through only with an active token.  What it needs of its
  introspector is the locale \<open>introspection\<close>; Hydra's client provides it.
\<close>

section \<open>Definitions\<close>

type_synonym introspector = "env \<Rightarrow> string \<Rightarrow> world \<Rightarrow> (introspect_error + introspection) \<times> world"

definition Introspect :: "hydra_introspector \<Rightarrow> introspector" where
  "Introspect h env token s = (case introspect_request h token of
     None \<Rightarrow> (Inl IntrospectNewRequest, s)
   | Some q \<Rightarrow> (let res = env_hydra env (wd_tick s) q
               in (introspect_answer res, emit (Ev_Hydra q res) s)))"

record auth_middleware =
  am_introspector :: introspector
  am_cache :: token_cache
  am_skipPaths :: "string list"

text \<open>
  \<open>am_cache\<close> is the cache the middleware starts with; what becomes of it is part of the world
  (\<open>wd_cache\<close>).
\<close>

type_synonym auth_option = "auth_middleware \<Rightarrow> auth_middleware"

definition auth_WithSkipPaths :: "string list \<Rightarrow> auth_option" where
  "auth_WithSkipPaths paths m = m\<lparr>am_skipPaths := am_skipPaths m @ paths\<rparr>"

definition WithCache :: "token_cache \<Rightarrow> auth_option" where
  "WithCache cache m = m\<lparr>am_cache := cache\<rparr>"

definition auth_NewMiddleware :: "introspector \<Rightarrow> auth_option list \<Rightarrow> auth_middleware" where
  "auth_NewMiddleware i opts = fold (\<lambda>opt m. opt m) opts
     \<lparr>am_introspector = i, am_cache = NewTokenCache [], am_skipPaths = []\<rparr>"

definition error_body :: "string \<Rightarrow> string \<Rightarrow> string" where
  "error_body err description =
    json_object [(''error'', json_string err), (''message'', json_string description)] @ newline"

definition writeUnauthorized :: "writer \<Rightarrow> string \<Rightarrow> writer" where
  "writeUnauthorized w description =
    write_all (error_body ''unauthorized'' description)
      (WriteHeader StatusUnauthorized
        (w_set_header (\<lambda>h. hset ''Content-Type'' ''application/json''
            (hset ''WWW-Authenticate''
              (''Bearer error='' @ quote @ ''invalid_token'' @ quote @
               '', error_description='' @ quote @ description @ quote) h)) w))"

definition token_info_of :: "introspection \<Rightarrow> token_info" where
  "token_info_of result = \<lparr>ti_ClientID = ir_ClientID result, ti_Scopes = parseScopes (ir_Scope result)\<rparr>"

text \<open>The request and writer handed on for an authenticated request.\<close>

definition with_token :: "introspection \<Rightarrow> request \<Rightarrow> request" where
  "with_token result r = WithTokenInfo (token_info_of result) r"

definition with_audit_id :: "introspection \<Rightarrow> writer \<Rightarrow> writer" where
  "with_audit_id result w = w_set_header (hset AuditClientIDHeader (ir_ClientID result)) w"

definition auth_Handler :: "auth_middleware \<Rightarrow> middleware" where
  "auth_Handler m next env r w s =
    (if req_path r \<in> set (am_skipPaths m) then next env r w s
     else (case extractBearerToken r of
       Inl err \<Rightarrow> Ret (writeUnauthorized w (token_error_text err), s)
     | Inr token \<Rightarrow>
         (case w_cacheGet env token s of
            (Some result, s1) \<Rightarrow>
              if ir_Active result
              then next env (with_token result r) (with_audit_id result w) s1
              else Ret (writeUnauthorized w ''token is not active'', s1)
          | (None, s1) \<Rightarrow>
              (case am_introspector m env token s1 of
                 (Inl err, s2) \<Rightarrow> Ret (writeUnauthorized w ''token verification failed'', s2)
               | (Inr result, s2) \<Rightarrow>
                   (let s3 = w_cacheSet env token result s2 in
                    if \<not> ir_Active result
                    then Ret (writeUnauthorized w ''token is not active'', s3)
                    else next env (with_token result r) (with_audit_id result w) s3)))))"

section \<open>What the middleware needs of an introspector\<close>

locale introspection =
  fixes introspect :: introspector
  assumes introspect_calls: "introspect env token s = (a, s') \<Longrightarrow> calls_only s s'"
    and introspect_evidence: "introspect env token s = (Inr result, s') \<Longrightarrow>
      introspected (wd_events s') (hashToken token) result"
begin

text \<open>
  The whole handler, as the three things that can happen: the path is skipped; the answer is 401
  and nothing was sent upstream; or the next handler gets the request with the identity of an
  active token that Hydra vouched for.
\<close>

lemma auth_Handler_cases:
  assumes "am_introspector m = introspect" "provenance s"
  obtains (skip) "req_path r \<in> set (am_skipPaths m)" "auth_Handler m next env r w s = next env r w s"
  | (deny) d s' where "req_path r \<notin> set (am_skipPaths m)"
      "auth_Handler m next env r w s = Ret (writeUnauthorized w d, s')"
      "upstream_events s' = upstream_events s" "unaudited s s'" "provenance s'"
      "set (wd_events s) \<subseteq> set (wd_events s')"
  | (pass) token result s' where "req_path r \<notin> set (am_skipPaths m)"
      "extractBearerToken r = Inr token" "ir_Active result"
      "auth_Handler m next env r w s = next env (with_token result r) (with_audit_id result w) s'"
      "introspected (wd_events s') (hashToken token) result"
      "upstream_events s' = upstream_events s" "unaudited s s'" "provenance s'"
      "set (wd_events s) \<subseteq> set (wd_events s')"
proof (cases "req_path r \<in> set (am_skipPaths m)")
  case True
  then show ?thesis using skip by (simp add: auth_Handler_def)
next
  case notskip: False
  show ?thesis
  proof (cases "extractBearerToken r")
    case (Inl err)
    then show ?thesis using deny notskip assms(2) by (simp add: auth_Handler_def)
  next
    case (Inr token)
    obtain hit s1 where g: "w_cacheGet env token s = (hit, s1)" by fastforce
    note f1 = w_cacheGet_frame [OF g] and p1 = provenance_get [OF assms(2) g]
    then have u1: "upstream_events s1 = upstream_events s" by (simp add: upstream_events_def)
    show ?thesis
    proof (cases hit)
      case (Some result)
      show ?thesis
      proof (cases "ir_Active result")
        case True
        with Some g Inr notskip f1 p1 u1 show ?thesis
          by (intro pass [of token result s1]) (auto simp: auth_Handler_def)
      next
        case False
        with Some g Inr notskip f1 p1 u1 show ?thesis
          by (intro deny [of "''token is not active''" s1]) (auto simp: auth_Handler_def)
      qed
    next
      case None
      obtain a s2 where i: "introspect env token s1 = (a, s2)" by fastforce
      note c2 = introspect_calls [OF i]
      have p2: "provenance s2" using p1(1) c2 by (rule provenance_calls)
      have u2: "upstream_events s2 = upstream_events s" using calls_only_upstream [OF c2] u1 by simp
      have n2: "unaudited s s2" using f1 calls_only_unaudited [OF c2] by (blast intro: unaudited_trans)
      have e2: "set (wd_events s) \<subseteq> set (wd_events s2)" using f1 c2 by (auto simp: calls_only_def)
      show ?thesis
      proof (cases a)
        case (Inl err)
        with None g i \<open>extractBearerToken r = Inr token\<close> notskip u2 n2 p2 e2 assms(1) show ?thesis
          by (intro deny [of "''token verification failed''" s2]) (auto simp: auth_Handler_def)
      next
        case a: (Inr result)
        let ?s3 = "w_cacheSet env token result s2"
        have ev: "introspected (wd_events s2) (hashToken token) result"
          using introspect_evidence i a by blast
        have p3: "provenance ?s3" using p2 ev by (rule provenance_put)
        have f3: "wd_events ?s3 = wd_events s2" "unaudited s ?s3"
          using w_cacheSet_frame n2 by (auto intro: unaudited_trans)
        then have u3: "upstream_events ?s3 = upstream_events s" using u2 by (simp add: upstream_events_def)
        show ?thesis
        proof (cases "ir_Active result")
          case True
          with None g i a \<open>extractBearerToken r = Inr token\<close> notskip u3 f3 p3 e2 ev assms(1)
          show ?thesis
            by (intro pass [of token result ?s3]) (auto simp: auth_Handler_def Let_def)
        next
          case False
          with None g i a \<open>extractBearerToken r = Inr token\<close> notskip u3 f3 p3 e2 assms(1)
          show ?thesis
            by (intro deny [of "''token is not active''" ?s3]) (auto simp: auth_Handler_def Let_def)
        qed
      qed
    qed
  qed
qed

end

section \<open>Hydra's client is one\<close>

lemma emit_Hydra_calls: "calls_only s (emit (Ev_Hydra q res) s)"
  by (simp add: calls_only_def emit_def)

interpretation hydra: introspection "Introspect h" for h
proof
  fix env token s a s'
  assume "Introspect h env token s = (a, s')"
  then show "calls_only s s'"
    by (auto simp: Introspect_def introspect_request_eq Let_def emit_Hydra_calls)
next
  fix env token s result s'
  assume "Introspect h env token s = (Inr result, s')"
  then show "introspected (wd_events s') (hashToken token) result"
    by (fastforce simp: Introspect_def introspect_request_eq Let_def emit_def introspected_def)
qed

text \<open>Fail-close: whatever keeps Hydra from answering keeps the request from passing.\<close>

lemma auth_fail_close:
  assumes "req_path r \<notin> set (am_skipPaths m)" "extractBearerToken r = Inr token"
    and "w_cacheGet env token s = (None, s1)" "am_introspector m env token s1 = (Inl err, s2)"
  shows "auth_Handler m next env r w s = Ret (writeUnauthorized w ''token verification failed'', s2)"
  using assms by (simp add: auth_Handler_def)

end
