(* ===== verification/PolicyMiddleware.thy ===== *)
theory PolicyMiddleware
  imports Policy AuthMiddleware
begin

text \<open>
  \<open>internal/policy/middleware.go\<close>: the middleware that asks the policy engine before a JSON-RPC
  request goes on.  Reading the body replaces it in the request, so the helper functions return
  the request they leave behind; \<open>None\<close> is a nil dereference.
\<close>

section \<open>Definitions\<close>

definition toolCallMethod :: string where
  "toolCallMethod = ''tools/call''"

record policy_middleware =
  pm_evaluator :: evaluator
  pm_skipPaths :: "string list"

type_synonym policy_option = "policy_middleware \<Rightarrow> policy_middleware"

definition policy_WithSkipPaths :: "string list \<Rightarrow> policy_option" where
  "policy_WithSkipPaths paths m = m\<lparr>pm_skipPaths := pm_skipPaths m @ paths\<rparr>"

definition policy_NewMiddleware :: "evaluator \<Rightarrow> policy_option list \<Rightarrow> policy_middleware" where
  "policy_NewMiddleware ev opts = fold (\<lambda>opt m. opt m) opts \<lparr>pm_evaluator = ev, pm_skipPaths = []\<rparr>"

definition is_json :: "request \<Rightarrow> bool" where
  "is_json r \<longleftrightarrow> hasPrefix (hget (req_header r) ''Content-Type'') ''application/json''"

text \<open>\<open>readBody\<close>: the bytes (\<open>None\<close>: the read failed) and the request with its body restored.\<close>

definition readBody :: "request \<Rightarrow> (string option \<times> request) option" where
  "readBody r =
    (if req_body r = NilBody then Some (Some [], r)
     else (case readAll (maxBytesReader maxRequestSize (req_body r)) of
       None \<Rightarrow> None
     | Some (d, e) \<Rightarrow> Some (if e = None then Some d else None, r\<lparr>req_body := restored d\<rparr>)))"

definition name_store :: "string \<Rightarrow> string \<Rightarrow> json \<Rightarrow> string \<Rightarrow> string option" where
  "name_store f raw v name = set_string v name"

definition policy_extractToolName :: "rpc_request \<Rightarrow> string" where
  "policy_extractToolName req =
    (if Method req \<noteq> toolCallMethod \<or> Params req = [] then []
     else (case json_parse (Params req) of
       None \<Rightarrow> []
     | Some v \<Rightarrow> (case decode_struct name_store [''name''] [] v of None \<Rightarrow> [] | Some n \<Rightarrow> n)))"

text \<open>The identity in the context; without one the input has an empty client id.\<close>

definition identity_input :: "request \<Rightarrow> policy_input" where
  "identity_input r =
    \<lparr>in_ClientID = (case GetTokenInfo r of None \<Rightarrow> [] | Some i \<Rightarrow> ti_ClientID i),
     in_Method = [], in_ToolName = [],
     in_Scopes = (case GetTokenInfo r of None \<Rightarrow> [] | Some i \<Rightarrow> ti_Scopes i)\<rparr>"

definition request_input :: "request \<Rightarrow> rpc_request \<Rightarrow> policy_input" where
  "request_input r req =
    (identity_input r)\<lparr>in_Method := Method req, in_ToolName := policy_extractToolName req\<rparr>"

definition buildInput :: "request \<Rightarrow> ((policy_input option \<times> bool) \<times> request) option" where
  "buildInput r =
    (if \<not> is_json r then Some ((None, True), r)
     else (case readBody r of
       None \<Rightarrow> None
     | Some (None, r') \<Rightarrow> Some ((None, True), r')
     | Some (Some body, r') \<Rightarrow>
         if body = [] then Some ((Some (identity_input r), False), r')
         else (case Parse body of
           Inl err \<Rightarrow> Some ((None, True), r')
         | Inr req \<Rightarrow> Some ((Some (request_input r req), False), r'))))"

definition writeForbidden :: "writer \<Rightarrow> string \<Rightarrow> writer" where
  "writeForbidden w description =
    write_all (error_body ''forbidden'' description)
      (WriteHeader StatusForbidden (w_set_header (hset ''Content-Type'' ''application/json'') w))"

definition policy_Handler :: "policy_middleware \<Rightarrow> middleware" where
  "policy_Handler m next env r w s =
    (if req_path r \<in> set (pm_skipPaths m) then next env r w s
     else if req_method r \<noteq> ''POST'' then next env r w s
     else (case buildInput r of
       None \<Rightarrow> Panic (w, s)
     | Some ((None, proceed), r') \<Rightarrow> if proceed then next env r' w s else Ret (w, s)
     | Some ((Some i, _), r') \<Rightarrow>
         (case pm_evaluator m env i s of
            (Inl err, s') \<Rightarrow> Ret (writeForbidden w ''policy evaluation unavailable'', s')
          | (Inr allowed, s') \<Rightarrow>
              if \<not> allowed then Ret (writeForbidden w ''denied by policy'', s')
              else next env r' w s')))"

section \<open>What is evaluated\<close>

text \<open>
  The policy input the middleware takes from a request, if it evaluates it: a POST with JSON
  content whose body can be read and is empty or a JSON-RPC request.
\<close>

definition evaluated_input :: "request \<Rightarrow> policy_input option" where
  "evaluated_input r = (case buildInput r of Some ((i, _), _) \<Rightarrow> i | None \<Rightarrow> None)"

text \<open>The input a body gives, when it gives one.\<close>

definition input_of :: "request \<Rightarrow> string \<Rightarrow> policy_input option" where
  "input_of r b = (if b = [] then Some (identity_input r)
     else case Parse b of Inl err \<Rightarrow> None | Inr req \<Rightarrow> Some (request_input r req))"

lemma buildInput_readBody:
  "is_json r \<Longrightarrow> readBody r = Some (Some b, r') \<Longrightarrow>
   buildInput r = (case input_of r b of None \<Rightarrow> Some ((None, True), r') | Some i \<Rightarrow> Some ((Some i, False), r'))"
  by (simp add: buildInput_def input_of_def split: sum.split)

lemma buildInput_frame:
  "buildInput r = Some ((i, p), r') \<Longrightarrow> \<exists>b. r' = r\<lparr>req_body := b\<rparr>"
  by (auto simp: buildInput_def readBody_def split: if_splits option.splits sum.splits)
    (metis request.surjective request.update_convs(6))+

lemma buildInput_proceed: "buildInput r = Some ((None, p), r') \<Longrightarrow> p"
  by (auto simp: buildInput_def split: if_splits option.splits sum.splits)

text \<open>The body handed on is at most the limit and reads back as what was evaluated.\<close>

lemma readBody_body:
  assumes "readBody r = Some (Some d, r')" "req_body r \<noteq> NilBody"
  shows "req_body r' = restored d" "length d \<le> maxRequestSize" "req_body r = Body d None"
  using assms maxBytesReader_length
  by (cases "req_body r"; auto simp: readBody_def split: option.splits if_splits)+

section \<open>What the middleware needs of an evaluator\<close>

text \<open>
  \<open>opa_allowed evs i\<close>: among the calls so far, the policy engine was asked about the input \<open>i\<close>
  and answered that it is allowed.
\<close>

definition opa_allowed :: "event list \<Rightarrow> policy_input \<Rightarrow> bool" where
  "opa_allowed evs i \<longleftrightarrow> (\<exists>q res. Ev_OPA q res \<in> set evs \<and>
     out_body q = Body (marshal_payload i) None \<and> decision_answer res = Inr True)"

locale evaluation =
  fixes evaluate :: evaluator
  assumes evaluate_calls: "evaluate env i s = (a, s') \<Longrightarrow> calls_only s s'"
    and evaluate_evidence: "evaluate env i s = (Inr True, s') \<Longrightarrow> opa_allowed (wd_events s') i"
begin

text \<open>
  The whole handler: it passes the request on unevaluated (a skipped path, no POST, or nothing to
  evaluate), it panics on a nil body, it answers 403 without calling anything further, or it
  passes on a request whose input the policy engine allowed.
\<close>

lemma policy_Handler_cases:
  assumes "pm_evaluator m = evaluate"
  obtains (skip) "req_path r \<in> set (pm_skipPaths m)" "policy_Handler m next env r w s = next env r w s"
  | (not_post) "req_method r \<noteq> ''POST''" "policy_Handler m next env r w s = next env r w s"
  | (panic) "buildInput r = None" "policy_Handler m next env r w s = Panic (w, s)"
  | (unevaluated) b where "req_method r = ''POST''" "evaluated_input r = None"
      "buildInput r = Some ((None, True), r\<lparr>req_body := b\<rparr>)"
      "policy_Handler m next env r w s = next env (r\<lparr>req_body := b\<rparr>) w s"
  | (deny) d s' where "policy_Handler m next env r w s = Ret (writeForbidden w d, s')" "calls_only s s'"
  | (pass) i b p s' where "req_method r = ''POST''" "evaluated_input r = Some i"
      "buildInput r = Some ((Some i, p), r\<lparr>req_body := b\<rparr>)"
      "policy_Handler m next env r w s = next env (r\<lparr>req_body := b\<rparr>) w s'"
      "opa_allowed (wd_events s') i" "calls_only s s'"
proof (cases "req_path r \<in> set (pm_skipPaths m) \<or> req_method r \<noteq> ''POST''")
  case True
  then show ?thesis using skip not_post by (auto simp: policy_Handler_def)
next
  case notskip: False
  show ?thesis
  proof (cases "buildInput r")
    case None
    with notskip panic show ?thesis by (simp add: policy_Handler_def)
  next
    case (Some x)
    obtain i p r' where x: "x = ((i, p), r')" by (cases x) auto
    with Some obtain b where b: "r' = r\<lparr>req_body := b\<rparr>" using buildInput_frame by blast
    show ?thesis
    proof (cases i)
      case None
      with Some x have "p" using buildInput_proceed by blast
      with None Some x b notskip unevaluated show ?thesis
        by (simp add: policy_Handler_def evaluated_input_def)
    next
      case i: (Some inp)
      obtain a s' where e: "evaluate env inp s = (a, s')" by fastforce
      note c = evaluate_calls [OF e]
      show ?thesis
      proof (cases "a = Inr True")
        case True
        with e evaluate_evidence have "opa_allowed (wd_events s') inp" by blast
        with True Some x b i notskip pass c e assms show ?thesis
          by (simp add: policy_Handler_def evaluated_input_def)
      next
        case False
        then consider err where "a = Inl err" | "a = Inr False" by (cases a) auto
        then show ?thesis
          using Some x b i notskip deny c e assms by cases (auto simp: policy_Handler_def)
      qed
    qed
  qed
qed

end

lemma emit_OPA_calls: "calls_only s (emit (Ev_OPA q res) s)"
  by (simp add: calls_only_def emit_def)

interpretation opa: evaluation "Evaluate c" for c
proof
  fix env i s a s'
  assume "Evaluate c env i s = (a, s')"
  then show "calls_only s s'"
    by (auto simp: Evaluate_def policy_request_eq Let_def emit_OPA_calls)
next
  fix env i s s'
  assume "Evaluate c env i s = (Inr True, s')"
  then show "opa_allowed (wd_events s') i"
    by (fastforce simp: Evaluate_def policy_request_eq Let_def emit_def opa_allowed_def)
qed

section \<open>Properties\<close>

text \<open>
  C16: the policy middleware fails closed: when it evaluates a request and OPA's answer is anything but
  an explicit allow, the answer is 403 and the next handler is never called, whatever it is.
\<close>

theorem policy_denies_unless_allowed:
  assumes "req_method r = ''POST''" "req_path r \<notin> set paths"
    and "buildInput r = Some ((Some i, p), r')" "fst (Evaluate c env i s) \<noteq> Inr True"
  shows "\<exists>d s'. policy_Handler (policy_NewMiddleware (Evaluate c) [policy_WithSkipPaths paths]) next env r w s =
      Ret (writeForbidden w d, s') \<and> upstream_events s' = upstream_events s"
proof -
  let ?m = "policy_NewMiddleware (Evaluate c) [policy_WithSkipPaths paths]"
  have m: "pm_skipPaths ?m = paths" "pm_evaluator ?m = Evaluate c"
    by (simp_all add: policy_NewMiddleware_def policy_WithSkipPaths_def)
  obtain a s' where e: "Evaluate c env i s = (a, s')" by fastforce
  then have "upstream_events s' = upstream_events s" using opa.evaluate_calls calls_only_upstream by blast
  moreover have "a \<noteq> Inr True" using e assms(4) by simp
  ultimately show ?thesis
    using assms(1-3) e m by (cases a) (auto simp: policy_Handler_def)
qed

definition demo_unreachable :: env where
  "demo_unreachable = \<lparr>env_clock = (\<lambda>_. 0), env_range = (\<lambda>m. m), env_random = (\<lambda>_. None),
     env_hydra = (\<lambda>_ _. DoErr), env_opa = (\<lambda>_ _. DoErr), env_upstream = (\<lambda>_ _. DoErr),
     env_sse = (\<lambda>_ _. StreamErr), env_json_text = (\<lambda>_. [])\<rparr>"

definition demo_json_post :: request where
  "demo_json_post = \<lparr>req_method = ''POST'', req_path = ''/'', req_escaped = ''/'', req_query = [],
     req_header = [(''Content-Type'', [''application/json''])], req_body = Body [] None,
     req_remote = [], req_tokenInfo = None, req_requestID = None\<rparr>"

theorem policy_denies_unless_allowed_witness:
  "\<forall>w s. \<exists>d s'. policy_Handler (policy_NewMiddleware (Evaluate \<lparr>oc_decisionURL = ''http://opa''\<rparr>) [policy_WithSkipPaths []])
      (\<lambda>env r w s. Ret (w, s)) demo_unreachable demo_json_post w s = Ret (writeForbidden w d, s')"
proof (intro allI)
  fix w s
  let ?i = "identity_input demo_json_post"
  have "is_json demo_json_post"
    by (simp add: is_json_def demo_json_post_def hget_def hvalues_def)
  then have b: "buildInput demo_json_post = Some ((Some ?i, False), demo_json_post)"
    by (simp add: buildInput_def readBody_def demo_json_post_def restored_def)
  have "fst (Evaluate \<lparr>oc_decisionURL = ''http://opa''\<rparr> demo_unreachable ?i s) \<noteq> Inr True"
    by (simp add: Evaluate_def policy_request_eq demo_unreachable_def decision_answer_def)
  from policy_denies_unless_allowed [OF _ _ b this, of "[]"]
  show "\<exists>d s'. policy_Handler (policy_NewMiddleware (Evaluate \<lparr>oc_decisionURL = ''http://opa''\<rparr>)
      [policy_WithSkipPaths []]) (\<lambda>env r w s. Ret (w, s)) demo_unreachable demo_json_post w s =
      Ret (writeForbidden w d, s')"
    by (fastforce simp: demo_json_post_def)
qed

end
