(* ===== verification/AuditMiddleware.thy ===== *)
theory AuditMiddleware
  imports PolicyMiddleware
begin

text \<open>
  \<open>internal/audit/requestid.go\<close> and \<open>internal/audit/middleware.go\<close>: the request id and the
  middleware that logs one entry per request.  The wrapper \<open>statusRecorder\<close> is the second
  constructor of the type of response writers in theory \<open>Http\<close>.
\<close>

section \<open>Request ids\<close>

definition RequestIDHeader :: string where
  "RequestIDHeader = ''X-Request-Id''"

definition maxHeaderValueLen :: nat where
  "maxHeaderValueLen = 256"

definition WithRequestID :: "string \<Rightarrow> request \<Rightarrow> request" where
  "WithRequestID i r = r\<lparr>req_requestID := Some i\<rparr>"

definition GetRequestID :: "request \<Rightarrow> string" where
  "GetRequestID r = (case req_requestID r of None \<Rightarrow> [] | Some i \<Rightarrow> i)"

text \<open>\<open>generateID\<close> draws from the random source; the clock is read only when that fails.\<close>

definition w_generateID :: "env \<Rightarrow> world \<Rightarrow> string \<times> world" where
  "w_generateID env s =
    (let random = env_random env (wd_tick s); s1 = s\<lparr>wd_tick := Suc (wd_tick s)\<rparr> in
     case random of
       Some b \<Rightarrow> (generateID (Some b) 0, s1)
     | None \<Rightarrow> (let (now, s2) = readClock env s1 in (generateID None now, s2)))"

definition RequestIDMiddleware :: middleware where
  "RequestIDMiddleware next env r w s =
    (let given = hget (req_header r) RequestIDHeader;
         (requestID, s1) =
           (if given = [] then w_generateID env s
            else if maxHeaderValueLen < length given then (take maxHeaderValueLen given, s)
            else (given, s))
     in next env (WithRequestID requestID r) (w_set_header (hset RequestIDHeader requestID) w) s1)"

section \<open>Audit entries of requests\<close>

definition unknownValue :: string where
  "unknownValue = ''unknown''"

record audit_middleware =
  aum_skipPaths :: "string list"

type_synonym audit_option = "audit_middleware \<Rightarrow> audit_middleware"

definition audit_WithSkipPaths :: "string list \<Rightarrow> audit_option" where
  "audit_WithSkipPaths paths m = m\<lparr>aum_skipPaths := aum_skipPaths m @ paths\<rparr>"

definition audit_NewMiddleware :: "audit_option list \<Rightarrow> audit_middleware" where
  "audit_NewMiddleware opts = fold (\<lambda>opt m. opt m) opts \<lparr>aum_skipPaths = []\<rparr>"

definition truncate_str :: "string \<Rightarrow> nat \<Rightarrow> string" where
  "truncate_str s maxLen = (if length s \<le> maxLen then s else take maxLen s)"

text \<open>
  \<open>extractToolName\<close> reads the body to the end and puts back what it read; \<open>None\<close> is a nil
  dereference.
\<close>

definition audit_extractToolName :: "request \<Rightarrow> (string \<times> request) option" where
  "audit_extractToolName r =
    (if req_body r = NilBody then Some (unknownValue, r)
     else if \<not> is_json r then Some (unknownValue, r)
     else (case readAll (req_body r) of
       None \<Rightarrow> None
     | Some (body, readErr) \<Rightarrow>
         (let r' = r\<lparr>req_body := restored body\<rparr> in
          if readErr \<noteq> None then Some (unknownValue, r')
          else (case Parse body of
            Inl err \<Rightarrow> Some (unknownValue, r')
          | Inr req \<Rightarrow> Some (truncate_str (Method req) maxHeaderValueLen, r')))))"

text \<open>The decision is read off the status the recorder saw; none counts as 200.\<close>

definition effectiveStatus :: "nat \<Rightarrow> nat" where
  "effectiveStatus status = (if status = 0 then StatusOK else status)"

definition decision_of :: "nat \<Rightarrow> decision" where
  "decision_of status = (if effectiveStatus status = StatusUnauthorized \<or>
     effectiveStatus status = StatusForbidden then DecisionDeny else DecisionAllow)"

definition client_of :: "string \<Rightarrow> request \<Rightarrow> string" where
  "client_of captured r = (if captured \<noteq> [] then captured
     else (case GetTokenInfo r of Some i \<Rightarrow> ti_ClientID i | None \<Rightarrow> unknownValue))"

definition metadata_of :: "request \<Rightarrow> nat \<Rightarrow> (string, string) gomap" where
  "metadata_of r status = [(''http_method'', req_method r), (''path'', req_path r),
     (''remote_addr'', req_remote r), (''status_code'', StatusText (effectiveStatus status))]"

text \<open>
  After the next handler returned: \<open>NewEntry\<close> draws an id and reads the clock, and the logger
  writes the entry.
\<close>

definition audit_log_request :: "env \<Rightarrow> request \<Rightarrow> string \<Rightarrow> string \<Rightarrow> nat \<Rightarrow> world \<Rightarrow> world" where
  "audit_log_request env r toolName captured status s =
    (let (genID, s1) = w_generateID env s;
         (now, s2) = readClock env s1;
         entry = NewEntry (client_of captured r) toolName (decision_of status) (GetRequestID r)
                   (metadata_of r status) genID now;
         (out, st) = Log entry (wd_audit_out s2, wd_store s2)
     in s2\<lparr>wd_audit_out := out, wd_store := st\<rparr>)"

text \<open>The tool name and the request handed on.\<close>

definition audit_prepare :: "request \<Rightarrow> (string \<times> request) option" where
  "audit_prepare r =
    (if req_method r = ''POST''
     then audit_extractToolName (r\<lparr>req_body := maxBytesReader maxRequestSize (req_body r)\<rparr>)
     else Some (truncate_str (req_method r @ '' '' @ req_path r) maxHeaderValueLen, r))"

definition audit_Handler :: "audit_middleware \<Rightarrow> middleware" where
  "audit_Handler m next env r w s =
    (if req_path r \<in> set (aum_skipPaths m) then next env r w s
     else (case audit_prepare r of
       None \<Rightarrow> Panic (w, s)
     | Some (toolName, r') \<Rightarrow>
         (case next env r' (StatusRecorder w [] 0) s of
            Ret (rec, s') \<Rightarrow> Ret (inner_writer rec,
              audit_log_request env r' toolName (captured_clientID rec) (captured_status rec) s')
          | Panic (rec, s') \<Rightarrow> Panic (inner_writer rec, s')
          | Hang (rec, s') \<Rightarrow> Hang (inner_writer rec, s'))))"

section \<open>Lemmas\<close>

lemma truncate_str_length: "length (truncate_str s n) \<le> n"
  by (simp add: truncate_str_def)

lemma unknownValue_length: "length unknownValue \<le> maxHeaderValueLen"
  by (simp add: unknownValue_def maxHeaderValueLen_def)

lemma w_generateID_frame [frame]:
  "w_generateID env s = (i, s') \<Longrightarrow>
   wd_cache s' = wd_cache s \<and> wd_store s' = wd_store s \<and> wd_audit_out s' = wd_audit_out s \<and>
   wd_events s' = wd_events s"
  by (auto simp: w_generateID_def readClock_def Let_def split: option.splits prod.splits)

lemma readClock_frame [frame]:
  "readClock env s = (i, s') \<Longrightarrow>
   wd_cache s' = wd_cache s \<and> wd_store s' = wd_store s \<and> wd_audit_out s' = wd_audit_out s \<and>
   wd_events s' = wd_events s"
  by (auto simp: readClock_def)

text \<open>Exactly one entry is appended, to the store and to the log.\<close>

lemma audit_log_request_entry:
  obtains e where "wd_store (audit_log_request env r tool captured status s) = Append e (wd_store s)"
    "wd_audit_out (audit_log_request env r tool captured status s) = wd_audit_out s @ [log_attrs e]"
    "e_ClientID e = client_of captured r" "e_ToolName e = tool" "e_Decision e = decision_of status"
    "e_RequestID e = GetRequestID r" "e_Metadata e = metadata_of r status"
proof -
  obtain i s1 where i: "w_generateID env s = (i, s1)" by fastforce
  obtain now s2 where n: "readClock env s1 = (now, s2)" by fastforce
  note w_generateID_frame [OF i] readClock_frame [OF n]
  then show ?thesis
    by (intro that [of "NewEntry (client_of captured r) tool (decision_of status) (GetRequestID r)
          (metadata_of r status) i now"])
      (simp_all add: audit_log_request_def i n Log_def NewEntry_def Let_def)
qed

lemma audit_log_request_frame [frame]:
  "wd_events (audit_log_request env r tool captured status s) = wd_events s"
  "wd_cache (audit_log_request env r tool captured status s) = wd_cache s"
proof -
  obtain i s1 where i: "w_generateID env s = (i, s1)" by fastforce
  obtain now s2 where n: "readClock env s1 = (now, s2)" by fastforce
  note w_generateID_frame [OF i] readClock_frame [OF n]
  then show "wd_events (audit_log_request env r tool captured status s) = wd_events s"
    "wd_cache (audit_log_request env r tool captured status s) = wd_cache s"
    by (simp_all add: audit_log_request_def i n Log_def Let_def)
qed

lemma audit_extractToolName_frame:
  "audit_extractToolName r = Some (tool, r') \<Longrightarrow> \<exists>b. r' = r\<lparr>req_body := b\<rparr>"
proof -
  have "r = r\<lparr>req_body := req_body r\<rparr>" by simp
  then show "audit_extractToolName r = Some (tool, r') \<Longrightarrow> \<exists>b. r' = r\<lparr>req_body := b\<rparr>"
    unfolding audit_extractToolName_def Let_def
    by (auto split: if_splits option.splits sum.splits intro: exI [of _ "req_body r"])
qed

lemma audit_prepare_frame:
  "audit_prepare r = Some (tool, r') \<Longrightarrow> \<exists>b. r' = r\<lparr>req_body := b\<rparr>"
proof -
  assume "audit_prepare r = Some (tool, r')"
  then show ?thesis
    by (auto simp: audit_prepare_def split: if_splits dest!: audit_extractToolName_frame
        intro: exI [of _ "req_body r"])
qed

lemma audit_prepare_tool_length:
  "audit_prepare r = Some (tool, r') \<Longrightarrow> length tool \<le> maxHeaderValueLen"
  using unknownValue_length truncate_str_length
  by (auto simp: audit_prepare_def audit_extractToolName_def Let_def
      split: if_splits option.splits sum.splits)

lemma RequestID_step:
  obtains i s1 where "RequestIDMiddleware next env r w s =
      next env (WithRequestID i r) (w_set_header (hset RequestIDHeader i) w) s1"
    "calls_only s s1"
    "hget (req_header r) RequestIDHeader \<noteq> [] \<Longrightarrow>
       i = take maxHeaderValueLen (hget (req_header r) RequestIDHeader)"
    "hget (req_header r) RequestIDHeader = [] \<Longrightarrow> \<exists>s0. w_generateID env s = (i, s0)"
    "wd_events s1 = wd_events s"
proof -
  obtain i s1 where g: "w_generateID env s = (i, s1)" by fastforce
  have c: "calls_only s s1" "wd_events s1 = wd_events s"
    using w_generateID_frame [OF g] by (simp_all add: calls_only_def)
  consider "hget (req_header r) RequestIDHeader = []"
    | "hget (req_header r) RequestIDHeader \<noteq> []" "maxHeaderValueLen < length (hget (req_header r) RequestIDHeader)"
    | "hget (req_header r) RequestIDHeader \<noteq> []" "\<not> maxHeaderValueLen < length (hget (req_header r) RequestIDHeader)"
    by blast
  then show ?thesis
    by cases (use g c that [of i s1] that [of "take maxHeaderValueLen (hget (req_header r) RequestIDHeader)" s]
        in \<open>auto simp: RequestIDMiddleware_def Let_def\<close>)
qed

section \<open>Properties\<close>

text \<open>
  C31: every request gets an id: the client's \<open>X-Request-Id\<close> cut to 256 bytes, or else a new version 4
  UUID (\<open>rand.Read\<close> fills the 16 bytes or fails); it is put into the context and the response header.
\<close>

theorem request_id_rule:
  assumes "\<And>t b. env_random env t = Some b \<Longrightarrow> length b = 16"
  shows "\<exists>i s'. RequestIDMiddleware next env r w s =
      next env (WithRequestID i r) (w_set_header (hset RequestIDHeader i) w) s' \<and>
    (if hget (req_header r) RequestIDHeader \<noteq> [] then i = take 256 (hget (req_header r) RequestIDHeader)
     else env_random env (wd_tick s) \<noteq> None \<longrightarrow> is_uuid4 i) \<and> unaudited s s'"
proof -
  obtain i s1 where run: "RequestIDMiddleware next env r w s =
      next env (WithRequestID i r) (w_set_header (hset RequestIDHeader i) w) s1"
    and c: "calls_only s s1"
    and given: "hget (req_header r) RequestIDHeader \<noteq> [] \<Longrightarrow>
       i = take maxHeaderValueLen (hget (req_header r) RequestIDHeader)"
    and gen: "hget (req_header r) RequestIDHeader = [] \<Longrightarrow> \<exists>s0. w_generateID env s = (i, s0)"
    and "wd_events s1 = wd_events s"
    by (rule RequestID_step [of "next" env r w s]) blast
  have "is_uuid4 i" if e: "hget (req_header r) RequestIDHeader = []"
    and b: "env_random env (wd_tick s) = Some b" for b
  proof -
    obtain s0 where "w_generateID env s = (i, s0)" using gen [OF e] by blast
    then have "i = generateID (Some b) 0" using b by (auto simp: w_generateID_def)
    with generateID_uuid4 [OF assms [OF b], of 0] show ?thesis by simp
  qed
  with run given calls_only_unaudited [OF c] show ?thesis
    by (auto simp: maxHeaderValueLen_def split: option.split)
qed

theorem request_id_rule_witness:
  "\<forall>c s. \<exists>i s'. RequestIDMiddleware (\<lambda>env r w s. Ret (w, s)) (demo_unreachable\<lparr>env_random := (\<lambda>_. Some (replicate 16 0))\<rparr>)
      demo_json_post (Base c) s = Ret (w_set_header (hset RequestIDHeader i) (Base c), s') \<and> is_uuid4 i"
proof (intro allI)
  fix c s
  let ?env = "demo_unreachable\<lparr>env_random := (\<lambda>_. Some (replicate 16 0))\<rparr>"
  have "length b = 16" if "env_random ?env t = Some b" for t b using that by auto
  moreover have "hget (req_header demo_json_post) RequestIDHeader = []"
    by (simp add: hget_def hvalues_def demo_json_post_def RequestIDHeader_def canonicalKey_def canonical_defs)
  ultimately show "\<exists>i s'. RequestIDMiddleware (\<lambda>env r w s. Ret (w, s)) ?env
      demo_json_post (Base c) s = Ret (w_set_header (hset RequestIDHeader i) (Base c), s') \<and> is_uuid4 i"
    using request_id_rule [of ?env "\<lambda>env r w s. Ret (w, s)" demo_json_post "Base c" s] by auto
qed

text \<open>
  C32: the audit middleware hides an oversized body: a JSON body over 1 MiB is cut to 1 MiB and put back
  as a complete body, so that no later size check sees the error, and the request is logged as
  \<open>unknown\<close>.
\<close>

theorem oversized_body_is_cut:
  assumes "req_method r = ''POST''" "is_json r" "req_body r = Body d e" "maxRequestSize < length d"
  shows "\<exists>r'. audit_prepare r = Some (unknownValue, r') \<and>
    readAll (maxBytesReader maxRequestSize (req_body r')) = Some (take maxRequestSize d, None)"
proof -
  let ?r = "r\<lparr>req_body := Body (take maxRequestSize d) (Some MaxBytesError)\<rparr>"
  have "is_json ?r" using assms(2) by (simp add: is_json_def)
  then show ?thesis
    using assms by (simp add: audit_prepare_def audit_extractToolName_def restored_def)
qed

theorem oversized_body_is_cut_witness:
  "\<exists>r'. audit_prepare (demo_json_post\<lparr>req_body := Body (replicate (Suc maxRequestSize) (CHR '' '')) None\<rparr>) =
      Some (unknownValue, r')"
proof -
  let ?r = "demo_json_post\<lparr>req_body := Body (replicate (Suc maxRequestSize) (CHR '' '')) None\<rparr>"
  have "req_method ?r = ''POST''" "is_json ?r"
    by (simp_all add: demo_json_post_def is_json_def hget_def hvalues_def)
  from oversized_body_is_cut [OF this, of "replicate (Suc maxRequestSize) (CHR '' '')" None] show ?thesis
    by auto
qed

end
