(* ===== verification/Proxy.thy ===== *)
theory Proxy
  imports AuditMiddleware
begin

text \<open>
  \<open>internal/proxy/proxy.go\<close>: the reverse proxy.  A request that reaches it is answered by the
  proxy itself, forwarded to the MCP server, or relayed as a stream of server-sent events.  The
  two HTTP clients are \<open>env_upstream\<close> and \<open>env_sse\<close>.
\<close>

section \<open>The server\<close>

text \<open>The time-outs of a client and of the HTTP server, in nanoseconds; 0 is none.\<close>

record http_client =
  hc_Timeout :: int

record http_server =
  hs_Addr :: string
  hs_ReadHeaderTimeout :: int
  hs_ReadTimeout :: int
  hs_WriteTimeout :: int
  hs_IdleTimeout :: int

record server =
  upstreamURL :: url
  sv_httpServer :: http_server
  sv_httpClient :: http_client
  sv_sseHTTPClient :: http_client
  sv_middlewares :: "middleware list"

type_synonym proxy_option = "server \<Rightarrow> server"

definition WithHTTPClient :: "http_client \<Rightarrow> proxy_option" where
  "WithHTTPClient client s = s\<lparr>sv_httpClient := client\<rparr>"

definition WithMiddleware :: "middleware \<Rightarrow> proxy_option" where
  "WithMiddleware mw s = s\<lparr>sv_middlewares := sv_middlewares s @ [mw]\<rparr>"

definition nonSSEWriteTimeout :: int where
  "nonSSEWriteTimeout = 30 * second"

definition isSSERequest :: "request \<Rightarrow> bool" where
  "isSSERequest r \<longleftrightarrow> containsSub (hget (req_header r) ''Accept'') ''text/event-stream''"

definition excludedHeaders :: "string list" where
  "excludedHeaders = [''Connection'', ''Keep-Alive'', ''Proxy-Authenticate'', ''Proxy-Authorization'',
     ''Te'', ''Trailer'', ''Transfer-Encoding'', ''Upgrade'', ''Authorization'', ''X-Audit-Client-Id'']"

text \<open>\<open>copyHeaders(dst, src)\<close>, ranging over \<open>src\<close> in the order of the list.\<close>

definition copyHeaders :: "header \<Rightarrow> header \<Rightarrow> header" where
  "copyHeaders dst src =
    fold (\<lambda>(key, vs) d. if key \<in> set excludedHeaders then d else fold (hadd key) vs d) src dst"

section \<open>Answers of the proxy itself\<close>

definition writeJSONRPCError :: "writer \<Rightarrow> int \<Rightarrow> string \<Rightarrow> writer" where
  "writeJSONRPCError w code message =
    (case Marshal (NewErrorResponse [] code message) of
       None \<Rightarrow> http_Error ''internal error'' StatusInternalServerError w
     | Some data \<Rightarrow> write_all data (WriteHeader StatusOK
         (w_set_header (hset ''Content-Type'' ''application/json'') w)))"

definition handleHealth :: handler where
  "handleHealth env r w s =
    Ret (write_all (''{'' @ quote @ ''status'' @ quote @ '':'' @ quote @ ''ok'' @ quote @ ''}'')
      (WriteHeader StatusOK (w_set_header (hset ''Content-Type'' ''application/json'') w)), s)"

section \<open>Forwarding\<close>

text \<open>\<open>io.Copy\<close> to a response: full buffers of 32 KiB until a write fails.\<close>

function ioCopy :: "string \<Rightarrow> writer \<Rightarrow> writer" where
  "ioCopy data w =
    (if data = [] then w
     else let (ok, w') = Write (take 32768 data) w in
       if ok then ioCopy (drop 32768 data) w' else w')"
  by pat_completeness auto
termination
  by (relation "measure (\<lambda>(data, w). length data)") auto

declare ioCopy.simps [simp del]

text \<open>
  The URL of a forwarded request: the first lines of \<open>forwardRequest\<close>, which \<open>handleSSE\<close> repeats.
\<close>

definition target_url :: "server \<Rightarrow> request \<Rightarrow> string" where
  "target_url srv r = url_String ((joinPath (upstreamURL srv) (req_path r))\<lparr>u_rawQuery := req_query r\<rparr>)"

text \<open>The request sent upstream with body \<open>b\<close>.\<close>

definition proxy_request :: "server \<Rightarrow> request \<Rightarrow> body \<Rightarrow> out_request option" where
  "proxy_request srv r b =
    map_option (\<lambda>q. q\<lparr>out_header := copyHeaders (out_header q) (req_header r)\<rparr>)
      (newRequest (req_method r) (target_url srv r) b)"

text \<open>
  One call of \<open>client.Do\<close> is one event, and its result is what the client gives back: as the clients set no
  \<open>CheckRedirect\<close>, that is the response after the redirects \<open>net/http\<close> has followed by itself.  An invalid
  status code makes \<open>WriteHeader\<close> panic; the state kept is the one before the call.
\<close>

definition forwardRequest :: "server \<Rightarrow> string \<Rightarrow> handler" where
  "forwardRequest srv body env r w s =
    (case proxy_request srv r (if body = [] then NilBody else restored body) of
       None \<Rightarrow> Ret (writeJSONRPCError w CodeInternalError ''internal proxy error'', s)
     | Some q \<Rightarrow>
        (let res = env_upstream env (wd_tick s) q; s1 = emit (Ev_Upstream q) s in
         case res of
           DoErr \<Rightarrow> Ret (writeJSONRPCError w CodeInternalError ''upstream server unavailable'', s1)
         | DoResp status hdr data bad \<Rightarrow>
             (let w1 = w_set_header (\<lambda>h. copyHeaders h hdr) w in
              if WriteHeader_panics status w1 then Panic (w1, s1)
              else Ret (ioCopy data (WriteHeader status w1), s1))))"

section \<open>Server-sent events\<close>

text \<open>
  One round of the relay loop: read, write and flush what was read, stop on a failed write or a
  read error.  The flag tells whether the loop goes on.
\<close>

definition sse_round :: "string \<times> stream_error option \<Rightarrow> writer \<Rightarrow> bool \<times> writer" where
  "sse_round rd w =
    (let (chunk, readErr) = rd in
     if chunk = [] then (readErr = None, w)
     else let (ok, w') = Write chunk w in
       if \<not> ok then (False, w') else (readErr = None, Flush w'))"

text \<open>The loop from read \<open>i\<close> on; it may never end, and then has no value.\<close>

partial_function (option) sse_loop :: "(nat \<Rightarrow> string \<times> stream_error option) \<Rightarrow> nat \<Rightarrow> writer \<Rightarrow> writer option" where
  "sse_loop rd i w = (let (more, w') = sse_round (rd i) w in
     if more then sse_loop rd (Suc i) w' else Some w')"

definition sse_header :: "header \<Rightarrow> header \<Rightarrow> header" where
  "sse_header hdr h = hset ''Connection'' ''keep-alive'' (hset ''Cache-Control'' ''no-cache''
     (hset ''Content-Type'' ''text/event-stream'' (copyHeaders h hdr)))"

definition handleSSE :: "server \<Rightarrow> handler" where
  "handleSSE srv env r w s =
    (if \<not> isFlusher w then Ret (http_Error ''SSE not supported'' StatusInternalServerError w, s)
     else case proxy_request srv r (req_body r) of
       None \<Rightarrow> Ret (http_Error ''internal proxy error'' StatusInternalServerError w, s)
     | Some q \<Rightarrow>
        (let res = env_sse env (wd_tick s) q; s1 = emit (Ev_SSE q) s in
         case res of
           StreamErr \<Rightarrow> Ret (http_Error ''upstream server unavailable'' StatusBadGateway w, s1)
         | StreamResp status hdr reads \<Rightarrow>
             (let w1 = w_set_header (sse_header hdr) w in
              if WriteHeader_panics status w1 then Panic (w1, s1)
              else let w2 = WriteHeader status w1 in
                case sse_loop reads 0 w2 of
                  Some w3 \<Rightarrow> Ret (w3, s1)
                | None \<Rightarrow> Hang (w2, s1))))"

section \<open>The handler\<close>

definition setDeadline :: "env \<Rightarrow> writer \<Rightarrow> world \<Rightarrow> writer \<times> world" where
  "setDeadline env w s =
    (let (now, s1) = readClock env s in (snd (setWriteDeadline (now + nonSSEWriteTimeout) w), s1))"

text \<open>The checks on the body that was read; \<open>None\<close> lets the request pass.\<close>

definition body_error :: "env \<Rightarrow> request \<Rightarrow> string \<Rightarrow> read_error option \<Rightarrow> (int \<times> string) option" where
  "body_error env r body err =
    (case err of
       Some MaxBytesError \<Rightarrow> Some (CodeInvalidRequest, ''request body exceeds 1MB limit'')
     | Some ReadFailed \<Rightarrow> Some (CodeParseError, ''failed to read request body'')
     | None \<Rightarrow>
         if req_method r = ''POST'' \<and> body \<noteq> [] then
           (case Parse body of
              Inl e \<Rightarrow> Some (CodeParseError, parse_error_text (env_json_text env) body e)
            | Inr req \<Rightarrow> None)
         else None)"

definition handleProxy :: "server \<Rightarrow> handler" where
  "handleProxy srv env r w s =
    (if isSSERequest r then handleSSE srv env r w s
     else (let (w1, s1) = setDeadline env w s in
       if req_method r = ''POST'' \<and> \<not> is_json r
       then Ret (writeJSONRPCError w1 CodeInvalidRequest ''Content-Type must be application/json'', s1)
       else (case readAll (maxBytesReader maxRequestSize (req_body r)) of
         None \<Rightarrow> Panic (w1, s1)
       | Some (body, err) \<Rightarrow>
          (case body_error env r body err of
             Some (code, msg) \<Rightarrow> Ret (writeJSONRPCError w1 code msg, s1)
           | None \<Rightarrow> forwardRequest srv body env r w1 s1))))"

text \<open>\<open>http.Redirect\<close> for an absolute path, with the status the multiplexer of Go 1.26 uses.\<close>

definition hexEscapeNonASCII :: "string \<Rightarrow> string" where
  "hexEscapeNonASCII u = concat (map (\<lambda>c. if 128 \<le> byte c then ''%'' @ hex_byte (byte c) else [c]) u)"

definition htmlEscape :: "string \<Rightarrow> string" where
  "htmlEscape u = concat (map (\<lambda>c.
     if c = CHR ''&'' then ''&amp;'' else if c = CHR ''<'' then ''&lt;''
     else if c = CHR ''>'' then ''&gt;'' else if c = CHR 0x22 then ''&#34;''
     else if c = CHR 0x27 then ''&#39;'' else [c]) u)"

definition http_Redirect :: "string \<Rightarrow> request \<Rightarrow> writer \<Rightarrow> writer" where
  "http_Redirect loc r w =
    (let hadCT = hvalues (w_header w) ''Content-Type'' \<noteq> [];
         ct = (if \<not> hadCT \<and> req_method r \<in> {''GET'', ''HEAD''}
               then hset ''Content-Type'' ''text/html; charset=utf-8'' else (\<lambda>h. h));
         w1 = WriteHeader StatusTemporaryRedirect
           (w_set_header (\<lambda>h. ct (hset ''Location'' (hexEscapeNonASCII loc) h)) w)
     in if \<not> hadCT \<and> req_method r = ''GET''
        then write_all (''<a href='' @ quote @ htmlEscape loc @ quote @ ''>'' @
               StatusText StatusTemporaryRedirect @ ''</a>.'' @ newline @ newline) w1
        else w1)"

definition mux_ServeHTTP :: "server \<Rightarrow> handler" where
  "mux_ServeHTTP srv env r w s =
    (case mux_route r of
       RouteHealth \<Rightarrow> handleHealth env r w s
     | RouteProxy \<Rightarrow> handleProxy srv env r w s
     | RouteRedirect loc \<Rightarrow> Ret (http_Redirect loc r w, s)
     | RouteNotFound \<Rightarrow> Ret (http_Error ''404 page not found'' 404 w, s)
     | RouteBadRequest \<Rightarrow> Ret (WriteHeader 400 (w_set_header (hset ''Connection'' ''close'') w), s))"

text \<open>
  \<open>New\<close>: the options, then the middlewares around the multiplexer, the first one outermost
  (\<open>server_Handler\<close>), in an HTTP server that has no write time-out, for the streams.
\<close>

definition http_server_for :: "string \<Rightarrow> http_server" where
  "http_server_for listenAddr =
    \<lparr>hs_Addr = listenAddr, hs_ReadHeaderTimeout = 10 * second, hs_ReadTimeout = 30 * second,
     hs_WriteTimeout = 0, hs_IdleTimeout = 120 * second\<rparr>"

definition proxy_New :: "string \<Rightarrow> string \<Rightarrow> proxy_option list \<Rightarrow> server option" where
  "proxy_New listenAddr upstreamMCPURL opts =
    (case parseRequestURI upstreamMCPURL of
       None \<Rightarrow> None
     | Some parsed \<Rightarrow> Some (fold (\<lambda>opt s. opt s) opts
         \<lparr>upstreamURL = parsed, sv_httpServer = http_server_for listenAddr,
          sv_httpClient = \<lparr>hc_Timeout = 30 * second\<rparr>, sv_sseHTTPClient = \<lparr>hc_Timeout = 0\<rparr>,
          sv_middlewares = []\<rparr>))"

text \<open>
  What \<open>net/http\<close> does to the connection before it calls the handler: the write time-out of the server, if
  it has one, becomes the write deadline.
\<close>

definition served_conn :: "http_server \<Rightarrow> int \<Rightarrow> conn \<Rightarrow> conn" where
  "served_conn hs now c =
    (if 0 < hs_WriteTimeout hs then c\<lparr>c_deadline := Some (now + hs_WriteTimeout hs)\<rparr> else c)"

definition server_Handler :: "server \<Rightarrow> handler" where
  "server_Handler srv = foldr (\<lambda>mw next. mw next) (sv_middlewares srv) (mux_ServeHTTP srv)"

text \<open>
  How \<open>http.Server\<close> stops serving (it always reports an error), and what \<open>ListenAndServe\<close> and \<open>Serve\<close>
  make of it.
\<close>

datatype serve_result = ServerClosed | ServeFailed string

definition ListenAndServe :: "serve_result \<Rightarrow> string option" where
  "ListenAndServe res = (case res of
     ServerClosed \<Rightarrow> None | ServeFailed err \<Rightarrow> Some (''server error: '' @ err))"

definition proxy_Serve :: "serve_result \<Rightarrow> string option" where
  "proxy_Serve res = (case res of
     ServerClosed \<Rightarrow> None | ServeFailed err \<Rightarrow> Some (''server error: '' @ err))"

section \<open>Lemmas: copied headers\<close>

text \<open>Header maps that come out of \<open>net/http\<close> have distinct canonical keys.\<close>

definition wf_header :: "header \<Rightarrow> bool" where
  "wf_header h \<longleftrightarrow> wf_map h \<and> (\<forall>k \<in> set (keys h). canonicalKey k = k)"

lemma hvalues_fold_hadd:
  "canonicalKey key = key \<Longrightarrow>
   hvalues (fold (hadd key) vs d) k = hvalues d k @ (if k = key then vs else [])"
  by (induction vs arbitrary: d) (auto simp: hvalues_hadd)

lemma hvalues_not_key: "k \<notin> set (keys h) \<Longrightarrow> hvalues h k = []"
  by (simp add: hvalues_def map_of_eq_None_iff [THEN iffD2])

lemma hvalues_Cons: "hvalues ((key, vs) # h) k = (if k = key then vs else hvalues h k)"
  by (simp add: hvalues_def)

lemma hvalues_copyHeaders:
  assumes "wf_header src"
  shows "hvalues (copyHeaders dst src) k =
    hvalues dst k @ (if k \<in> set excludedHeaders then [] else hvalues src k)"
  using assms unfolding copyHeaders_def
proof (induction src arbitrary: dst)
  case Nil
  then show ?case by simp
next
  case (Cons x src)
  obtain key vs where x: "x = (key, vs)" by fastforce
  have wf: "wf_header src" "canonicalKey key = key" "key \<notin> set (keys src)"
    using Cons.prems x by (auto simp: wf_header_def wf_map_def)
  then show ?case
    using Cons.IH [OF wf(1)] hvalues_not_key [OF wf(3)]
    by (auto simp: x hvalues_fold_hadd hvalues_Cons)
qed

lemma canonical_sse [simp]: "canonicalKey ''Connection'' = ''Connection''"
  "canonicalKey ''Cache-Control'' = ''Cache-Control''" "canonicalKey ''Location'' = ''Location''"
  by (rule canonicalKeyI, simp_all add: canonical_defs)+

lemma audit_header_excluded: "AuditClientIDHeader \<in> set excludedHeaders"
  by (simp add: AuditClientIDHeader_def excludedHeaders_def)

lemma proxy_request_fields:
  assumes "proxy_request srv r b = Some q"
  shows "out_header q = copyHeaders [] (req_header r)" "out_body q = b" "out_url q = target_url srv r"
    "req_method r \<noteq> [] \<Longrightarrow> out_method q = req_method r"
  using assms by (auto simp: proxy_request_def newRequest_def Let_def split: if_splits)

section \<open>Lemmas: what is sent upstream\<close>

text \<open>
  \<open>sends s s' evs\<close>: the step leaves cache and audit log alone and makes the calls \<open>evs\<close>.
\<close>

definition sends :: "world \<Rightarrow> world \<Rightarrow> event list \<Rightarrow> bool" where
  "sends s s' evs \<longleftrightarrow> wd_cache s' = wd_cache s \<and> wd_store s' = wd_store s \<and>
     wd_audit_out s' = wd_audit_out s \<and> wd_events s' = wd_events s @ evs"

lemma sends_refl [simp]: "sends s s []"
  by (simp add: sends_def)

lemma sends_emit: "sends s (emit ev s) [ev]"
  by (simp add: sends_def emit_def)

lemma sends_tick: "sends s s1 [] \<Longrightarrow> sends s1 s2 evs \<Longrightarrow> sends s s2 evs"
  by (simp add: sends_def)

lemma sends_frame [frame]:
  assumes "sends s s' evs"
  shows "unaudited s s'" "provenance s \<Longrightarrow> provenance s'" "set (wd_events s) \<subseteq> set (wd_events s')"
    "upstream_events s' = upstream_events s @ filter is_upstream evs"
  using assms by (auto simp: sends_def unaudited_def upstream_events_def intro: provenance_events)

lemma setDeadline_sends: "setDeadline env w s = (w', s') \<Longrightarrow> sends s s' []"
  by (auto simp: setDeadline_def readClock_def sends_def)

lemma forwardRequest_sends:
  assumes "go_state (forwardRequest srv body env r w s) = (w', s')"
  obtains (none) "sends s s' []"
  | (sent) q where "sends s s' [Ev_Upstream q]"
      "proxy_request srv r (if body = [] then NilBody else restored body) = Some q"
  using assms sends_emit
  by (auto simp: forwardRequest_def Let_def split: option.splits http_result.splits if_splits)

lemma handleSSE_sends:
  assumes "go_state (handleSSE srv env r w s) = (w', s')"
  obtains (none) "sends s s' []"
  | (sent) q where "sends s s' [Ev_SSE q]" "proxy_request srv r (req_body r) = Some q"
  using assms sends_emit
  by (auto simp: handleSSE_def Let_def split: option.splits stream_result.splits if_splits)

text \<open>
  \<open>forwarded srv r ev\<close>: the event a request causes upstream.  An SSE request is sent on with its
  body as it is; any other request with the body that was read completely and, for a POST with
  JSON content, is empty or a JSON-RPC request.
\<close>

fun forwarded :: "server \<Rightarrow> request \<Rightarrow> event \<Rightarrow> bool" where
  "forwarded srv r (Ev_SSE q) \<longleftrightarrow> isSSERequest r \<and> proxy_request srv r (req_body r) = Some q"
| "forwarded srv r (Ev_Upstream q) \<longleftrightarrow> \<not> isSSERequest r \<and>
     (\<exists>body. readAll (maxBytesReader maxRequestSize (req_body r)) = Some (body, None) \<and>
        proxy_request srv r (if body = [] then NilBody else restored body) = Some q \<and>
        (req_method r = ''POST'' \<longrightarrow> is_json r \<and> (body = [] \<or> (\<exists>req. Parse body = Inr req))))"
| "forwarded srv r _ \<longleftrightarrow> False"

lemma forwarded_upstream: "forwarded srv r ev \<Longrightarrow> is_upstream ev"
  by (cases ev) auto

lemma body_error_None:
  "body_error env r body err = None \<Longrightarrow> err = None \<and>
   (req_method r = ''POST'' \<longrightarrow> body = [] \<or> (\<exists>req. Parse body = Inr req))"
  by (auto simp: body_error_def split: option.splits read_error.splits sum.splits if_splits)

lemma handleProxy_sends:
  assumes "go_state (handleProxy srv env r w s) = (w', s')"
  obtains (none) "sends s s' []" | (sent) ev where "sends s s' [ev]" "forwarded srv r ev"
proof (cases "isSSERequest r")
  case True
  with assms have "go_state (handleSSE srv env r w s) = (w', s')" by (simp add: handleProxy_def)
  then show ?thesis
  proof (cases rule: handleSSE_sends)
    case none
    then show ?thesis by (rule that(1))
  next
    case (sent q)
    with True show ?thesis by (intro that(2) [of "Ev_SSE q"]) simp_all
  qed
next
  case False
  obtain w1 s1 where d: "setDeadline env w s = (w1, s1)" by fastforce
  note t = setDeadline_sends [OF d]
  show ?thesis
  proof (cases "(req_method r = ''POST'' \<and> \<not> is_json r) \<or>
      readAll (maxBytesReader maxRequestSize (req_body r)) = None")
    case True
    with assms False d t show ?thesis
      by (intro that(1)) (auto simp: handleProxy_def split: if_splits)
  next
    case ok: False
    then obtain body err where b: "readAll (maxBytesReader maxRequestSize (req_body r)) = Some (body, err)"
      by auto
    show ?thesis
    proof (cases "body_error env r body err")
      case (Some x)
      with assms False d t b ok show ?thesis
        by (intro that(1)) (auto simp: handleProxy_def split: prod.splits if_splits)
    next
      case None
      with assms False d b ok have "go_state (forwardRequest srv body env r w1 s1) = (w', s')"
        by (auto simp: handleProxy_def split: if_splits)
      then show ?thesis
      proof (cases rule: forwardRequest_sends)
        case none
        then show ?thesis using t by (intro that(1) sends_tick [OF t])
      next
        case (sent q)
        then show ?thesis using body_error_None [OF None] False b ok
          by (intro that(2) [of "Ev_Upstream q"] sends_tick [OF t]) auto
      qed
    qed
  qed
qed

lemma mux_sends:
  assumes "go_state (mux_ServeHTTP srv env r w s) = (w', s')"
  obtains (none) "sends s s' []"
  | (sent) ev where "sends s s' [ev]" "forwarded srv r ev" "mux_route r = RouteProxy"
proof (cases "mux_route r")
  case RouteProxy
  with assms have "go_state (handleProxy srv env r w s) = (w', s')" by (simp add: mux_ServeHTTP_def)
  then show ?thesis
    using RouteProxy that by (cases rule: handleProxy_sends) auto
qed (use assms that(1) in \<open>auto simp: mux_ServeHTTP_def handleHealth_def\<close>)

end
