(* ===== verification/Responses.thy ===== *)
theory Responses
  imports Proxy
begin

text \<open>
  What the handlers do with the response writer that \<open>statusRecorder\<close> wraps: a response is pending
  until one \<open>WriteHeader\<close>, and answered after it.  The client id travels in the header
  \<open>X-Audit-Client-Id\<close> of the pending response and is taken out of it by the \<open>WriteHeader\<close>.
\<close>

section \<open>Pending and answered responses\<close>

definition pending :: "string \<Rightarrow> writer \<Rightarrow> bool" where
  "pending x w \<longleftrightarrow> (\<exists>c. w = StatusRecorder (Base c) [] 0 \<and> c_sent c = None \<and>
     hget (c_header c) AuditClientIDHeader = x)"

definition answered :: "string \<Rightarrow> nat \<Rightarrow> writer \<Rightarrow> bool" where
  "answered x st w \<longleftrightarrow> (\<exists>c. w = StatusRecorder (Base c) x st \<and> 100 \<le> st \<and>
     hvalues (c_header c) AuditClientIDHeader = [] \<and>
     (final_status st \<longrightarrow> (\<exists>h. c_sent c = Some (st, h))) \<and>
     (\<forall>code h. c_sent c = Some (code, h) \<longrightarrow> hvalues h AuditClientIDHeader = []))"

text \<open>An update of the header map that leaves the internal header alone.\<close>

definition audit_free :: "(header \<Rightarrow> header) \<Rightarrow> bool" where
  "audit_free f \<longleftrightarrow> (\<forall>h. hvalues (f h) AuditClientIDHeader = hvalues h AuditClientIDHeader)"

named_theorems audit_free \<open>header updates that leave the internal header alone\<close>
named_theorems respond \<open>steps from pending to answered\<close>

lemma audit_free_id [audit_free]: "audit_free (\<lambda>h. h)"
  by (simp add: audit_free_def)

lemma audit_free_hset [audit_free]:
  "canonicalKey k \<noteq> AuditClientIDHeader \<Longrightarrow> audit_free f \<Longrightarrow> audit_free (\<lambda>h. hset k v (f h))"
  by (simp add: audit_free_def hvalues_hset)

lemma audit_free_hset' [audit_free]:
  "canonicalKey k \<noteq> AuditClientIDHeader \<Longrightarrow> audit_free (hset k v)"
  by (simp add: audit_free_def hvalues_hset)

lemma audit_free_hdel [audit_free]:
  "canonicalKey k \<noteq> AuditClientIDHeader \<Longrightarrow> audit_free (hdel k)"
  by (simp add: audit_free_def hvalues_hdel)

lemma audit_free_copy [audit_free]: "wf_header hdr \<Longrightarrow> audit_free (\<lambda>h. copyHeaders h hdr)"
  by (simp add: audit_free_def hvalues_copyHeaders audit_header_excluded)

lemma canonical_names [simp]:
  "canonicalKey ''Content-Length'' = ''Content-Length''"
  "canonicalKey ''X-Content-Type-Options'' = ''X-Content-Type-Options''"
  "canonicalKey ''WWW-Authenticate'' = ''Www-Authenticate''"
  "canonicalKey ''X-Request-Id'' = ''X-Request-Id''"
  by (simp_all add: canonicalKey_def canonical_defs; code_simp)+

lemma names_not_audit [simp]:
  "''Content-Type'' \<noteq> AuditClientIDHeader" "''Content-Length'' \<noteq> AuditClientIDHeader"
  "''X-Content-Type-Options'' \<noteq> AuditClientIDHeader" "''Www-Authenticate'' \<noteq> AuditClientIDHeader"
  "''Location'' \<noteq> AuditClientIDHeader" "''Connection'' \<noteq> AuditClientIDHeader"
  "''Cache-Control'' \<noteq> AuditClientIDHeader" "''X-Request-Id'' \<noteq> AuditClientIDHeader"
  by (simp_all add: AuditClientIDHeader_def)

lemmas audit_not_names [simp] = names_not_audit [THEN not_sym]

lemma pending_set_header: "pending x w \<Longrightarrow> audit_free f \<Longrightarrow> pending x (w_set_header f w)"
  by (auto simp: pending_def audit_free_def w_set_header_def hget_def)

lemma pending_setWriteDeadline: "pending x w \<Longrightarrow> setWriteDeadline t w = (False, w)"
  by (auto simp: pending_def)

lemma pending_setDeadline: "pending x w \<Longrightarrow> setDeadline env w s = (w', s') \<Longrightarrow> w' = w"
  by (auto simp: setDeadline_def pending_setWriteDeadline split: prod.splits)

lemma answered_WriteHeader [respond]:
  assumes "pending x w" "100 \<le> code"
  shows "answered x code (WriteHeader code w)"
proof -
  obtain c where c: "w = StatusRecorder (Base c) [] 0" "c_sent c = None"
    "hget (c_header c) AuditClientIDHeader = x"
    using assms(1) by (auto simp: pending_def)
  then show ?thesis using assms(2)
    by (auto simp: answered_def Let_def w_header_def w_set_header_def conn_WriteHeader_def
        hvalues_hdel final_status_def)
qed

lemma answered_Write: "answered x st w \<Longrightarrow> Write b w = (ok, w') \<Longrightarrow> answered x st w'"
  by (auto simp: answered_def conn_Write_def conn_WriteHeader_def Let_def bodyAllowed_def
      split: option.splits nat.splits if_splits prod.splits)

lemma conn_Flush_fields:
  "c_header (conn_Flush c) = c_header c"
  "c_sent (conn_Flush c) = (if c_sent c = None then Some (StatusOK, c_header c) else c_sent c)"
  by (auto simp: conn_Flush_def conn_WriteHeader_def Let_def http_status)

lemma answered_Flush: "answered x st w \<Longrightarrow> answered x st (Flush w)"
  by (cases "isFlusher (inner_writer w)") (auto simp: answered_def conn_Flush_fields split: if_splits)

lemma answered_write_all [respond]: "answered x st w \<Longrightarrow> answered x st (write_all b w)"
  by (auto simp: write_all_def intro: answered_Write [OF _ surjective_pairing])

lemma answered_ioCopy [respond]: "answered x st w \<Longrightarrow> answered x st (ioCopy data w)"
proof (induction data w rule: ioCopy.induct)
  case (1 data w)
  then show ?case
    by (subst ioCopy.simps) (auto simp: Let_def split: prod.splits dest: answered_Write)
qed

lemma answered_sse_round: "answered x st w \<Longrightarrow> sse_round rd w = (goes, w') \<Longrightarrow> answered x st w'"
  by (auto simp: sse_round_def split: prod.splits if_splits
      intro: answered_Flush dest: answered_Write)

lemma answered_sse_loop [respond]:
  "sse_loop rd i w = Some w' \<Longrightarrow> answered x st w \<Longrightarrow> answered x st w'"
proof (induction rule: sse_loop.raw_induct [rotated, consumes 1])
  case (1 loop rd i w y)
  then show ?case
    by (auto split: prod.splits if_splits dest: answered_sse_round)
qed

section \<open>Handlers\<close>

text \<open>
  What Go guarantees of the environment: a range visits every entry of a map once, and the header maps the
  HTTP clients return have distinct canonical names.
\<close>

definition wf_env :: "env \<Rightarrow> bool" where
  "wf_env env \<longleftrightarrow> is_range (env_range env) \<and>
    (\<forall>t q st hdr d b. env_upstream env t q = DoResp st hdr d b \<longrightarrow> wf_header hdr) \<and>
    (\<forall>t q st hdr rd. env_sse env t q = StreamResp st hdr rd \<longrightarrow> wf_header hdr)"

text \<open>
  A handler that returns (or streams on forever) has answered; one that panics has not begun to.
\<close>

definition handled :: "string \<Rightarrow> served \<Rightarrow> bool" where
  "handled x res \<longleftrightarrow> (case res of
     Ret (w, s) \<Rightarrow> \<exists>st. answered x st w
   | Panic (w, s) \<Rightarrow> pending x w
   | Hang (w, s) \<Rightarrow> \<exists>st. answered x st w)"

lemma handled_simps [simp]:
  "handled x (Ret (w, s)) \<longleftrightarrow> (\<exists>st. answered x st w)"
  "handled x (Panic (w, s)) \<longleftrightarrow> pending x w"
  "handled x (Hang (w, s)) \<longleftrightarrow> (\<exists>st. answered x st w)"
  by (simp_all add: handled_def)

lemma answered_set_WriteHeader:
  "pending x w \<Longrightarrow> audit_free f \<Longrightarrow> 100 \<le> code \<Longrightarrow>
   answered x code (WriteHeader code (w_set_header f w))"
  by (intro answered_WriteHeader pending_set_header)

lemma answered_reply:
  "pending x w \<Longrightarrow> audit_free f \<Longrightarrow> 100 \<le> code \<Longrightarrow>
   answered x code (write_all b (WriteHeader code (w_set_header f w)))"
  by (rule answered_write_all) (rule answered_set_WriteHeader)

lemma answered_http_Error [respond]:
  "pending x w \<Longrightarrow> 100 \<le> code \<Longrightarrow> answered x code (http_Error msg code w)"
  unfolding http_Error_def
  by (rule answered_reply) (simp_all add: audit_free_def hvalues_hset hvalues_hdel)

lemma answered_writeJSONRPCError [respond]:
  "pending x w \<Longrightarrow> answered x StatusOK (writeJSONRPCError w code msg)"
  unfolding writeJSONRPCError_def Marshal_error_response option.case
  by (rule answered_reply) (simp_all add: http_status audit_free_hset')

lemma answered_writeUnauthorized [respond]:
  "pending x w \<Longrightarrow> answered x StatusUnauthorized (writeUnauthorized w d)"
  unfolding writeUnauthorized_def
  by (rule answered_reply) (simp_all add: audit_free_def hvalues_hset http_status)

lemma answered_writeForbidden [respond]:
  "pending x w \<Longrightarrow> answered x StatusForbidden (writeForbidden w d)"
  unfolding writeForbidden_def by (rule answered_reply) (simp_all add: http_status audit_free_hset')

lemma audit_free_sse: "wf_header hdr \<Longrightarrow> audit_free (sse_header hdr)"
  by (simp add: audit_free_def sse_header_def hvalues_hset hvalues_copyHeaders audit_header_excluded)

lemma pending_no_panic:
  "pending x w \<Longrightarrow> \<not> WriteHeader_panics code (w_set_header f w) \<Longrightarrow> 100 \<le> code"
  by (auto simp: pending_def WriteHeader_panics_def w_set_header_def)

lemma wf_envD:
  "wf_env env \<Longrightarrow> env_upstream env t q = DoResp st hdr d b \<Longrightarrow> wf_header hdr"
  "wf_env env \<Longrightarrow> env_sse env t q = StreamResp st hdr rd \<Longrightarrow> wf_header hdr"
  unfolding wf_env_def by blast+

lemma handled_forwardRequest:
  assumes "wf_env env" "pending x w"
  shows "handled x (forwardRequest srv body env r w s)"
proof (cases "proxy_request srv r (if body = [] then NilBody else restored body)")
  case None
  then show ?thesis using assms by (auto simp: forwardRequest_def intro: respond)
next
  case (Some q)
  show ?thesis
  proof (cases "env_upstream env (wd_tick s) q")
    case DoErr
    with Some show ?thesis using assms by (auto simp: forwardRequest_def Let_def intro: respond)
  next
    case (DoResp status hdr data bad)
    note free = audit_free_copy [OF wf_envD(1) [OF assms(1) DoResp]]
    let ?w = "w_set_header (\<lambda>h. copyHeaders h hdr) w"
    show ?thesis
    proof (cases "WriteHeader_panics status ?w")
      case True
      with Some DoResp show ?thesis
        using pending_set_header [OF assms(2) free] by (simp add: forwardRequest_def Let_def)
    next
      case False
      then have "answered x status (ioCopy data (WriteHeader status ?w))"
        using assms(2) free
        by (intro answered_ioCopy answered_set_WriteHeader) (auto dest: pending_no_panic)
      with False Some DoResp show ?thesis by (auto simp: forwardRequest_def Let_def)
    qed
  qed
qed

lemma handled_handleSSE:
  assumes "wf_env env" "pending x w"
  shows "handled x (handleSSE srv env r w s)"
proof (cases "isFlusher w")
  case False
  then show ?thesis using answered_http_Error [OF assms(2), of StatusInternalServerError]
    by (auto simp: handleSSE_def http_status)
next
  case fl: True
  show ?thesis
  proof (cases "proxy_request srv r (req_body r)")
    case None
    with fl show ?thesis using answered_http_Error [OF assms(2), of StatusInternalServerError]
      by (auto simp: handleSSE_def http_status)
  next
    case (Some q)
    show ?thesis
    proof (cases "env_sse env (wd_tick s) q")
      case StreamErr
      with fl Some show ?thesis using answered_http_Error [OF assms(2), of StatusBadGateway]
        by (auto simp: handleSSE_def http_status Let_def)
    next
      case (StreamResp status hdr reads)
      note free = audit_free_sse [OF wf_envD(2) [OF assms(1) StreamResp]]
      let ?w = "w_set_header (sse_header hdr) w"
      show ?thesis
      proof (cases "WriteHeader_panics status ?w")
        case True
        with fl Some StreamResp show ?thesis
          using pending_set_header [OF assms(2) free] by (simp add: handleSSE_def Let_def)
      next
        case False
        then have "answered x status (WriteHeader status ?w)"
          using assms(2) free by (intro answered_set_WriteHeader) (auto dest: pending_no_panic)
        with False fl Some StreamResp show ?thesis
          by (auto simp: handleSSE_def Let_def split: option.split dest: answered_sse_loop)
      qed
    qed
  qed
qed

lemma handled_handleProxy:
  assumes "wf_env env" "pending x w"
  shows "handled x (handleProxy srv env r w s)"
proof -
  obtain w1 s1 where d: "setDeadline env w s = (w1, s1)" by fastforce
  then have "w1 = w" using pending_setDeadline assms(2) by blast
  have err: "handled x (Ret (writeJSONRPCError w code msg, s'))" for code msg s'
    using answered_writeJSONRPCError [OF assms(2)] by auto
  with d \<open>w1 = w\<close> show ?thesis
    using handled_handleSSE [OF assms] handled_forwardRequest [OF assms] assms(2)
    by (auto simp: handleProxy_def simp del: handled_simps(1) split: option.split)
qed

lemma audit_free_redirect: "audit_free (\<lambda>h. hset ''Location'' l h)"
  "audit_free (\<lambda>h. hset ''Content-Type'' t (hset ''Location'' l h))"
  by (simp_all add: audit_free_def hvalues_hset)

lemma answered_http_Redirect [respond]:
  "pending x w \<Longrightarrow> answered x StatusTemporaryRedirect (http_Redirect loc r w)"
  unfolding http_Redirect_def Let_def
  by (auto intro!: answered_reply answered_set_WriteHeader audit_free_redirect simp: http_status)

lemma handled_mux:
  assumes "wf_env env" "pending x w"
  shows "handled x (mux_ServeHTTP srv env r w s)"
proof (cases "mux_route r")
  case RouteHealth
  then show ?thesis
    using answered_reply [OF assms(2), of "hset ''Content-Type'' ''application/json''" StatusOK]
    by (auto simp: mux_ServeHTTP_def handleHealth_def audit_free_hset' http_status)
next
  case RouteProxy
  then show ?thesis using handled_handleProxy [OF assms] by (simp add: mux_ServeHTTP_def)
next
  case (RouteRedirect loc)
  then show ?thesis using answered_http_Redirect [OF assms(2)] by (auto simp: mux_ServeHTTP_def)
next
  case RouteNotFound
  then show ?thesis using assms answered_http_Error [of x w 404] by (auto simp: mux_ServeHTTP_def)
next
  case RouteBadRequest
  then show ?thesis
    using answered_set_WriteHeader [OF assms(2), of "hset ''Connection'' ''close''" 400]
    by (auto simp: mux_ServeHTTP_def audit_free_hset')
qed

end
