(* ===== verification/Config.thy ===== *)
theory Config
  imports GoUrl
begin

text \<open>
  \<open>internal/config/config.go\<close>: the configuration, read from the environment variables.  The
  environment is a parameter (\<open>os.Getenv\<close>: the value, empty when unset).
\<close>

section \<open>Definitions\<close>

type_synonym getenv = "string \<Rightarrow> string"

record config =
  UpstreamMCPURL :: string
  ProxyListenAddr :: string
  HydraAdminURL :: string
  OPAURL :: string
  AuditLogPath :: string
  GRPCListenAddr :: string

datatype config_error =
    UpstreamRequired
  | UpstreamInvalid
  | HydraRequired
  | HydraInvalid
  | OPARequired
  | OPAInvalid

definition envOrDefault :: "getenv \<Rightarrow> string \<Rightarrow> string \<Rightarrow> string" where
  "envOrDefault getenv key defaultValue =
    (let v = getenv key in if v \<noteq> [] then v else defaultValue)"

definition validate :: "config \<Rightarrow> config_error option" where
  "validate c =
    (if UpstreamMCPURL c = [] then Some UpstreamRequired
     else if parseRequestURI (UpstreamMCPURL c) = None then Some UpstreamInvalid
     else if HydraAdminURL c = [] then Some HydraRequired
     else if parseRequestURI (HydraAdminURL c) = None then Some HydraInvalid
     else if OPAURL c = [] then Some OPARequired
     else if parseRequestURI (OPAURL c) = None then Some OPAInvalid
     else None)"

definition Load :: "getenv \<Rightarrow> config_error + config" where
  "Load getenv =
    (let cfg = \<lparr>UpstreamMCPURL = getenv ''UPSTREAM_MCP_URL'',
           ProxyListenAddr = envOrDefault getenv ''PROXY_LISTEN_ADDR'' '':8080'',
           HydraAdminURL = getenv ''HYDRA_ADMIN_URL'',
           OPAURL = getenv ''OPA_URL'',
           AuditLogPath = envOrDefault getenv ''AUDIT_LOG_PATH'' ''stdout'',
           GRPCListenAddr = envOrDefault getenv ''GRPC_LISTEN_ADDR'' '':9090''\<rparr>
     in case validate cfg of Some err \<Rightarrow> Inl err | None \<Rightarrow> Inr cfg)"

section \<open>Lemmas\<close>

text \<open>\<open>ParseRequestURI\<close> rejects the empty text, so each URL needs one check only.\<close>

lemma parseRequestURI_Nil [simp]: "parseRequestURI [] = None"
  by (simp add: parseRequestURI_def)

lemma envOrDefault_nonempty: "d \<noteq> [] \<Longrightarrow> envOrDefault getenv k d \<noteq> []"
  by (simp add: envOrDefault_def Let_def)

lemma validate_None_iff:
  "validate c = None \<longleftrightarrow> parseRequestURI (UpstreamMCPURL c) \<noteq> None \<and>
     parseRequestURI (HydraAdminURL c) \<noteq> None \<and> parseRequestURI (OPAURL c) \<noteq> None"
  by (auto simp: validate_def)

lemma Load_Inr_iff:
  "Load getenv = Inr c \<longleftrightarrow> validate c = None \<and>
     UpstreamMCPURL c = getenv ''UPSTREAM_MCP_URL'' \<and> HydraAdminURL c = getenv ''HYDRA_ADMIN_URL'' \<and>
     OPAURL c = getenv ''OPA_URL'' \<and>
     ProxyListenAddr c = envOrDefault getenv ''PROXY_LISTEN_ADDR'' '':8080'' \<and>
     AuditLogPath c = envOrDefault getenv ''AUDIT_LOG_PATH'' ''stdout'' \<and>
     GRPCListenAddr c = envOrDefault getenv ''GRPC_LISTEN_ADDR'' '':9090''"
  by (cases c) (auto simp: Load_def Let_def split: option.splits)

section \<open>Properties\<close>

text \<open>
  Loading the configuration reports the first problem in a fixed order (upstream, Hydra, OPA; missing
  before malformed), and a configuration that loads has three URLs that parse and defaults for the rest.
\<close>

lemma Load_outcome:
  "(Load getenv = Inl UpstreamRequired \<longleftrightarrow> getenv ''UPSTREAM_MCP_URL'' = []) \<and>
   (Load getenv = Inl UpstreamInvalid \<longleftrightarrow> getenv ''UPSTREAM_MCP_URL'' \<noteq> [] \<and>
      parseRequestURI (getenv ''UPSTREAM_MCP_URL'') = None) \<and>
   (Load getenv = Inl HydraRequired \<longleftrightarrow> parseRequestURI (getenv ''UPSTREAM_MCP_URL'') \<noteq> None \<and>
      getenv ''HYDRA_ADMIN_URL'' = []) \<and>
   (Load getenv = Inl OPARequired \<longleftrightarrow> parseRequestURI (getenv ''UPSTREAM_MCP_URL'') \<noteq> None \<and>
      parseRequestURI (getenv ''HYDRA_ADMIN_URL'') \<noteq> None \<and> getenv ''OPA_URL'' = []) \<and>
   ((\<exists>c. Load getenv = Inr c) \<longleftrightarrow> parseRequestURI (getenv ''UPSTREAM_MCP_URL'') \<noteq> None \<and>
      parseRequestURI (getenv ''HYDRA_ADMIN_URL'') \<noteq> None \<and> parseRequestURI (getenv ''OPA_URL'') \<noteq> None)"
  by (auto simp: Load_def validate_def Let_def)

end
