(* ===== verification/GrpcServer.thy ===== *)
theory GrpcServer
  imports AuditEntry
begin

text \<open>
  \<open>internal/grpcserver/server.go\<close>: the management API.  The messages of the protocol are records
  with the fields the handlers use; the generated code and the gRPC transport are not modelled.
  A missing entry (a slot of the ring buffer that was never written) is a nil dereference.
\<close>

section \<open>Definitions\<close>

text \<open>What \<open>Serve\<close> makes of the way the server of the gRPC library stopped.\<close>

definition grpc_Serve :: "string option \<Rightarrow> string option" where
  "grpc_Serve res = map_option (\<lambda>err. ''gRPC server error: '' @ err) res"

definition defaultPageSize :: int where
  "defaultPageSize = 20"

definition maxPageSize :: int where
  "maxPageSize = 100"

record list_request =
  rq_PageToken :: string
  rq_PageSize :: "32 word"

record audit_log_msg =
  al_Id :: string
  al_ClientId :: string
  al_ToolName :: string
  al_Decision :: string
  al_Timestamp :: string
  al_Metadata :: "(string, string) gomap"

record list_response =
  rs_AuditLogs :: "audit_log_msg list"
  rs_NextPageToken :: string
  rs_TotalCount :: "32 word"

datatype grpc_error = InvalidToken string | NegativeToken

text \<open>A status code and its message.\<close>

fun grpc_status :: "grpc_error \<Rightarrow> string \<times> string" where
  "grpc_status (InvalidToken token) = (''InvalidArgument'', ''invalid page_token: '' @ token)"
| "grpc_status NegativeToken = (''InvalidArgument'', ''page_token must be non-negative'')"

definition Health :: string where
  "Health = ''SERVING''"

definition page_size :: "32 word \<Rightarrow> int" where
  "page_size n = (let p = sint n; p1 = (if p \<le> 0 then defaultPageSize else p)
                  in if maxPageSize < p1 then maxPageSize else p1)"

definition page_offset :: "string \<Rightarrow> grpc_error + int" where
  "page_offset token =
    (if token = [] then Inr 0
     else (case atoi token of
       None \<Rightarrow> Inl (InvalidToken token)
     | Some parsed \<Rightarrow> if parsed < 0 then Inl NegativeToken else Inr parsed))"

definition log_msg :: "entry \<Rightarrow> audit_log_msg" where
  "log_msg e = \<lparr>al_Id = e_ID e, al_ClientId = e_ClientID e, al_ToolName = e_ToolName e,
     al_Decision = decision_string (e_Decision e), al_Timestamp = e_Timestamp e,
     al_Metadata = e_Metadata e\<rparr>"

text \<open>\<open>int32(min(total, math.MaxInt32))\<close>.\<close>

definition total_count :: "int \<Rightarrow> 32 word" where
  "total_count n = word_of_int (min n (2 ^ 31 - 1))"

definition list_answer :: "int \<Rightarrow> entry option list \<times> int \<Rightarrow> list_response" where
  "list_answer offset = (\<lambda>(es, tot).
    (let nextOffset = offset + int (length es)
     in \<lparr>rs_AuditLogs = map (\<lambda>e. log_msg (the e)) es,
         rs_NextPageToken = (if nextOffset < tot then itoa nextOffset else []),
         rs_TotalCount = total_count tot\<rparr>))"

text \<open>\<open>None\<close> is a panic.\<close>

definition ListAuditLogs :: "entry store \<Rightarrow> list_request \<Rightarrow> (grpc_error + list_response) option" where
  "ListAuditLogs st req =
    (case page_offset (rq_PageToken req) of
       Inl err \<Rightarrow> Some (Inl err)
     | Inr offset \<Rightarrow>
        (let page = List st offset (page_size (rq_PageSize req)) in
         if None \<in> set (fst page) then None else Some (Inr (list_answer offset page))))"

section \<open>Lemmas\<close>

lemma sint_total_count:
  assumes "0 \<le> k" "k \<le> 10000"
  shows "sint (total_count k) = k"
proof -
  have "min k (2 ^ 31 - 1) = k" using assms by simp
  moreover have "sint (word_of_int k :: 32 word) = k"
    using assms by (simp add: sint_sbintrunc' signed_take_bit_int_eq_self)
  ultimately show ?thesis by (simp only: total_count_def)
qed

lemma page_size_bounds: "1 \<le> page_size n" "page_size n \<le> 100"
  by (auto simp: page_size_def Let_def defaultPageSize_def maxPageSize_def)

lemma page_offset_nonneg: "page_offset token = Inr offset \<Longrightarrow> 0 \<le> offset"
  by (auto simp: page_offset_def split: if_splits option.splits)

lemma page_limit_page_size [simp]: "page_limit (page_size n) = nat (page_size n)"
  using page_size_bounds [of n] by (simp add: page_limit_def)

text \<open>On a store that satisfies its invariant the handler never panics, and shows a page of the log.\<close>

lemma ListAuditLogs_page:
  assumes "store_inv st" "page_offset (rq_PageToken req) = Inr offset"
  defines "n \<equiv> nat (page_size (rq_PageSize req))"
  shows "ListAuditLogs st req = Some (Inr
    \<lparr>rs_AuditLogs = map log_msg (take n (drop (nat offset) (store_log st))),
     rs_NextPageToken = (if nat offset + n < length (store_log st) then itoa (offset + int n) else []),
     rs_TotalCount = total_count (int (length (store_log st)))\<rparr>)"
proof -
  note o = page_offset_nonneg [OF assms(2)]
  have pg: "List st offset (page_size (rq_PageSize req)) =
      (map Some (take n (drop (nat offset) (store_log st))), int (length (store_log st)))"
    using ring.lst_page [OF assms(1) o] by (simp add: n_def)
  have n1: "1 \<le> n" using page_size_bounds [of "rq_PageSize req"] by (simp add: n_def)
  have next_iff: "(offset + int (min (length (store_log st) - nat offset) n) < int (length (store_log st)))
      \<longleftrightarrow> nat offset + n < length (store_log st)"
    using o n1 by (auto simp: min_def)
  have "n \<le> length (store_log st) - nat offset" if "nat offset + n < length (store_log st)"
    using that by simp
  then show ?thesis
    using next_iff
    by (auto simp: ListAuditLogs_def assms(2) pg list_answer_def Let_def min_def comp_def)
qed

text \<open>The entry appended last is the first one on the first page.\<close>

lemma ListAuditLogs_newest:
  assumes "store_inv st"
  shows "\<exists>resp. ListAuditLogs (Append e st) \<lparr>rq_PageToken = [], rq_PageSize = n\<rparr> = Some (Inr resp) \<and>
    (\<exists>older. rs_AuditLogs resp = log_msg e # older)"
proof -
  obtain k m where k: "nat (page_size n) = Suc k" "maxStoreSize = Suc m"
    using page_size_bounds [of n] by (auto simp: maxStoreSize_def intro: that [of "nat (page_size n) - 1" 9999])
  have off: "page_offset (rq_PageToken \<lparr>rq_PageToken = [], rq_PageSize = n\<rparr>) = Inr 0"
    by (simp add: page_offset_def)
  have "take (min (Suc k) maxStoreSize) (e # xs) = e # take (min k m) xs" for xs
    by (subst k(2)) simp
  then show ?thesis
    using ListAuditLogs_page [OF ring.inv_app [OF assms, of e] off] k(1)
    by (simp add: ring.log_app [OF assms])
qed

section \<open>A client that follows the page tokens\<close>

text \<open>
  The client asks for pages of one size, starting with the empty token, until the answer has no next
  token; \<open>None\<close> is a call that fails, or fuel that runs out.
\<close>

fun fetch_all :: "nat \<Rightarrow> entry store \<Rightarrow> 32 word \<Rightarrow> string \<Rightarrow> audit_log_msg list option" where
  "fetch_all 0 st n token = None"
| "fetch_all (Suc fuel) st n token =
    (case ListAuditLogs st \<lparr>rq_PageToken = token, rq_PageSize = n\<rparr> of
       Some (Inr resp) \<Rightarrow>
         if rs_NextPageToken resp = [] then Some (rs_AuditLogs resp)
         else map_option (\<lambda>rest. rs_AuditLogs resp @ rest) (fetch_all fuel st n (rs_NextPageToken resp))
     | _ \<Rightarrow> None)"

lemma page_offset_itoa: "0 \<le> k \<Longrightarrow> k \<le> max_int64 \<Longrightarrow> page_offset (itoa k) = Inr k"
  by (simp add: page_offset_def itoa_nonempty atoi_itoa min_int64_def)

lemma fetch_all_from:
  assumes "store_inv st" "page_offset token = Inr (int off)" "length (store_log st) - off < fuel"
  shows "fetch_all fuel st n token = Some (map log_msg (drop off (store_log st)))"
  using assms(2,3)
proof (induction fuel arbitrary: token off)
  case 0
  then show ?case by simp
next
  case (Suc fuel)
  define k where "k = nat (page_size n)"
  have k1: "1 \<le> k" using page_size_bounds [of n] by (simp add: k_def)
  have cap: "length (store_log st) \<le> maxStoreSize" by (rule ring.log_cap [OF assms(1)])
  have page: "ListAuditLogs st \<lparr>rq_PageToken = token, rq_PageSize = n\<rparr> = Some (Inr
    \<lparr>rs_AuditLogs = map log_msg (take k (drop off (store_log st))),
     rs_NextPageToken = (if off + k < length (store_log st) then itoa (int (off + k)) else []),
     rs_TotalCount = total_count (int (length (store_log st)))\<rparr>)"
    using ListAuditLogs_page [OF assms(1), of "\<lparr>rq_PageToken = token, rq_PageSize = n\<rparr>" "int off"] Suc.prems(1)
    by (simp add: k_def)
  show ?case
  proof (cases "off + k < length (store_log st)")
    case False
    then show ?thesis by (simp add: page)
  next
    case True
    have "page_offset (itoa (int (off + k))) = Inr (int (off + k))"
      using True cap by (intro page_offset_itoa) (simp_all add: max_int64_def maxStoreSize_def)
    moreover have "length (store_log st) - (off + k) < fuel" using Suc.prems(2) True k1 by simp
    ultimately have "fetch_all fuel st n (itoa (int (off + k))) = Some (map log_msg (drop (off + k) (store_log st)))"
      by (rule Suc.IH)
    moreover have "map log_msg (take k (drop off (store_log st))) @ map log_msg (drop (off + k) (store_log st)) =
        map log_msg (drop off (store_log st))"
      by (metis append_take_drop_id drop_drop add.commute map_append)
    ultimately show ?thesis using True itoa_nonempty [of "int (off + k)"] by (simp add: page)
  qed
qed

section \<open>Properties\<close>

definition demo_entry :: entry where
  "demo_entry = \<lparr>e_Metadata = [], e_ID = ''i'', e_ClientID = ''agent'', e_ToolName = ''t'',
     e_Decision = DecisionAllow, e_Timestamp = [], e_RequestID = []\<rparr>"

text \<open>
  Paging is complete: a client that follows the page tokens, with any page size, gets every stored
  entry exactly once, newest first, and is done after at most one call per entry and one more.
\<close>

lemma pagination_enumerates:
  assumes "length (store_log (fold Append es NewStore)) < fuel"
  shows "fetch_all fuel (fold Append es NewStore) n [] = Some (map log_msg (take maxStoreSize (rev es)))"
proof -
  have "page_offset [] = Inr (int 0)" by (simp add: page_offset_def)
  from fetch_all_from [OF ring.inv_run [OF ring.inv_new] this] assms show ?thesis
    by (simp add: ring.log_fresh)
qed

text \<open>
  The management API never panics, and it fails, with \<open>InvalidArgument\<close>, exactly for a page token
  that is not a number of the machine or is negative.
\<close>

lemma ListAuditLogs_errors:
  "ListAuditLogs (fold Append es NewStore) req \<noteq> None \<and>
   (ListAuditLogs (fold Append es NewStore) req = Some (Inl err) \<longleftrightarrow>
      rq_PageToken req \<noteq> [] \<and>
      (atoi (rq_PageToken req) = None \<and> err = InvalidToken (rq_PageToken req) \<or>
       (\<exists>k. atoi (rq_PageToken req) = Some k \<and> k < 0) \<and> err = NegativeToken)) \<and>
   fst (grpc_status err) = ''InvalidArgument''"
proof -
  have st: "fst (grpc_status err) = ''InvalidArgument''" by (cases err) simp_all
  show ?thesis
  proof (cases "page_offset (rq_PageToken req)")
    case (Inl e)
    with st show ?thesis
      by (auto simp: ListAuditLogs_def page_offset_def split: if_splits option.splits)
  next
    case (Inr offset)
    with ListAuditLogs_page [OF ring.inv_run [OF ring.inv_new] Inr, of es] st show ?thesis
      by (auto simp: page_offset_def split: if_splits option.splits)
  qed
qed

text \<open>C25: the total count is the number of stored entries; the cast to 32 bits never changes it.\<close>

theorem total_count_exact:
  assumes "ListAuditLogs (fold Append es NewStore) req = Some (Inr resp)"
  shows "sint (rs_TotalCount resp) = int (min (length es) maxStoreSize) \<and>
    length (rs_AuditLogs resp) \<le> nat (page_size (rq_PageSize req))"
proof -
  obtain offset where o: "page_offset (rq_PageToken req) = Inr offset"
    using assms by (auto simp: ListAuditLogs_def split: sum.splits)
  have n: "length (store_log (fold Append es NewStore)) = min (length es) maxStoreSize"
    by (simp add: ring.log_fresh min.commute)
  have small: "int (min (length es) maxStoreSize) \<le> 10000" by (simp add: maxStoreSize_def)
  have "sint (total_count (int (min (length es) maxStoreSize))) = int (min (length es) maxStoreSize)"
    using small by (intro sint_total_count) (simp_all only: of_nat_0_le_iff)
  with assms ListAuditLogs_page [OF ring.inv_run [OF ring.inv_new] o, of es] n show ?thesis by auto
qed

theorem total_count_exact_witness:
  "\<exists>resp. ListAuditLogs (fold Append [demo_entry] NewStore) \<lparr>rq_PageToken = [], rq_PageSize = 0\<rparr> = Some (Inr resp) \<and>
     sint (rs_TotalCount resp) = 1"
proof -
  let ?req = "\<lparr>rq_PageToken = [], rq_PageSize = 0 :: 32 word\<rparr>"
  have o: "page_offset (rq_PageToken ?req) = Inr 0" by (simp add: page_offset_def)
  from ListAuditLogs_page [OF ring.inv_run [OF ring.inv_new] o, of "[demo_entry]"]
  obtain resp where r: "ListAuditLogs (fold Append [demo_entry] NewStore) ?req = Some (Inr resp)" by auto
  from total_count_exact [OF r] r show ?thesis by (auto simp: maxStoreSize_def)
qed

end
