(* ===== verification/Gateway.thy ===== *)
theory Gateway
  imports Responses Config GrpcServer
begin

text \<open>
  \<open>cmd/secure-mcp-gateway/main.go\<close>: how the parts are put together at startup and taken down at
  shutdown, and what holds of the whole chain of handlers RequestID, Audit, Auth, Policy, Proxy.
\<close>

section \<open>Startup and shutdown\<close>

record gateway =
  gw_config :: config
  gw_server :: server
  gw_logger :: logger

datatype startup_error =
    ErrConfig config_error
  | ErrLogger string
  | ErrHydra new_introspector_error
  | ErrOPA new_client_error
  | ErrProxy
  | ErrListen string

text \<open>The middlewares in the order in which they are added.\<close>

definition main_audit :: audit_middleware where
  "main_audit = audit_NewMiddleware [audit_WithSkipPaths [''/health'']]"

definition main_auth :: "hydra_introspector \<Rightarrow> auth_middleware" where
  "main_auth h = auth_NewMiddleware (Introspect h) [auth_WithSkipPaths [''/health'']]"

definition main_policy :: "opa_client \<Rightarrow> policy_middleware" where
  "main_policy c = policy_NewMiddleware (Evaluate c) [policy_WithSkipPaths [''/health'']]"

definition main_options :: "hydra_introspector \<Rightarrow> opa_client \<Rightarrow> proxy_option list" where
  "main_options h c =
    [WithMiddleware RequestIDMiddleware, WithMiddleware (audit_Handler main_audit),
     WithMiddleware (auth_Handler (main_auth h)), WithMiddleware (policy_Handler (main_policy c))]"

text \<open>
  \<open>run\<close> up to the start of the two servers; the operating system opens the log file and the gRPC
  listener (\<open>None\<close> is success).
\<close>

definition startup :: "getenv \<Rightarrow> (string \<Rightarrow> string option) \<Rightarrow> (string \<Rightarrow> string option) \<Rightarrow>
    startup_error + gateway" where
  "startup getenv open_file listen =
    (case Load getenv of
       Inl e \<Rightarrow> Inl (ErrConfig e)
     | Inr cfg \<Rightarrow>
    (case NewLogger open_file (AuditLogPath cfg) of
       Inl e \<Rightarrow> Inl (ErrLogger e)
     | Inr auditLogger \<Rightarrow>
    (case NewHydraIntrospector (HydraAdminURL cfg) of
       Inl e \<Rightarrow> Inl (ErrHydra e)
     | Inr introspector \<Rightarrow>
    (case policy_NewClient (OPAURL cfg) of
       Inl e \<Rightarrow> Inl (ErrOPA e)
     | Inr policyClient \<Rightarrow>
    (case proxy_New (ProxyListenAddr cfg) (UpstreamMCPURL cfg) (main_options introspector policyClient) of
       None \<Rightarrow> Inl ErrProxy
     | Some srv \<Rightarrow>
    (case listen (GRPCListenAddr cfg) of
       Some e \<Rightarrow> Inl (ErrListen e)
     | None \<Rightarrow> Inr \<lparr>gw_config = cfg, gw_server = srv, gw_logger = auditLogger\<rparr>))))))"

text \<open>The state at startup: an empty cache and an empty store.\<close>

definition init_world :: world where
  "init_world = \<lparr>wd_tick = 0, wd_cache = NewTokenCache [], wd_store = NewStore,
     wd_audit_out = [], wd_events = []\<rparr>"

text \<open>
  What ends the wait of \<open>run\<close>: a signal, or the result of one of the two servers in \<open>errCh\<close>.  Then the
  shutdown.  The clock of its 30 seconds runs while \<open>GracefulStop\<close> waits for the gRPC calls, which takes
  \<open>graceful\<close> nanoseconds (\<open>None\<close> if a call never ends); \<open>http_shutdown\<close> is what the \<open>Shutdown\<close> of the HTTP
  server returns with a given time left.  Only if that was in time is the log closed.
\<close>

datatype stop_cause =
    SignalReceived
  | ProxyStopped serve_result
  | GrpcStopped "string option"

fun startupErr :: "stop_cause \<Rightarrow> string option" where
  "startupErr SignalReceived = None"
| "startupErr (ProxyStopped res) = ListenAndServe res"
| "startupErr (GrpcStopped res) = grpc_Serve res"

definition shutdownTimeout :: int where
  "shutdownTimeout = 30 * 10 ^ 9"

definition shutdown :: "stop_cause \<Rightarrow> int option \<Rightarrow> (int \<Rightarrow> string option) \<Rightarrow> gateway \<Rightarrow>
    (string option \<times> gateway) option" where
  "shutdown cause graceful http_shutdown gw =
    (case graceful of
       None \<Rightarrow> None
     | Some d \<Rightarrow> Some (case http_shutdown (shutdownTimeout - d) of
         Some err \<Rightarrow> (Some err, gw)
       | None \<Rightarrow> (startupErr cause, gw\<lparr>gw_logger := snd (Close (gw_logger gw))\<rparr>)))"

text \<open>
  \<open>run\<close>: the error it returns and the gateway it leaves, if there ever was one; \<open>None\<close> if it never returns.
\<close>

datatype run_error = StartupFailed startup_error | RunFailed string

definition run :: "getenv \<Rightarrow> (string \<Rightarrow> string option) \<Rightarrow> (string \<Rightarrow> string option) \<Rightarrow>
    stop_cause \<Rightarrow> int option \<Rightarrow> (int \<Rightarrow> string option) \<Rightarrow> (run_error option \<times> gateway option) option" where
  "run getenv open_file listen cause graceful http_shutdown =
    (case startup getenv open_file listen of
       Inl e \<Rightarrow> Some (Some (StartupFailed e), None)
     | Inr gw \<Rightarrow> map_option (\<lambda>(err, gw'). (map_option RunFailed err, Some gw'))
         (shutdown cause graceful http_shutdown gw))"

definition gateway_Handler :: "gateway \<Rightarrow> handler" where
  "gateway_Handler gw = server_Handler (gw_server gw)"

section \<open>The chain\<close>

lemma skip_paths [simp]:
  "aum_skipPaths main_audit = [''/health'']" "am_skipPaths (main_auth h) = [''/health'']"
  "pm_skipPaths (main_policy c) = [''/health'']" "am_introspector (main_auth h) = Introspect h"
  "pm_evaluator (main_policy c) = Evaluate c"
  by (simp_all add: main_audit_def audit_NewMiddleware_def audit_WithSkipPaths_def main_auth_def
      auth_NewMiddleware_def auth_WithSkipPaths_def main_policy_def policy_NewMiddleware_def
      policy_WithSkipPaths_def)

lemma main_auth_cache: "am_cache (main_auth h) = wd_cache init_world"
  by (simp add: main_auth_def auth_NewMiddleware_def auth_WithSkipPaths_def init_world_def)

lemma startup_logger:
  assumes "startup getenv open_file listen = Inr gw"
  shows "(lg_closer (gw_logger gw) \<longleftrightarrow> AuditLogPath (gw_config gw) \<noteq> ''stdout'') \<and> \<not> lg_closed (gw_logger gw)"
proof -
  obtain cfg l where c: "Load getenv = Inr cfg" "NewLogger open_file (AuditLogPath cfg) = Inr l"
    "gw_config gw = cfg" "gw_logger gw = l"
    using assms by (auto simp: startup_def split: sum.splits option.splits)
  have "AuditLogPath cfg \<noteq> []"
    using Load_Inr_iff [THEN iffD1, OF c(1)] envOrDefault_nonempty [of "''stdout''"] by simp
  with c(2) have "(lg_closer l \<longleftrightarrow> AuditLogPath cfg \<noteq> ''stdout'') \<and> \<not> lg_closed l"
    by (auto simp: NewLogger_def split: if_splits option.splits)
  with c(3,4) show ?thesis by simp
qed

text \<open>The handlers behind the audit middleware.\<close>

definition guarded :: "hydra_introspector \<Rightarrow> opa_client \<Rightarrow> server \<Rightarrow> handler" where
  "guarded h c srv = auth_Handler (main_auth h) (policy_Handler (main_policy c) (mux_ServeHTTP srv))"

lemma startup_chain:
  assumes "startup getenv open_file listen = Inr gw"
  obtains h c where "gateway_Handler gw =
      RequestIDMiddleware (audit_Handler main_audit (guarded h c (gw_server gw)))"
    "NewHydraIntrospector (getenv ''HYDRA_ADMIN_URL'') = Inr h"
    "policy_NewClient (getenv ''OPA_URL'') = Inr c"
    "parseRequestURI (getenv ''UPSTREAM_MCP_URL'') = Some (upstreamURL (gw_server gw))"
proof -
  obtain cfg where cfg: "Load getenv = Inr cfg"
    using assms by (auto simp: startup_def split: sum.splits)
  obtain lg where lg: "NewLogger open_file (AuditLogPath cfg) = Inr lg"
    using assms cfg by (auto simp: startup_def split: sum.splits)
  obtain h where h: "NewHydraIntrospector (HydraAdminURL cfg) = Inr h"
    using assms cfg lg by (auto simp: startup_def split: sum.splits)
  obtain c where c: "policy_NewClient (OPAURL cfg) = Inr c"
    using assms cfg lg h by (auto simp: startup_def split: sum.splits)
  obtain srv where srv: "proxy_New (ProxyListenAddr cfg) (UpstreamMCPURL cfg) (main_options h c) = Some srv"
    using assms cfg lg h c by (auto simp: startup_def split: option.splits)
  have gw: "gw_server gw = srv"
    using assms cfg lg h c srv by (auto simp: startup_def split: option.splits)
  have u: "parseRequestURI (UpstreamMCPURL cfg) = Some (upstreamURL srv)"
    and m: "sv_middlewares srv = [RequestIDMiddleware, audit_Handler main_audit,
      auth_Handler (main_auth h), policy_Handler (main_policy c)]"
    using srv by (auto simp: proxy_New_def main_options_def WithMiddleware_def split: option.splits)
  have "gateway_Handler gw = RequestIDMiddleware (audit_Handler main_audit (guarded h c srv))"
    by (simp add: gateway_Handler_def server_Handler_def gw m guarded_def)
  with that [of h c] h c u gw Load_Inr_iff [of getenv cfg] cfg show ?thesis by simp
qed

text \<open>The options of \<open>run\<close> leave the HTTP server and the clients as \<open>New\<close> has made them.\<close>

lemma startup_http_server:
  assumes "startup getenv open_file listen = Inr gw"
  shows "sv_httpServer (gw_server gw) = http_server_for (ProxyListenAddr (gw_config gw))"
proof -
  obtain cfg h c srv where srv: "proxy_New (ProxyListenAddr cfg) (UpstreamMCPURL cfg) (main_options h c) = Some srv"
    and gw: "gw_config gw = cfg" "gw_server gw = srv"
    using assms by (auto simp: startup_def split: sum.splits option.splits)
  have "sv_httpServer srv = http_server_for (ProxyListenAddr cfg)"
    using srv by (auto simp: proxy_New_def main_options_def WithMiddleware_def split: option.splits)
  with gw show ?thesis by simp
qed

lemma served_conn_gateway [simp]: "served_conn (http_server_for addr) now c = c"
  by (simp add: served_conn_def http_server_for_def)

section \<open>Behind the audit middleware\<close>

text \<open>
  \<open>progress s s'\<close>: the audit log is as it was, calls may have been added, and the cache still holds
  only answers of Hydra.
\<close>

definition progress :: "world \<Rightarrow> world \<Rightarrow> bool" where
  "progress s s' \<longleftrightarrow> unaudited s s' \<and> set (wd_events s) \<subseteq> set (wd_events s') \<and> (provenance s \<longrightarrow> provenance s')"

lemma progress_refl [simp]: "progress s s"
  by (simp add: progress_def)

lemma progress_trans [trans]: "progress s s' \<Longrightarrow> progress s' s'' \<Longrightarrow> progress s s''"
  by (auto simp: progress_def intro: unaudited_trans)

lemma calls_only_progress: "calls_only s s' \<Longrightarrow> progress s s'"
  by (auto simp: progress_def calls_only_def unaudited_def intro: provenance_events)

lemma sends_progress: "sends s s' evs \<Longrightarrow> progress s s'"
  by (simp add: progress_def sends_frame)

lemma opa_allowed_mono: "opa_allowed evs i \<Longrightarrow> set evs \<subseteq> set evs' \<Longrightarrow> opa_allowed evs' i"
  by (auto simp: opa_allowed_def)

text \<open>
  Why the policy middleware let a request through with body \<open>b\<close>: it is no POST; it gives no input
  to evaluate; or the policy engine allowed its input.
\<close>

definition policy_passed :: "event list \<Rightarrow> request \<Rightarrow> body \<Rightarrow> bool" where
  "policy_passed evs r b \<longleftrightarrow>
     req_method r \<noteq> ''POST'' \<and> b = req_body r \<or>
     buildInput r = Some ((None, True), r\<lparr>req_body := b\<rparr>) \<or>
     (\<exists>i p. buildInput r = Some ((Some i, p), r\<lparr>req_body := b\<rparr>) \<and> opa_allowed evs i)"

lemma policy_passed_mono:
  "policy_passed evs r b \<Longrightarrow> set evs \<subseteq> set evs' \<Longrightarrow> policy_passed evs' r b"
  unfolding policy_passed_def using opa_allowed_mono by blast

lemma policy_mux_cases:
  assumes "req_path r \<noteq> ''/health''"
    and "go_state (policy_Handler (main_policy c) (mux_ServeHTTP srv) env r w s) = (w', s')"
  obtains (quiet) "progress s s'" "upstream_events s' = upstream_events s"
  | (sent) ev b where "progress s s'" "upstream_events s' = upstream_events s @ [ev]"
      "forwarded srv (r\<lparr>req_body := b\<rparr>) ev" "policy_passed (wd_events s') r b"
proof -
  note goal_sent = sent
  have mux: thesis
    if m: "go_state (mux_ServeHTTP srv env (r\<lparr>req_body := b\<rparr>) w s1) = (w', s')"
      and pp: "policy_passed (wd_events s1) r b" and c: "calls_only s s1" for b s1
    using m
  proof (cases rule: mux_sends)
    case none
    then show ?thesis
      using quiet progress_trans [OF calls_only_progress [OF c] sends_progress] sends_frame(4)
        calls_only_upstream [OF c] by fastforce
  next
    case (sent ev)
    then have "upstream_events s' = upstream_events s @ [ev]"
      using sends_frame(4) calls_only_upstream [OF c] forwarded_upstream by fastforce
    with sent show ?thesis
      using goal_sent progress_trans [OF calls_only_progress [OF c] sends_progress] sends_frame(3)
        policy_passed_mono [OF pp] by blast
  qed
  have skip: "r\<lparr>req_body := req_body r\<rparr> = r" by simp
  have ev: "pm_evaluator (main_policy c) = Evaluate c" by simp
  show ?thesis
  proof (rule opa.policy_Handler_cases [OF ev, of r "mux_ServeHTTP srv" env w s])
    assume "req_method r \<noteq> ''POST''"
      "policy_Handler (main_policy c) (mux_ServeHTTP srv) env r w s = mux_ServeHTTP srv env r w s"
    then show ?thesis using assms(2) mux [of "req_body r" s] by (simp add: policy_passed_def)
  next
    fix b assume "buildInput r = Some ((None, True), r\<lparr>req_body := b\<rparr>)"
      "policy_Handler (main_policy c) (mux_ServeHTTP srv) env r w s =
        mux_ServeHTTP srv env (r\<lparr>req_body := b\<rparr>) w s"
    then show ?thesis using assms(2) mux [of b s] by (simp add: policy_passed_def)
  next
    fix i b p s1 assume "buildInput r = Some ((Some i, p), r\<lparr>req_body := b\<rparr>)"
      "policy_Handler (main_policy c) (mux_ServeHTTP srv) env r w s =
        mux_ServeHTTP srv env (r\<lparr>req_body := b\<rparr>) w s1" "opa_allowed (wd_events s1) i" "calls_only s s1"
    then show ?thesis using assms(2) mux [of b s1] by (auto simp: policy_passed_def)
  qed (use assms quiet calls_only_progress calls_only_upstream in auto)
qed

lemma handled_policy_mux:
  assumes "wf_env env" "pending x w"
  shows "handled x (policy_Handler (main_policy c) (mux_ServeHTTP srv) env r w s)"
proof -
  have ev: "pm_evaluator (main_policy c) = Evaluate c" by simp
  have no: "\<exists>st. answered x st (writeForbidden w d)" for d
    using answered_writeForbidden [OF assms(2)] by blast
  show ?thesis
    by (rule opa.policy_Handler_cases [OF ev, of r "mux_ServeHTTP srv" env w s])
      (use assms handled_mux [OF assms] no in auto)
qed

lemma with_token_fields [simp]:
  "req_method (with_token result r) = req_method r" "req_path (with_token result r) = req_path r"
  "req_escaped (with_token result r) = req_escaped r" "req_body (with_token result r) = req_body r"
  "req_query (with_token result r) = req_query r" "req_header (with_token result r) = req_header r"
  "req_tokenInfo (with_token result r) = Some (token_info_of result)"
  by (simp_all add: with_token_def)

text \<open>
  The chain behind the audit middleware: nothing is sent upstream, or one request is, for an active
  token and with the consent of the policy middleware.
\<close>

lemma guarded_cases:
  assumes "req_path r \<noteq> ''/health''" "provenance s"
    and "go_state (guarded h c srv env r w s) = (w', s')"
  obtains (quiet) "progress s s'" "upstream_events s' = upstream_events s"
  | (sent) token result ev b where "progress s s'" "upstream_events s' = upstream_events s @ [ev]"
      "extractBearerToken r = Inr token" "ir_Active result"
      "introspected (wd_events s') (hashToken token) result"
      "forwarded srv ((with_token result r)\<lparr>req_body := b\<rparr>) ev"
      "policy_passed (wd_events s') (with_token result r) b"
proof -
  note goal_sent = sent
  let ?next = "policy_Handler (main_policy c) (mux_ServeHTTP srv)"
  have am: "am_introspector (main_auth h) = Introspect h" by simp
  show ?thesis
  proof (rule hydra.auth_Handler_cases [OF am assms(2), of r ?next env w])
    assume "req_path r \<in> set (am_skipPaths (main_auth h))"
    then show ?thesis using assms(1) by simp
  next
    fix d s1 assume "auth_Handler (main_auth h) ?next env r w s = Ret (writeUnauthorized w d, s1)"
      "upstream_events s1 = upstream_events s" "unaudited s s1" "provenance s1"
      "set (wd_events s) \<subseteq> set (wd_events s1)"
    then show ?thesis using assms(3) quiet by (simp add: guarded_def progress_def)
  next
    fix token result s1
    assume pass: "extractBearerToken r = Inr token" "ir_Active result"
        "introspected (wd_events s1) (hashToken token) result" "upstream_events s1 = upstream_events s"
      and eq: "auth_Handler (main_auth h) ?next env r w s =
          ?next env (with_token result r) (with_audit_id result w) s1"
      and "unaudited s s1" "provenance s1" "set (wd_events s) \<subseteq> set (wd_events s1)"
    then have p: "progress s s1" by (simp add: progress_def)
    have "req_path (with_token result r) \<noteq> ''/health''" using assms(1) by simp
    moreover have "go_state (?next env (with_token result r) (with_audit_id result w) s1) = (w', s')"
      using assms(3) eq by (simp add: guarded_def)
    ultimately show ?thesis
    proof (cases rule: policy_mux_cases)
      case quiet
      then show ?thesis using that(1) p pass(4) progress_trans by simp
    next
      case (sent ev b)
      then have "introspected (wd_events s') (hashToken token) result"
        using pass(3) introspected_mono by (simp add: progress_def)
      with sent pass p goal_sent show ?thesis using progress_trans by metis
    qed
  qed
qed

text \<open>
  And the response: 401 for a request that is not authenticated, otherwise the client id of the
  token is with the response from then on.
\<close>

lemma pending_with_audit_id:
  "pending x w \<Longrightarrow> pending (ir_ClientID result) (with_audit_id result w)"
  by (auto simp: pending_def with_audit_id_def w_set_header_def hget_hset)

lemma guarded_response:
  assumes "wf_env env" "provenance s" "pending [] w" "req_path r \<noteq> ''/health''"
  obtains (deny) w' s' where "guarded h c srv env r w s = Ret (w', s')"
      "answered [] StatusUnauthorized w'" "upstream_events s' = upstream_events s" "unaudited s s'"
  | (pass) token result where "extractBearerToken r = Inr token" "ir_Active result"
      "handled (ir_ClientID result) (guarded h c srv env r w s)"
      "introspected (wd_events (snd (go_state (guarded h c srv env r w s)))) (hashToken token) result"
proof -
  let ?next = "policy_Handler (main_policy c) (mux_ServeHTTP srv)"
  have am: "am_introspector (main_auth h) = Introspect h" by simp
  show ?thesis
  proof (rule hydra.auth_Handler_cases [OF am assms(2), of r ?next env w])
    assume "req_path r \<in> set (am_skipPaths (main_auth h))"
    then show ?thesis using assms(4) by simp
  next
    fix d s1 assume "auth_Handler (main_auth h) ?next env r w s = Ret (writeUnauthorized w d, s1)"
      "upstream_events s1 = upstream_events s" "unaudited s s1"
    then show ?thesis using deny answered_writeUnauthorized [OF assms(3)] by (simp add: guarded_def)
  next
    fix token result s1
    assume pass: "extractBearerToken r = Inr token" "ir_Active result"
        "introspected (wd_events s1) (hashToken token) result"
      and eq: "auth_Handler (main_auth h) ?next env r w s =
          ?next env (with_token result r) (with_audit_id result w) s1"
    obtain w' s' where g: "go_state (?next env (with_token result r) (with_audit_id result w) s1) = (w', s')"
      by fastforce
    have path: "req_path (with_token result r) \<noteq> ''/health''" using assms(4) by simp
    have "progress s1 s'" by (rule policy_mux_cases [OF path g])
    then have "introspected (wd_events s') (hashToken token) result"
      using pass(3) introspected_mono by (simp add: progress_def)
    moreover have "handled (ir_ClientID result) (?next env (with_token result r) (with_audit_id result w) s1)"
      using assms(1) pending_with_audit_id [OF assms(3)] by (rule handled_policy_mux)
    ultimately show ?thesis using that(2) pass(1,2) eq g by (simp add: guarded_def)
  qed
qed

section \<open>The path of the health check\<close>

text \<open>The path and the escaped path of a parsed request belong together.\<close>

definition wf_path :: "request \<Rightarrow> bool" where
  "wf_path r \<longleftrightarrow> unescapePath (req_escaped r) = Some (req_path r) \<and>
     (hasPrefix (req_path r) ''/'' \<longrightarrow> hasPrefix (req_escaped r) ''/'')"

lemma unescape_slash: "unescapePath s = Some p \<Longrightarrow> CHR ''/'' \<in> set s \<Longrightarrow> CHR ''/'' \<in> set p"
  unfolding unescapePath_def
proof (induction "\<lambda>_ :: char. False" "\<lambda>_ :: char. False" s arbitrary: p rule: unescape.induct)
  case 1
  then show ?case by simp
next
  case (2 c r)
  show ?case
  proof (cases "c = CHR ''%''")
    case False
    with 2 show ?thesis by auto
  next
    case True
    with 2(3) obtain x y r' a b where r: "r = x # y # r'" "hex_val_any x = Some a" "hex_val_any y = Some b"
      by (auto split: list.splits option.splits)
    have "hex_val_any (CHR ''/'') = None" by code_simp
    with r 2(4) True have "CHR ''/'' \<in> set r'" by auto
    with 2 True r show ?thesis by auto
  qed
qed

lemma health_route:
  assumes "wf_path r" "req_path r = ''/health''"
  shows "mux_route r = RouteHealth"
proof -
  obtain e where e: "req_escaped r = CHR ''/'' # e"
    using assms by (cases "req_escaped r") (auto simp: wf_path_def hasPrefix_iff)
  then have u: "unescapePath e = Some ''health''"
    using assms by (auto simp: wf_path_def unescapePath_def)
  then have ns: "CHR ''/'' \<notin> set e" using unescape_slash by fastforce
  have "plain_seg e"
    using u by (auto simp: plain_seg_def unescapePath_def)
  moreover from this ns have "last e \<noteq> CHR ''/''"
    unfolding plain_seg_def by (metis last_in_set)
  ultimately have "cleanPath (CHR ''/'' # e) = CHR ''/'' # e"
    using ns by (auto simp: cleanPath_def clean_rooted_def split_on_none join_segs_def ends_slash_def
        plain_seg_def hasPrefix_iff Let_def)
  moreover have "seg_health (CHR ''/'' # e)"
    using ns u by (simp add: seg_health_def split_on_none)
  moreover have "e \<noteq> []" using u by (auto simp: unescapePath_def)
  ultimately show ?thesis by (auto simp: mux_route_def mux_match_def e Let_def)
qed

section \<open>The whole chain\<close>

lemma WithRequestID_fields [simp]:
  "req_method (WithRequestID i r) = req_method r" "req_path (WithRequestID i r) = req_path r"
  "req_escaped (WithRequestID i r) = req_escaped r" "req_body (WithRequestID i r) = req_body r"
  "req_query (WithRequestID i r) = req_query r" "req_header (WithRequestID i r) = req_header r"
  "req_remote (WithRequestID i r) = req_remote r" "req_tokenInfo (WithRequestID i r) = req_tokenInfo r"
  "GetRequestID (WithRequestID i r) = i"
  by (simp_all add: WithRequestID_def GetRequestID_def)

lemma extractBearerToken_cong:
  "req_header r = req_header r' \<Longrightarrow> extractBearerToken r = extractBearerToken r'"
  by (simp add: extractBearerToken_def)

text \<open>The chain answers the health check by itself.\<close>

lemma gateway_health:
  assumes "startup getenv open_file listen = Inr gw" "wf_path r" "req_path r = ''/health''"
  obtains i s1 where "gateway_Handler gw env r w s =
      handleHealth env (WithRequestID i r) (w_set_header (hset RequestIDHeader i) w) s1" "calls_only s s1"
    "wd_events s1 = wd_events s"
proof -
  obtain h c where gw: "gateway_Handler gw =
      RequestIDMiddleware (audit_Handler main_audit (guarded h c (gw_server gw)))"
    using startup_chain [OF assms(1)] by metis
  have "wf_path (WithRequestID i r)" for i using assms(2) by (simp add: wf_path_def)
  then have "mux_route (WithRequestID i r) = RouteHealth" for i
    using assms(3) by (intro health_route) auto
  then have "audit_Handler main_audit (guarded h c (gw_server gw)) env (WithRequestID i r) w' s' =
      handleHealth env (WithRequestID i r) w' s'" for i w' s'
    using assms(3) by (simp add: audit_Handler_def guarded_def auth_Handler_def policy_Handler_def
        mux_ServeHTTP_def)
  then show ?thesis
    using that gw RequestID_step
      [of "audit_Handler main_audit (guarded h c (gw_server gw))" env r w s] by metis
qed

text \<open>
  The request the audit middleware hands on: a POST with JSON content has its body read, cut at the
  limit and restored.
\<close>

definition audited :: "request \<Rightarrow> request option" where
  "audited r = map_option snd (audit_prepare r)"

lemma audited_frame: "audited r = Some r' \<Longrightarrow> \<exists>b. r' = r\<lparr>req_body := b\<rparr>"
  by (auto simp: audited_def dest: audit_prepare_frame)

lemma audited_POST_json:
  assumes "audited r = Some r'" "req_method r = ''POST''" "is_json r"
  obtains d e where "req_body r = Body d e" "req_body r' = restored (take maxRequestSize d)"
proof (cases "req_body r")
  case (Body d e)
  let ?r = "r\<lparr>req_body := maxBytesReader maxRequestSize (Body d e)\<rparr>"
  have "is_json ?r" using assms(3) by (simp add: is_json_def)
  moreover obtain e' where "maxBytesReader maxRequestSize (Body d e) = Body (take maxRequestSize d) e'"
    by (cases "maxRequestSize < length d") auto
  ultimately have "req_body r' = restored (take maxRequestSize d)"
    using assms(1,2) Body
    by (auto simp: audited_def audit_prepare_def audit_extractToolName_def Let_def
        split: sum.splits option.splits if_splits)
  with that Body show ?thesis by blast
qed (use assms in \<open>auto simp: audited_def audit_prepare_def audit_extractToolName_def is_json_def\<close>)

text \<open>Either nothing is sent upstream, or one request for an authenticated client.\<close>

lemma gateway_sends:
  assumes "startup getenv open_file listen = Inr gw" "provenance s" "wf_path r"
    and "go_state (gateway_Handler gw env r w s) = (w', s')"
  obtains (quiet) "provenance s'" "upstream_events s' = upstream_events s"
  | (sent) token result ev i r' b where "provenance s'" "upstream_events s' = upstream_events s @ [ev]"
      "req_path r \<noteq> ''/health''"
      "extractBearerToken r = Inr token" "ir_Active result"
      "introspected (wd_events s') (hashToken token) result"
      "audited (WithRequestID i r) = Some r'"
      "forwarded (gw_server gw) ((with_token result r')\<lparr>req_body := b\<rparr>) ev"
      "policy_passed (wd_events s') (with_token result r') b"
proof (cases "req_path r = ''/health''")
  case True
  obtain i s1 where "gateway_Handler gw env r w s =
      handleHealth env (WithRequestID i r) (w_set_header (hset RequestIDHeader i) w) s1" "calls_only s s1"
    using gateway_health [OF assms(1,3) True] by blast
  then show ?thesis using assms(2,4) quiet calls_only_upstream provenance_calls
    by (auto simp: handleHealth_def)
next
  case False
  note goal_sent = sent
  obtain h c where gw: "gateway_Handler gw =
      RequestIDMiddleware (audit_Handler main_audit (guarded h c (gw_server gw)))"
    using startup_chain [OF assms(1)] by metis
  obtain i s1 where rid: "gateway_Handler gw env r w s =
      audit_Handler main_audit (guarded h c (gw_server gw)) env (WithRequestID i r)
        (w_set_header (hset RequestIDHeader i) w) s1" and c1: "calls_only s s1"
    using RequestID_step [of "audit_Handler main_audit (guarded h c (gw_server gw))" env r w s] gw
    by metis
  note p1 = provenance_calls [OF assms(2) c1] and u1 = calls_only_upstream [OF c1]
  show ?thesis
  proof (cases "audit_prepare (WithRequestID i r)")
    case None
    with rid False assms(4) p1 u1 show ?thesis by (intro quiet) (auto simp: audit_Handler_def)
  next
    case (Some x)
    then obtain tool r' where x: "x = (tool, r')" "audited (WithRequestID i r) = Some r'"
      by (cases x) (auto simp: audited_def)
    obtain b0 where b0: "r' = (WithRequestID i r)\<lparr>req_body := b0\<rparr>" using audited_frame [OF x(2)] by blast
    define g where "g = guarded h c (gw_server gw) env r'
      (StatusRecorder (w_set_header (hset RequestIDHeader i) w) [] 0) s1"
    obtain rec s2 where g2: "go_state g = (rec, s2)" by fastforce
    have s': "upstream_events s' = upstream_events s2" "wd_events s' = wd_events s2" "wd_cache s' = wd_cache s2"
      using rid False assms(4) Some x(1) g2
      by (cases g; auto simp: audit_Handler_def g_def [symmetric] audit_log_request_frame upstream_events_def)+
    have path: "req_path r' \<noteq> ''/health''" using False b0 by simp
    show ?thesis
      using path p1 g2 [unfolded g_def]
    proof (cases rule: guarded_cases)
      case quiet
      with s' p1 u1 show ?thesis using that(1) by (simp add: progress_def provenance_def)
    next
      case (sent token result ev b)
      then have "extractBearerToken r = Inr token"
        using extractBearerToken_cong [of r r'] b0 by simp
      with sent s' p1 u1 x(2) False goal_sent [of ev token result i r' b] show ?thesis
        by (simp add: progress_def provenance_def)
    qed
  qed
qed

text \<open>A connection on which nothing was sent, and a request without context values.\<close>

definition new_conn :: "conn \<Rightarrow> bool" where
  "new_conn c \<longleftrightarrow> c_sent c = None \<and> hvalues (c_header c) AuditClientIDHeader = []"

text \<open>The header \<open>X-Audit-Client-Id\<close> is not part of what was sent.\<close>

definition no_audit_header :: "conn \<Rightarrow> bool" where
  "no_audit_header c \<longleftrightarrow>
     (\<forall>code h. c_sent c = Some (code, h) \<longrightarrow> hvalues h AuditClientIDHeader = [])"

lemma pending_new:
  "new_conn c \<Longrightarrow> audit_free f \<Longrightarrow> pending [] (StatusRecorder (w_set_header f (Base c)) [] 0)"
  by (auto simp: pending_def new_conn_def audit_free_def w_set_header_def hget_def)

text \<open>
  The chain as the audit middleware around the guarded proxy, for a request that is not skipped.
\<close>

lemma gateway_audit_step:
  assumes "startup getenv open_file listen = Inr gw" "req_path r \<noteq> ''/health''"
  obtains (panic) f s1 where "gateway_Handler gw env r (Base c0) s = Panic (w_set_header f (Base c0), s1)"
      "audit_free f" "calls_only s s1"
    | (run) h c i s1 tool r' where "calls_only s s1"
      "audit_prepare (WithRequestID i r) = Some (tool, r')"
      "gateway_Handler gw env r (Base c0) s =
        (case guarded h c (gw_server gw) env r'
            (StatusRecorder (w_set_header (hset RequestIDHeader i) (Base c0)) [] 0) s1 of
          Ret (rec, s') \<Rightarrow> Ret (inner_writer rec,
            audit_log_request env r' tool (captured_clientID rec) (captured_status rec) s')
        | Panic (rec, s') \<Rightarrow> Panic (inner_writer rec, s')
        | Hang (rec, s') \<Rightarrow> Hang (inner_writer rec, s'))"
proof -
  obtain h c where gw: "gateway_Handler gw =
      RequestIDMiddleware (audit_Handler main_audit (guarded h c (gw_server gw)))"
    using startup_chain [OF assms(1)] by metis
  obtain i s1 where rid: "gateway_Handler gw env r (Base c0) s =
      audit_Handler main_audit (guarded h c (gw_server gw)) env (WithRequestID i r)
        (w_set_header (hset RequestIDHeader i) (Base c0)) s1" and c1: "calls_only s s1"
    using RequestID_step [of "audit_Handler main_audit (guarded h c (gw_server gw))" env r "Base c0" s] gw
    by metis
  show ?thesis
  proof (cases "audit_prepare (WithRequestID i r)")
    case None
    with rid assms(2) c1 show ?thesis
      using panic [of "hset RequestIDHeader i" s1]
      by (simp add: audit_Handler_def RequestIDHeader_def audit_free_hset')
  next
    case (Some x)
    then obtain tool r' where x: "audit_prepare (WithRequestID i r) = Some (tool, r')" by (cases x) auto
    with rid assms(2) show ?thesis by (intro run [OF c1 x]) (simp add: audit_Handler_def)
  qed
qed

lemma audit_free_requestID: "audit_free (hset RequestIDHeader i)"
  by (simp add: RequestIDHeader_def audit_free_hset')

lemma answered_inner:
  assumes "answered x st w"
  obtains c where "inner_writer w = Base c" "captured_clientID w = x" "captured_status w = st"
    "100 \<le> st" "no_audit_header c" "final_status st \<Longrightarrow> \<exists>h. c_sent c = Some (st, h)"
  using assms by (auto simp: answered_def no_audit_header_def)

lemma denied_response:
  assumes "pending x w"
  obtains c hd where "inner_writer (writeUnauthorized w d) = Base c" "c_sent c = Some (StatusUnauthorized, hd)"
proof (rule answered_inner [OF answered_writeUnauthorized [OF assms, of d]])
  fix c assume "inner_writer (writeUnauthorized w d) = Base c"
    "final_status StatusUnauthorized \<Longrightarrow> \<exists>h. c_sent c = Some (StatusUnauthorized, h)"
  then show ?thesis using that by (auto simp: final_status_def http_status)
qed

text \<open>
  One entry per request: every request the chain answers, except the health check, adds exactly
  one entry with the decision the client sees and the identity it has shown.
\<close>

lemma gateway_audit:
  assumes "startup getenv open_file listen = Inr gw" "req_path r \<noteq> ''/health''" "provenance s"
    and "wf_env env" "new_conn c0" "req_tokenInfo r = None"
    and "gateway_Handler gw env r (Base c0) s = Ret (w', s')"
  obtains e c' st where "w' = Base c'" "wd_store s' = Append e (wd_store s)"
    "wd_audit_out s' = wd_audit_out s @ [log_attrs e]" "e_Decision e = decision_of st" "100 \<le> st"
    "final_status st \<Longrightarrow> \<exists>h. c_sent c' = Some (st, h)" "no_audit_header c'"
    "length (e_ToolName e) \<le> maxHeaderValueLen"
    "e_Metadata e = metadata_of r st"
    "e_ClientID e = unknownValue \<and> st = StatusUnauthorized \<and> upstream_events s' = upstream_events s \<or>
     (\<exists>token result. extractBearerToken r = Inr token \<and> ir_Active result \<and>
        introspected (wd_events s') (hashToken token) result \<and>
        e_ClientID e = (if ir_ClientID result = [] then unknownValue else ir_ClientID result))"
proof (rule gateway_audit_step [OF assms(1,2), of env c0 s])
  fix f s1 assume "gateway_Handler gw env r (Base c0) s = Panic (w_set_header f (Base c0), s1)"
  then show ?thesis using assms(7) by simp
next
  fix h c i s1 tool r'
  let ?w = "StatusRecorder (w_set_header (hset RequestIDHeader i) (Base c0)) [] 0"
  define g where "g = guarded h c (gw_server gw) env r' ?w s1"
  assume c1: "calls_only s s1" and prep: "audit_prepare (WithRequestID i r) = Some (tool, r')"
    and "gateway_Handler gw env r (Base c0) s =
        (case guarded h c (gw_server gw) env r' ?w s1 of
          Ret (rec, s') \<Rightarrow> Ret (inner_writer rec,
            audit_log_request env r' tool (captured_clientID rec) (captured_status rec) s')
        | Panic (rec, s') \<Rightarrow> Panic (inner_writer rec, s')
        | Hang (rec, s') \<Rightarrow> Hang (inner_writer rec, s'))"
  then obtain rec s2 where g: "g = Ret (rec, s2)" and w': "w' = inner_writer rec"
    and s': "s' = audit_log_request env r' tool (captured_clientID rec) (captured_status rec) s2"
    using assms(7) by (auto simp: g_def [symmetric] split: go.splits)
  obtain b where b: "r' = (WithRequestID i r)\<lparr>req_body := b\<rparr>" using audit_prepare_frame [OF prep] by blast
  then have path: "req_path r' \<noteq> ''/health''" and ti: "req_tokenInfo r' = None"
    and tok: "extractBearerToken r' = extractBearerToken r"
    and meta: "metadata_of r' = metadata_of r"
    using assms(2,6) by (auto simp: metadata_of_def intro: extractBearerToken_cong)
  note p1 = provenance_calls [OF assms(3) c1]
  have pend: "pending [] ?w" using assms(5) audit_free_requestID by (rule pending_new)
  have ev: "wd_events s' = wd_events s2" using s' audit_log_request_frame by simp
  have len: "length tool \<le> maxHeaderValueLen" using prep by (rule audit_prepare_tool_length)
  obtain x st where a: "answered x st rec" and un: "unaudited s1 s2"
    and who: "x = [] \<and> st = StatusUnauthorized \<and> upstream_events s2 = upstream_events s1 \<or>
      (\<exists>token result. extractBearerToken r = Inr token \<and> ir_Active result \<and>
        introspected (wd_events s2) (hashToken token) result \<and> x = ir_ClientID result)"
  proof -
    note goal = that
    have gs: "go_state (guarded h c (gw_server gw) env r' ?w s1) = (rec, s2)"
      using g by (simp add: g_def)
    have un: "unaudited s1 s2"
      by (rule guarded_cases [OF path p1 gs]) (simp_all add: progress_def)
    show ?thesis
      by (rule guarded_response [OF assms(4) p1 pend path, of h c "gw_server gw"])
        (use goal g un tok in \<open>fastforce simp: g_def\<close>)+
  qed
  obtain c' where c': "inner_writer rec = Base c'" "captured_clientID rec = x" "captured_status rec = st"
    "100 \<le> st" "no_audit_header c'" "final_status st \<Longrightarrow> \<exists>h. c_sent c' = Some (st, h)"
    using answered_inner [OF a] by blast
  obtain e where e: "wd_store s' = Append e (wd_store s2)" "wd_audit_out s' = wd_audit_out s2 @ [log_attrs e]"
    "e_ClientID e = client_of x r'" "e_ToolName e = tool" "e_Decision e = decision_of st"
    "e_Metadata e = metadata_of r' st"
    using audit_log_request_entry [of env r' tool x st s2] s' c'(2,3) by metis
  have cl: "e_ClientID e = (if x = [] then unknownValue else x)" using e(3) ti by (simp add: client_of_def)
  have same: "wd_store s2 = wd_store s" "wd_audit_out s2 = wd_audit_out s"
    "upstream_events s1 = upstream_events s"
    using un c1 calls_only_upstream by (auto simp: unaudited_def calls_only_def)
  have "e_ClientID e = unknownValue \<and> st = StatusUnauthorized \<and>
      upstream_events s' = upstream_events s \<or>
    (\<exists>token result. extractBearerToken r = Inr token \<and> ir_Active result \<and>
        introspected (wd_events s') (hashToken token) result \<and>
        e_ClientID e = (if ir_ClientID result = [] then unknownValue else ir_ClientID result))"
    using who cl same(3) unfolding ev upstream_events_def by auto
  then show ?thesis
    using e c' w' len meta same by (intro that [of c' e st]) simp_all
qed

text \<open>Whatever the outcome, at most one entry is added and the internal header stays inside.\<close>

lemma gateway_store:
  assumes "startup getenv open_file listen = Inr gw" "provenance s" "wf_path r"
    and "go_state (gateway_Handler gw env r (Base c0) s) = (w', s')"
  shows "unaudited s s' \<or> (\<exists>e. wd_store s' = Append e (wd_store s) \<and>
    wd_audit_out s' = wd_audit_out s @ [log_attrs e])"
proof (cases "req_path r = ''/health''")
  case True
  show ?thesis
    by (rule gateway_health [OF assms(1,3) True, of env "Base c0" s])
      (use assms(4) in \<open>auto simp: handleHealth_def calls_only_def unaudited_def\<close>)
next
  case False
  show ?thesis
  proof (rule gateway_audit_step [OF assms(1) False, of env c0 s])
    fix f s1 assume "gateway_Handler gw env r (Base c0) s = Panic (w_set_header f (Base c0), s1)" "calls_only s s1"
    then show ?thesis using assms(4) by (simp add: calls_only_def unaudited_def)
  next
    fix h c i s1 tool r'
    let ?w = "StatusRecorder (w_set_header (hset RequestIDHeader i) (Base c0)) [] 0"
    define g where "g = guarded h c (gw_server gw) env r' ?w s1"
    assume c1: "calls_only s s1" and prep: "audit_prepare (WithRequestID i r) = Some (tool, r')"
      and eq: "gateway_Handler gw env r (Base c0) s =
        (case guarded h c (gw_server gw) env r' ?w s1 of
          Ret (rec, s') \<Rightarrow> Ret (inner_writer rec,
            audit_log_request env r' tool (captured_clientID rec) (captured_status rec) s')
        | Panic (rec, s') \<Rightarrow> Panic (inner_writer rec, s')
        | Hang (rec, s') \<Rightarrow> Hang (inner_writer rec, s'))"
    obtain rec s2 where g: "go_state g = (rec, s2)" by fastforce
    obtain b where "r' = (WithRequestID i r)\<lparr>req_body := b\<rparr>" using audit_prepare_frame [OF prep] by blast
    then have path: "req_path r' \<noteq> ''/health''" using False by simp
    have "progress s1 s2"
      by (rule guarded_cases [OF path provenance_calls [OF assms(2) c1] g [unfolded g_def]]) simp_all
    then have st: "wd_store s2 = wd_store s" "wd_audit_out s2 = wd_audit_out s"
      using c1 by (simp_all add: progress_def unaudited_def calls_only_def)
    let ?s3 = "audit_log_request env r' tool (captured_clientID rec) (captured_status rec) s2"
    obtain e where "wd_store ?s3 = Append e (wd_store s2)" "wd_audit_out ?s3 = wd_audit_out s2 @ [log_attrs e]"
      using audit_log_request_entry [of env r' tool "captured_clientID rec" "captured_status rec" s2] by metis
    then show ?thesis using eq assms(4) g st by (cases g) (auto simp: g_def [symmetric] unaudited_def)
  qed
qed

lemma handled_no_audit_header:
  assumes "handled x res" "go_state res = (w, s)"
  obtains c where "inner_writer w = Base c" "no_audit_header c"
  using assms by (cases res) (auto simp: answered_def pending_def no_audit_header_def)

lemma gateway_no_audit_header:
  assumes "startup getenv open_file listen = Inr gw" "req_path r \<noteq> ''/health''" "provenance s"
    and "wf_env env" "new_conn c0" "go_state (gateway_Handler gw env r (Base c0) s) = (w', s')"
  obtains c' where "w' = Base c'" "no_audit_header c'"
proof (rule gateway_audit_step [OF assms(1,2), of env c0 s])
  fix f s1 assume "gateway_Handler gw env r (Base c0) s = Panic (w_set_header f (Base c0), s1)"
  then show ?thesis using assms(5,6) that
    by (auto simp: w_set_header_def no_audit_header_def new_conn_def)
next
  fix h c i s1 tool r'
  let ?w = "StatusRecorder (w_set_header (hset RequestIDHeader i) (Base c0)) [] 0"
  define g where "g = guarded h c (gw_server gw) env r' ?w s1"
  assume c1: "calls_only s s1" and prep: "audit_prepare (WithRequestID i r) = Some (tool, r')"
    and eq: "gateway_Handler gw env r (Base c0) s =
      (case guarded h c (gw_server gw) env r' ?w s1 of
        Ret (rec, s') \<Rightarrow> Ret (inner_writer rec,
          audit_log_request env r' tool (captured_clientID rec) (captured_status rec) s')
      | Panic (rec, s') \<Rightarrow> Panic (inner_writer rec, s')
      | Hang (rec, s') \<Rightarrow> Hang (inner_writer rec, s'))"
  obtain rec s2 where g: "go_state g = (rec, s2)" by fastforce
  obtain b where "r' = (WithRequestID i r)\<lparr>req_body := b\<rparr>" using audit_prepare_frame [OF prep] by blast
  then have path: "req_path r' \<noteq> ''/health''" using assms(2) by simp
  note pend = pending_new [OF assms(5) audit_free_requestID]
  obtain x where "handled x g"
    by (rule guarded_response [OF assms(4) provenance_calls [OF assms(3) c1] pend path, of h c "gw_server gw" i])
      (auto simp: g_def)
  then obtain c' where "inner_writer rec = Base c'" "no_audit_header c'"
    using handled_no_audit_header g by metis
  moreover have "w' = inner_writer rec" using eq assms(6) g by (cases g) (auto simp: g_def [symmetric])
  ultimately show ?thesis using that by simp
qed

text \<open>A handler that panics or streams on has not logged anything.\<close>

lemma gateway_unfinished:
  assumes "startup getenv open_file listen = Inr gw" "req_path r \<noteq> ''/health''" "provenance s"
    and "gateway_Handler gw env r (Base c0) s = Panic (w', s') \<or> gateway_Handler gw env r (Base c0) s = Hang (w', s')"
  shows "unaudited s s'"
proof (rule gateway_audit_step [OF assms(1,2), of env c0 s])
  fix f s1 assume "gateway_Handler gw env r (Base c0) s = Panic (w_set_header f (Base c0), s1)" "calls_only s s1"
  with assms(4) show ?thesis using calls_only_unaudited by auto
next
  fix h c i s1 tool r'
  let ?w = "StatusRecorder (w_set_header (hset RequestIDHeader i) (Base c0)) [] 0"
  define g where "g = guarded h c (gw_server gw) env r' ?w s1"
  assume c1: "calls_only s s1" and prep: "audit_prepare (WithRequestID i r) = Some (tool, r')"
    and eq: "gateway_Handler gw env r (Base c0) s =
      (case guarded h c (gw_server gw) env r' ?w s1 of
        Ret (rec, s') \<Rightarrow> Ret (inner_writer rec,
          audit_log_request env r' tool (captured_clientID rec) (captured_status rec) s')
      | Panic (rec, s') \<Rightarrow> Panic (inner_writer rec, s')
      | Hang (rec, s') \<Rightarrow> Hang (inner_writer rec, s'))"
  obtain rec s2 where g: "go_state g = (rec, s2)" by fastforce
  obtain b where "r' = (WithRequestID i r)\<lparr>req_body := b\<rparr>" using audit_prepare_frame [OF prep] by blast
  then have path: "req_path r' \<noteq> ''/health''" using assms(2) by simp
  have "progress s1 s2"
    by (rule guarded_cases [OF path provenance_calls [OF assms(3) c1] g [unfolded g_def]]) simp_all
  moreover have "s' = s2" using eq assms(4) g by (cases g) (auto simp: g_def [symmetric])
  ultimately show ?thesis
    using calls_only_unaudited [OF c1] unaudited_trans by (simp add: progress_def)
qed

section \<open>What does not depend on the policy engine\<close>

text \<open>Every step but the evaluation itself is the same with another policy engine.\<close>

named_theorems opa_free \<open>steps that do not look at the policy engine\<close>

lemma readClock_opa [opa_free]: "readClock (env\<lparr>env_opa := f\<rparr>) s = readClock env s"
  by (simp add: readClock_def)

lemma w_generateID_opa [opa_free]: "w_generateID (env\<lparr>env_opa := f\<rparr>) s = w_generateID env s"
  by (simp add: w_generateID_def opa_free Let_def cong: option.case_cong)

lemma w_cache_opa [opa_free]:
  "w_cacheGet (env\<lparr>env_opa := f\<rparr>) token s = w_cacheGet env token s"
  "w_cacheSet (env\<lparr>env_opa := f\<rparr>) token result s = w_cacheSet env token result s"
  by (simp_all add: w_cacheGet_def w_cacheSet_def)

lemma Introspect_opa [opa_free]: "Introspect h (env\<lparr>env_opa := f\<rparr>) token s = Introspect h env token s"
  by (simp add: Introspect_def Let_def cong: option.case_cong)

lemma audit_log_opa [opa_free]:
  "audit_log_request (env\<lparr>env_opa := f\<rparr>) r tool i st s = audit_log_request env r tool i st s"
  by (simp add: audit_log_request_def opa_free cong: prod.case_cong)

lemma proxy_opa [opa_free]:
  "setDeadline (env\<lparr>env_opa := f\<rparr>) w s = setDeadline env w s"
  "forwardRequest srv b (env\<lparr>env_opa := f\<rparr>) r w s = forwardRequest srv b env r w s"
  "handleSSE srv (env\<lparr>env_opa := f\<rparr>) r w s = handleSSE srv env r w s"
  "body_error (env\<lparr>env_opa := f\<rparr>) r d e = body_error env r d e"
  by (simp_all add: setDeadline_def forwardRequest_def handleSSE_def body_error_def opa_free
      Let_def cong: option.case_cong read_error.case_cong sum.case_cong if_cong)

lemma mux_opa [opa_free]:
  "mux_ServeHTTP srv (env\<lparr>env_opa := f\<rparr>) r w s = mux_ServeHTTP srv env r w s"
  by (simp add: mux_ServeHTTP_def handleHealth_def handleProxy_def opa_free
      cong: option.case_cong prod.case_cong route.case_cong if_cong)

lemma guarded_opa:
  assumes "\<not> is_json r"
  shows "guarded h c srv (env\<lparr>env_opa := f\<rparr>) r w s = guarded h c srv env r w s"
proof -
  have "\<not> is_json (with_token result r)" for result using assms by (simp add: is_json_def)
  with assms show ?thesis
    by (simp add: guarded_def auth_Handler_def policy_Handler_def buildInput_def opa_free Let_def
        cong: option.case_cong sum.case_cong prod.case_cong if_cong)
qed

lemma audit_guarded_opa:
  assumes "\<not> is_json r"
  shows "audit_Handler m (guarded h c srv) (env\<lparr>env_opa := f\<rparr>) r w s = audit_Handler m (guarded h c srv) env r w s"
proof -
  have "\<not> is_json r'" if "audit_prepare r = Some (tool, r')" for tool r'
    using audit_prepare_frame [OF that] assms by (auto simp: is_json_def)
  with assms show ?thesis
    by (auto simp: audit_Handler_def guarded_opa opa_free split: option.split cong: go.case_cong prod.case_cong)
qed

section \<open>Runs\<close>

text \<open>
  The states the gateway can be in between two requests, starting from the empty one; every request
  may see another environment.  Requests are served one after the other here; theory
  \<open>Interleave\<close> lets the steps of several requests interleave.
\<close>

inductive reach :: "gateway \<Rightarrow> world \<Rightarrow> bool" for gw where
  reach_init: "reach gw init_world"
| reach_serve: "reach gw s \<Longrightarrow> wf_path r \<Longrightarrow>
    go_state (gateway_Handler gw env r (Base c) s) = (w', s') \<Longrightarrow> reach gw s'"

inductive_cases reach_cases: "reach gw s"

lemma provenance_init: "provenance init_world"
  by (simp add: provenance_def init_world_def cache_contents_def NewTokenCache_def)

lemma reach_provenance:
  assumes "startup getenv open_file listen = Inr gw" "reach gw s"
  shows "provenance s"
  using assms(2)
proof induction
  case reach_init
  then show ?case by (rule provenance_init)
next
  case (reach_serve s r env c w' s')
  show ?case
    by (rule gateway_sends [OF assms(1) reach_serve(4,2,3)])
qed

text \<open>The store and the log tell the same story.\<close>

lemma reach_trail:
  assumes "startup getenv open_file listen = Inr gw" "reach gw s"
  obtains es where "wd_store s = fold Append es NewStore" "wd_audit_out s = map log_attrs es"
proof -
  have "\<exists>es. wd_store s = fold Append es NewStore \<and> wd_audit_out s = map log_attrs es"
    using assms(2)
  proof induction
    case reach_init
    have "wd_store init_world = fold Append [] NewStore \<and> wd_audit_out init_world = map log_attrs []"
      by (simp add: init_world_def)
    then show ?case by blast
  next
    case (reach_serve s r env c w' s')
    then obtain es where es: "wd_store s = fold Append es NewStore" "wd_audit_out s = map log_attrs es" by blast
    have "unaudited s s' \<or> (\<exists>e. wd_store s' = Append e (wd_store s) \<and> wd_audit_out s' = wd_audit_out s @ [log_attrs e])"
      by (rule gateway_store [OF assms(1) reach_provenance [OF assms(1) reach_serve(1)] reach_serve(2,3)])
    then show ?case
    proof
      assume "unaudited s s'"
      with es show ?case by (auto simp: unaudited_def)
    next
      assume "\<exists>e. wd_store s' = Append e (wd_store s) \<and> wd_audit_out s' = wd_audit_out s @ [log_attrs e]"
      then obtain e where "wd_store s' = fold Append (es @ [e]) NewStore" "wd_audit_out s' = map log_attrs (es @ [e])"
        using es by auto
      then show ?case by blast
    qed
  qed
  then show ?thesis using that by blast
qed

lemma reach_store:
  assumes "startup getenv open_file listen = Inr gw" "reach gw s"
  shows "store_inv (wd_store s)"
proof -
  obtain es where "wd_store s = fold Append es NewStore" using reach_trail [OF assms] by metis
  then show ?thesis using ring.inv_run [OF ring.inv_new] by simp
qed

section \<open>The body of a forwarded POST\<close>

text \<open>What \<open>buildInput\<close> makes of a JSON request the audit middleware has handed on.\<close>

lemma audited_buildInput:
  assumes "audited (WithRequestID j r) = Some r'" "req_method r = ''POST''" "is_json (with_token result r')"
  obtains d e where "req_body r = Body d e" "req_body r' = restored (take maxRequestSize d)"
    "buildInput (with_token result r') = (case input_of (with_token result r) (take maxRequestSize d) of
       None \<Rightarrow> Some ((None, True), with_token result r')
     | Some i \<Rightarrow> Some ((Some i, False), with_token result r'))"
proof -
  obtain b' where r': "r' = (WithRequestID j r)\<lparr>req_body := b'\<rparr>" using audited_frame [OF assms(1)] by blast
  have "is_json (WithRequestID j r)" using assms(3) r' by (simp add: is_json_def)
  then obtain d e where d: "req_body r = Body d e" "req_body r' = restored (take maxRequestSize d)"
    using audited_POST_json [OF assms(1) _] assms(2) by auto
  then have "readBody (with_token result r') = Some (Some (take maxRequestSize d), with_token result r')"
    by (simp add: readBody_def restored_def with_token_def)
  moreover have "input_of (with_token result r') c = input_of (with_token result r) c" for c
    using r' by (simp add: input_of_def identity_input_def request_input_def split: sum.split)
  ultimately show ?thesis using buildInput_readBody [OF assms(3)] by (intro that [OF d]) simp
qed

lemma forwarded_post_input:
  assumes "audited (WithRequestID j r) = Some r'" "req_method r = ''POST''"
    and "forwarded srv ((with_token result r')\<lparr>req_body := b\<rparr>) (Ev_Upstream q)"
    and "policy_passed evs (with_token result r') b"
  obtains d e i where "req_body r = Body d e" "input_of (with_token result r) (take maxRequestSize d) = Some i"
    "out_body q = (if d = [] then NilBody else restored (take maxRequestSize d))" "opa_allowed evs i"
proof -
  obtain b' where r': "r' = (WithRequestID j r)\<lparr>req_body := b'\<rparr>" using audited_frame [OF assms(1)] by blast
  have post: "req_method (with_token result r') = ''POST''" using assms(2) r' by simp
  then have js: "is_json (with_token result r')" using assms(3) by (auto simp: is_json_def)
  obtain d e where d: "req_body r = Body d e" "req_body r' = restored (take maxRequestSize d)"
    and bi: "buildInput (with_token result r') = (case input_of (with_token result r) (take maxRequestSize d) of
       None \<Rightarrow> Some ((None, True), with_token result r')
     | Some i \<Rightarrow> Some ((Some i, False), with_token result r'))"
    by (rule audited_buildInput [OF assms(1,2) js])
  have "with_token result r' = (with_token result r')\<lparr>req_body := b\<rparr>"
    using assms(4) post bi by (auto simp: policy_passed_def split: option.splits)
  then have "b = req_body (with_token result r')"
    by (metis request.select_convs(6) request.surjective request.update_convs(6))
  then have b: "b = restored (take maxRequestSize d)" using d by simp
  obtain body where body: "readAll (maxBytesReader maxRequestSize b) = Some (body, None)"
      "proxy_request srv ((with_token result r')\<lparr>req_body := b\<rparr>)
         (if body = [] then NilBody else restored body) = Some q"
      "body = [] \<or> (\<exists>req. Parse body = Inr req)"
    using assms(3) post by auto
  have eq: "body = take maxRequestSize d" using body(1) b by (simp add: restored_def)
  have "input_of (with_token result r) (take maxRequestSize d) \<noteq> None"
    using body(3) eq by (auto simp: input_of_def)
  then obtain i where i: "input_of (with_token result r) (take maxRequestSize d) = Some i" by blast
  moreover have "opa_allowed evs i" using assms(4) post bi i by (auto simp: policy_passed_def)
  moreover have "out_body q = (if d = [] then NilBody else restored (take maxRequestSize d))"
    using proxy_request_fields(2) [OF body(2)] eq by (simp add: maxRequestSize_def)
  ultimately show ?thesis using that d(1) by blast
qed

end
