(* ===== verification/Interleave.thy ===== *)
theory Interleave
  imports Gateway "HOL-Library.Multiset"
begin

text \<open>
  Requests served at the same time.  \<open>net/http\<close> runs the chain of handlers in one goroutine for each
  request; they share the token cache, the store, the log and the services.  Here the chain is a
  process of atomic steps: a step is what one critical section, one line of the log or one call to a
  service does to the world, and the steps of different requests interleave in any order.  A process
  that is not interrupted does what the handlers of the other theories do.
\<close>

section \<open>Processes\<close>

datatype 'a proc = Done 'a | Atomic "world \<Rightarrow> 'a proc \<times> world"

primrec bind_proc :: "'a proc \<Rightarrow> ('a \<Rightarrow> 'b proc) \<Rightarrow> 'b proc" where
  "bind_proc (Done x) k = k x"
| "bind_proc (Atomic f) k = Atomic (\<lambda>s. map_prod (\<lambda>p. bind_proc p k) id (f s))"

definition act :: "(world \<Rightarrow> 'a \<times> world) \<Rightarrow> 'a proc" where
  "act f = Atomic (\<lambda>s. map_prod Done id (f s))"

text \<open>The process without interruption.\<close>

primrec exec :: "'a proc \<Rightarrow> world \<Rightarrow> 'a \<times> world" where
  "exec (Done x) = (\<lambda>s. (x, s))"
| "exec (Atomic f) = (\<lambda>s. case map_prod exec id (f s) of (g, s') \<Rightarrow> g s')"

lemma exec_act [simp]: "exec (act f) s = f s"
  by (cases "f s") (simp add: act_def)

lemma exec_bind: "exec (bind_proc p k) s = (case exec p s of (x, s') \<Rightarrow> exec (k x) s')"
proof (induction p arbitrary: s)
  case (Done x)
  then show ?case by simp
next
  case (Atomic f)
  obtain p s' where f: "f s = (p, s')" by fastforce
  then have "(p, s') \<in> range f" by (metis rangeI)
  then have "exec (bind_proc p k) s' = (case exec p s' of (x, s'') \<Rightarrow> exec (k x) s'')"
    using Atomic.IH [of "(p, s')" p] by simp
  with f show ?case by simp
qed

section \<open>Processes whose steps keep an invariant\<close>

text \<open>
  \<open>within J G Q p\<close>: whenever a step of the process starts in \<open>J\<close>, it ends in \<open>J\<close> and guarantees \<open>G\<close>; and the
  result satisfies \<open>Q\<close>.
\<close>

primrec within :: "(world \<Rightarrow> bool) \<Rightarrow> (world \<Rightarrow> world \<Rightarrow> bool) \<Rightarrow> ('a \<Rightarrow> bool) \<Rightarrow> 'a proc \<Rightarrow> bool" where
  "within J G Q (Done x) = Q x"
| "within J G Q (Atomic f) = (\<forall>s. J s \<longrightarrow>
    (case map_prod (within J G Q) id (f s) of (within_rest, s') \<Rightarrow> J s' \<and> G s s' \<and> within_rest))"

lemma within_step:
  assumes "within J G Q (Atomic f)" "J s" "f s = (p, s')"
  shows "J s'" "G s s'" "within J G Q p"
  using assms by (auto dest!: spec [of _ s])

lemma within_bind:
  assumes "within J G Q p" "\<And>x. Q x \<Longrightarrow> within J G R (k x)"
  shows "within J G R (bind_proc p k)"
  using assms(1)
proof (induction p)
  case (Done x)
  then show ?case using assms(2) by simp
next
  case (Atomic f)
  have "J s' \<and> G s s' \<and> within J G R (bind_proc p k)" if s: "J s" "f s = (p, s')" for s p s'
  proof -
    have "(p, s') \<in> range f" using s(2) by (metis rangeI)
    then show ?thesis using within_step [OF Atomic.prems s] Atomic.IH [of "(p, s')" p] by simp
  qed
  from this [OF _ prod.collapse [symmetric]] show ?case by (simp add: map_prod_def split_def)
qed

lemma within_weaken: "within J G Q p \<Longrightarrow> (\<And>x. Q x \<Longrightarrow> R x) \<Longrightarrow> within J G R p"
proof (induction p)
  case (Atomic f)
  have "J s' \<and> G s s' \<and> within J G R p" if s: "J s" "f s = (p, s')" for s p s'
  proof -
    have "(p, s') \<in> range f" using s(2) by (metis rangeI)
    then show ?thesis using within_step [OF Atomic.prems(1) s] Atomic.IH [of "(p, s')" p] Atomic.prems(2) by simp
  qed
  from this [OF _ prod.collapse [symmetric]] show ?case by (simp add: map_prod_def split_def)
qed simp

lemma within_act_iff:
  "within J G Q (act f) \<longleftrightarrow> (\<forall>s x s'. J s \<and> f s = (x, s') \<longrightarrow> J s' \<and> G s s' \<and> Q x)"
  by (auto simp: act_def map_prod_def split: prod.splits)

section \<open>The handlers as processes\<close>

text \<open>\<open>Get\<close> and \<open>Set\<close> of the token cache: lookup, clock, and clean-up or insertion are steps of their own.\<close>

definition p_cacheGet :: "env \<Rightarrow> string \<Rightarrow> introspection option proc" where
  "p_cacheGet env token =
    bind_proc (act (\<lambda>s. (map_of (tc_entries (wd_cache s)) (hashToken token), s))) (\<lambda>entry. case entry of
      None \<Rightarrow> Done None
    | Some e \<Rightarrow> bind_proc (act (readClock env)) (\<lambda>now.
        if ce_expiresAt e < now
        then bind_proc (act (\<lambda>s. ((), s\<lparr>wd_cache := (wd_cache s)\<lparr>tc_entries :=
            AList.delete (hashToken token) (tc_entries (wd_cache s))\<rparr>\<rparr>))) (\<lambda>_. Done None)
        else Done (Some (ce_result e))))"

definition w_cacheStore :: "env \<Rightarrow> string \<Rightarrow> introspection \<Rightarrow> int \<Rightarrow> world \<Rightarrow> unit \<times> world" where
  "w_cacheStore env token result ttl s =
    (let (t, c) = cacheStore (env_range env) (env_clock env) (hashToken token) result ttl (wd_tick s, wd_cache s)
     in ((), s\<lparr>wd_tick := t, wd_cache := c\<rparr>))"

definition p_cacheSet :: "env \<Rightarrow> string \<Rightarrow> introspection \<Rightarrow> unit proc" where
  "p_cacheSet env token result =
    bind_proc (act (\<lambda>s. if 0 < ir_ExpiresAt result
        then (let (now, s') = readClock env s in (entry_ttl (wd_cache s) result now, s'))
        else (Some (tc_ttl (wd_cache s)), s)))
      (\<lambda>ttl. case ttl of None \<Rightarrow> Done () | Some n \<Rightarrow> act (w_cacheStore env token result n))"

type_synonym phandler = "env \<Rightarrow> request \<Rightarrow> writer \<Rightarrow> writer go proc"

text \<open>A handler whose only step that others can see is one call to a service.\<close>

definition atomically :: "handler \<Rightarrow> phandler" where
  "atomically h env r w = act (\<lambda>s. let res = h env r w s in (go_map fst res, snd (go_state res)))"

definition p_auth :: "auth_middleware \<Rightarrow> phandler \<Rightarrow> phandler" where
  "p_auth m next env r w =
    (if req_path r \<in> set (am_skipPaths m) then next env r w
     else (case extractBearerToken r of
       Inl err \<Rightarrow> Done (Ret (writeUnauthorized w (token_error_text err)))
     | Inr token \<Rightarrow> bind_proc (p_cacheGet env token) (\<lambda>hit. case hit of
         Some result \<Rightarrow>
           if ir_Active result then next env (with_token result r) (with_audit_id result w)
           else Done (Ret (writeUnauthorized w ''token is not active''))
       | None \<Rightarrow> bind_proc (act (am_introspector m env token)) (\<lambda>answer. case answer of
           Inl err \<Rightarrow> Done (Ret (writeUnauthorized w ''token verification failed''))
         | Inr result \<Rightarrow> bind_proc (p_cacheSet env token result) (\<lambda>_.
             if \<not> ir_Active result then Done (Ret (writeUnauthorized w ''token is not active''))
             else next env (with_token result r) (with_audit_id result w))))))"

definition p_policy :: "policy_middleware \<Rightarrow> phandler \<Rightarrow> phandler" where
  "p_policy m next env r w =
    (if req_path r \<in> set (pm_skipPaths m) then next env r w
     else if req_method r \<noteq> ''POST'' then next env r w
     else (case buildInput r of
       None \<Rightarrow> Done (Panic w)
     | Some ((None, proceed), r') \<Rightarrow> if proceed then next env r' w else Done (Ret w)
     | Some ((Some i, _), r') \<Rightarrow> bind_proc (act (pm_evaluator m env i)) (\<lambda>answer. case answer of
         Inl err \<Rightarrow> Done (Ret (writeForbidden w ''policy evaluation unavailable''))
       | Inr allowed \<Rightarrow>
           if \<not> allowed then Done (Ret (writeForbidden w ''denied by policy''))
           else next env r' w)))"

text \<open>\<open>NewEntry\<close>, then the line of the log, then the store.\<close>

definition w_NewEntry :: "env \<Rightarrow> request \<Rightarrow> string \<Rightarrow> string \<Rightarrow> nat \<Rightarrow> world \<Rightarrow> entry \<times> world" where
  "w_NewEntry env r toolName captured status s =
    (let (genID, s1) = w_generateID env s; (now, s2) = readClock env s1
     in (NewEntry (client_of captured r) toolName (decision_of status) (GetRequestID r)
           (metadata_of r status) genID now, s2))"

definition p_log :: "env \<Rightarrow> request \<Rightarrow> string \<Rightarrow> string \<Rightarrow> nat \<Rightarrow> unit proc" where
  "p_log env r toolName captured status =
    bind_proc (act (w_NewEntry env r toolName captured status)) (\<lambda>e.
      bind_proc (act (\<lambda>s. ((), s\<lparr>wd_audit_out := wd_audit_out s @ [log_attrs e]\<rparr>))) (\<lambda>_.
        act (\<lambda>s. ((), s\<lparr>wd_store := Append e (wd_store s)\<rparr>))))"

definition p_audit :: "audit_middleware \<Rightarrow> phandler \<Rightarrow> phandler" where
  "p_audit m next env r w =
    (if req_path r \<in> set (aum_skipPaths m) then next env r w
     else (case audit_prepare r of
       None \<Rightarrow> Done (Panic w)
     | Some (toolName, r') \<Rightarrow> bind_proc (next env r' (StatusRecorder w [] 0)) (\<lambda>res. case res of
         Ret rec \<Rightarrow> bind_proc (p_log env r' toolName (captured_clientID rec) (captured_status rec))
           (\<lambda>_. Done (Ret (inner_writer rec)))
       | Panic rec \<Rightarrow> Done (Panic (inner_writer rec))
       | Hang rec \<Rightarrow> Done (Hang (inner_writer rec)))))"

definition p_requestID :: "phandler \<Rightarrow> phandler" where
  "p_requestID next env r w =
    (let given = hget (req_header r) RequestIDHeader in
     bind_proc (if given = [] then act (w_generateID env)
                else if maxHeaderValueLen < length given then Done (take maxHeaderValueLen given)
                else Done given)
       (\<lambda>requestID. next env (WithRequestID requestID r) (w_set_header (hset RequestIDHeader requestID) w)))"

definition p_guarded :: "hydra_introspector \<Rightarrow> opa_client \<Rightarrow> server \<Rightarrow> phandler" where
  "p_guarded h c srv = p_auth (main_auth h) (p_policy (main_policy c) (atomically (mux_ServeHTTP srv)))"

definition p_gateway :: "hydra_introspector \<Rightarrow> opa_client \<Rightarrow> server \<Rightarrow> phandler" where
  "p_gateway h c srv = p_requestID (p_audit main_audit (p_guarded h c srv))"

section \<open>A process without interruption is the handler\<close>

definition with_world :: "writer go \<times> world \<Rightarrow> served" where
  "with_world = (\<lambda>(res, s). go_map (\<lambda>w. (w, s)) res)"

definition implements :: "phandler \<Rightarrow> handler \<Rightarrow> bool" where
  "implements p h \<longleftrightarrow> (\<forall>env r w s. with_world (exec (p env r w) s) = h env r w s)"

lemma implementsD: "implements p h \<Longrightarrow> with_world (exec (p env r w) s) = h env r w s"
  by (simp add: implements_def)

lemma with_world_simps [simp]:
  "with_world (Ret w, s) = Ret (w, s)" "with_world (Panic w, s) = Panic (w, s)"
  "with_world (Hang w, s) = Hang (w, s)"
  by (simp_all add: with_world_def)

lemma implements_atomically: "implements (atomically h) h"
  unfolding implements_def
proof (intro allI)
  fix env r w s
  show "with_world (exec (atomically h env r w) s) = h env r w s"
    by (cases "h env r w s") (auto simp: atomically_def Let_def with_world_def)
qed

lemma exec_cacheGet: "exec (p_cacheGet env token) s = w_cacheGet env token s"
  by (auto simp: p_cacheGet_def w_cacheGet_def cacheGet_def exec_bind readClock_def Let_def split: option.split)

lemma exec_cacheSet: "exec (p_cacheSet env token result) s = ((), w_cacheSet env token result s)"
  by (auto simp: p_cacheSet_def w_cacheSet_def cacheSet_def exec_bind readClock_def entry_ttl_def
      w_cacheStore_def Let_def min_def split: option.split prod.split)

lemma exec_log:
  "exec (p_log env r tool captured status) s = ((), audit_log_request env r tool captured status s)"
  by (simp add: p_log_def audit_log_request_def w_NewEntry_def exec_bind Log_def Let_def split: prod.split)

lemma implements_auth:
  assumes "implements p h"
  shows "implements (p_auth m p) (auth_Handler m h)"
  unfolding implements_def
proof (intro allI)
  fix env r w s
  show "with_world (exec (p_auth m p env r w) s) = auth_Handler m h env r w s"
    by (auto simp: p_auth_def auth_Handler_def exec_bind exec_cacheGet exec_cacheSet implementsD [OF assms] Let_def
        split: sum.split option.split prod.split)
qed

lemma implements_policy:
  assumes "implements p h"
  shows "implements (p_policy m p) (policy_Handler m h)"
  unfolding implements_def
  by (auto simp: p_policy_def policy_Handler_def exec_bind implementsD [OF assms] Let_def
      split: sum.split option.split prod.split)

lemma implements_audit:
  assumes "implements p h"
  shows "implements (p_audit m p) (audit_Handler m h)"
  unfolding implements_def
proof (intro allI)
  fix env r w s
  show "with_world (exec (p_audit m p env r w) s) = audit_Handler m h env r w s"
  proof (cases "req_path r \<in> set (aum_skipPaths m)")
    case True
    then show ?thesis by (simp add: p_audit_def audit_Handler_def implementsD [OF assms])
  next
    case False
    show ?thesis
    proof (cases "audit_prepare r")
      case None
      with False show ?thesis by (simp add: p_audit_def audit_Handler_def)
    next
      case (Some x)
      obtain tool r' where x: "x = (tool, r')" by fastforce
      obtain res s' where e: "exec (p env r' (StatusRecorder w [] 0)) s = (res, s')" by fastforce
      have h: "h env r' (StatusRecorder w [] 0) s = with_world (res, s')"
        using implementsD [OF assms, of env r' "StatusRecorder w [] 0" s] e by simp
      show ?thesis
      proof (cases res)
        case (Ret rec)
        with False Some x e h show ?thesis
          by (simp add: p_audit_def audit_Handler_def exec_bind exec_log)
      qed (use False Some x e h in \<open>simp_all add: p_audit_def audit_Handler_def exec_bind\<close>)
    qed
  qed
qed

lemma implements_requestID:
  assumes "implements p h"
  shows "implements (p_requestID p) (RequestIDMiddleware h)"
  unfolding implements_def
  by (auto simp: p_requestID_def RequestIDMiddleware_def exec_bind implementsD [OF assms] Let_def split: prod.split)

lemma implements_gateway:
  "implements (p_gateway h c srv) (RequestIDMiddleware (audit_Handler main_audit (guarded h c srv)))"
  unfolding p_gateway_def p_guarded_def guarded_def
  by (intro implements_requestID implements_audit implements_auth implements_policy implements_atomically)

section \<open>Requests served at the same time\<close>

text \<open>
  What a thread did itself: each request it sent upstream, with all events before it, and the lines it
  wrote to the log.  The steps of a thread are recorded as they happen.
\<close>

record own =
  ow_sends :: "(event list \<times> event) list"
  ow_lines :: audit_out

definition nothing_yet :: own where
  "nothing_yet = \<lparr>ow_sends = [], ow_lines = []\<rparr>"

definition own_step :: "world \<Rightarrow> world \<Rightarrow> own \<Rightarrow> own" where
  "own_step s s' ow =
    \<lparr>ow_sends = ow_sends ow @ map (\<lambda>ev. (wd_events s, ev))
        (filter is_upstream (drop (length (wd_events s)) (wd_events s'))),
     ow_lines = ow_lines ow @ drop (length (wd_audit_out s)) (wd_audit_out s')\<rparr>"

record thread =
  th_request :: request
  th_own :: own
  th_proc :: "writer go proc"

record pool =
  pl_world :: world
  pl_threads :: "thread list"

definition new_thread :: "hydra_introspector \<Rightarrow> opa_client \<Rightarrow> server \<Rightarrow> env \<Rightarrow> request \<Rightarrow> conn \<Rightarrow> thread" where
  "new_thread h c srv env r c0 =
    \<lparr>th_request = r, th_own = nothing_yet, th_proc = p_gateway h c srv env r (Base c0)\<rparr>"

text \<open>A step of the server: a request arrives, or a thread does its next atomic step.\<close>

inductive pstep :: "hydra_introspector \<Rightarrow> opa_client \<Rightarrow> server \<Rightarrow> pool \<Rightarrow> pool \<Rightarrow> bool" for h c srv where
  arrive: "wf_path r \<Longrightarrow> req_tokenInfo r = None \<Longrightarrow> new_conn c0 \<Longrightarrow> wf_env env \<Longrightarrow>
    pstep h c srv \<pi> (\<pi>\<lparr>pl_threads := pl_threads \<pi> @ [new_thread h c srv env r c0]\<rparr>)"
| advance: "i < length (pl_threads \<pi>) \<Longrightarrow> t = pl_threads \<pi> ! i \<Longrightarrow> th_proc t = Atomic f \<Longrightarrow>
    f (pl_world \<pi>) = (p, s') \<Longrightarrow>
    pstep h c srv \<pi> \<lparr>pl_world = s', pl_threads = (pl_threads \<pi>)
      [i := t\<lparr>th_own := own_step (pl_world \<pi>) s' (th_own t), th_proc := p\<rparr>]\<rparr>"

definition no_threads :: pool where
  "no_threads = \<lparr>pl_world = init_world, pl_threads = []\<rparr>"

abbreviation pool_reach :: "hydra_introspector \<Rightarrow> opa_client \<Rightarrow> server \<Rightarrow> pool \<Rightarrow> bool" where
  "pool_reach h c srv \<pi> \<equiv> (pstep h c srv)\<^sup>*\<^sup>* no_threads \<pi>"

section \<open>Steps that others can rely on\<close>

text \<open>
  \<open>advances s s'\<close>: what every step of every thread guarantees: the cache holds only answers of Hydra,
  at most one event is added, and nothing is taken from the log.
\<close>

definition advances :: "world \<Rightarrow> world \<Rightarrow> bool" where
  "advances s s' \<longleftrightarrow> provenance s' \<and> (\<exists>new. wd_events s' = wd_events s @ new \<and> length new \<le> 1) \<and>
     (\<exists>ls. wd_audit_out s' = wd_audit_out s @ ls)"

text \<open>
  \<open>safe I Q p E ow\<close>: if the process has done \<open>ow\<close> and knows that the events \<open>E\<close> have happened, then
  whatever others do, each of its steps advances the world and keeps \<open>I\<close> of what it did, and when it is
  done \<open>Q\<close> holds of the events, what it did, and its result.
\<close>

primrec safe :: "(own \<Rightarrow> bool) \<Rightarrow> (event list \<Rightarrow> own \<Rightarrow> 'a \<Rightarrow> bool) \<Rightarrow> 'a proc \<Rightarrow> event list \<Rightarrow> own \<Rightarrow> bool" where
  "safe I Q (Done x) = (\<lambda>E ow. Q E ow x)"
| "safe I Q (Atomic f) = (\<lambda>E ow. \<forall>s. provenance s \<and> set E \<subseteq> set (wd_events s) \<longrightarrow>
    (case map_prod (safe I Q) id (f s) of (safe_rest, s') \<Rightarrow>
      advances s s' \<and> I (own_step s s' ow) \<and> safe_rest (wd_events s') (own_step s s' ow)))"

lemma advances_events: "advances s s' \<Longrightarrow> set (wd_events s) \<subseteq> set (wd_events s')"
  by (auto simp: advances_def)

lemma safe_step:
  assumes "safe I Q (Atomic f) E ow" "provenance s" "set E \<subseteq> set (wd_events s)" "f s = (p, s')"
  shows "advances s s'" "I (own_step s s' ow)" "safe I Q p (wd_events s') (own_step s s' ow)"
  using assms by (auto dest!: spec [of _ s])

lemma safe_bind:
  assumes "safe I Q p E ow"
    and "\<And>E' ow' x. set E \<subseteq> set E' \<Longrightarrow> Q E' ow' x \<Longrightarrow> safe I R (k x) E' ow'"
  shows "safe I R (bind_proc p k) E ow"
  using assms
proof (induction p arbitrary: E ow)
  case (Done x)
  then show ?case by simp
next
  case (Atomic f)
  have "(case map_prod (safe I R) id (map_prod (\<lambda>p. bind_proc p k) id (f s)) of (safe_rest, s') \<Rightarrow>
      advances s s' \<and> I (own_step s s' ow) \<and> safe_rest (wd_events s') (own_step s s' ow))"
    if s: "provenance s" "set E \<subseteq> set (wd_events s)" for s
  proof -
    obtain p s' where f: "f s = (p, s')" by fastforce
    note st = safe_step [OF Atomic.prems(1) s f]
    have r: "(p, s') \<in> range f" using f by (metis rangeI)
    have "set E \<subseteq> set (wd_events s')" using s(2) advances_events [OF st(1)] by blast
    then have "safe I R (bind_proc p k) (wd_events s') (own_step s s' ow)"
      using Atomic.IH [OF r _ st(3)] Atomic.prems(2) by (simp add: subset_trans)
    with st f show ?thesis by simp
  qed
  then show ?case by simp
qed

lemma safe_keeps: "safe I Q p E ow \<Longrightarrow> I ow \<Longrightarrow> safe I (\<lambda>E' ow' x. Q E' ow' x \<and> I ow') p E ow"
proof (induction p arbitrary: E ow)
  case (Done x)
  then show ?case by simp
next
  case (Atomic f)
  have "(case map_prod (safe I (\<lambda>E' ow' x. Q E' ow' x \<and> I ow')) id (f s) of (safe_rest, s') \<Rightarrow>
      advances s s' \<and> I (own_step s s' ow) \<and> safe_rest (wd_events s') (own_step s s' ow))"
    if s: "provenance s" "set E \<subseteq> set (wd_events s)" for s
  proof -
    obtain p s' where f: "f s = (p, s')" by fastforce
    then have r: "(p, s') \<in> range f" by (metis rangeI)
    note st = safe_step [OF Atomic.prems(1) s f]
    with Atomic.IH [OF r _ st(3,2)] f show ?thesis by simp
  qed
  then show ?case by simp
qed

text \<open>A step that sends nothing upstream and writes no line.\<close>

definition quiet :: "world \<Rightarrow> world \<Rightarrow> bool" where
  "quiet s s' \<longleftrightarrow> provenance s' \<and> wd_audit_out s' = wd_audit_out s \<and>
     (\<exists>new. wd_events s' = wd_events s @ new \<and> length new \<le> 1 \<and> filter is_upstream new = [])"

lemma quiet_own: "quiet s s' \<Longrightarrow> own_step s s' ow = ow"
  by (auto simp: quiet_def own_step_def)

lemma quiet_advances: "quiet s s' \<Longrightarrow> advances s s'"
  by (auto simp: quiet_def advances_def)

lemma safe_act:
  assumes "\<And>s x s'. provenance s \<Longrightarrow> set E \<subseteq> set (wd_events s) \<Longrightarrow> f s = (x, s') \<Longrightarrow>
    advances s s' \<and> I (own_step s s' ow) \<and> Q (wd_events s') (own_step s s' ow) x"
  shows "safe I Q (act f) E ow"
  using assms by (auto simp: act_def map_prod_def split: prod.split)

lemma safe_quiet:
  assumes "I ow" and "\<And>s x s'. provenance s \<Longrightarrow> set E \<subseteq> set (wd_events s) \<Longrightarrow> f s = (x, s') \<Longrightarrow>
      quiet s s' \<and> Q (wd_events s') ow x"
  shows "safe I Q (act f) E ow"
  by (rule safe_act) (use assms quiet_own quiet_advances in metis)

lemma safe_weaken:
  assumes "safe I Q p E ow" "\<And>E' ow' x. set E \<subseteq> set E' \<Longrightarrow> Q E' ow' x \<Longrightarrow> R E' ow' x"
  shows "safe I R p E ow"
proof -
  have "bind_proc p Done = p"
  proof (induction p)
    case (Atomic f)
    have "map_prod (\<lambda>p. bind_proc p Done) id (f s) = f s" for s
    proof -
      obtain p s' where f: "f s = (p, s')" by fastforce
      then have "(p, s') \<in> range f" by (metis rangeI)
      then have "bind_proc p Done = p" using Atomic.IH [of "(p, s')" p] by simp
      with f show ?thesis by simp
    qed
    then show ?case by simp
  qed simp
  with safe_bind [OF assms(1), of R Done] assms(2) show ?thesis by simp
qed

section \<open>The steps of one request\<close>

text \<open>
  Why a request \<open>r\<close> may cause the event \<open>ev\<close> after the events \<open>pre\<close>: its token is active, by an answer of
  Hydra among them, and the policy middleware let it pass.
\<close>

definition authorized :: "server \<Rightarrow> request \<Rightarrow> event list \<Rightarrow> event \<Rightarrow> bool" where
  "authorized srv r pre ev \<longleftrightarrow> req_path r \<noteq> ''/health'' \<and> (\<exists>token result i r' b.
     extractBearerToken r = Inr token \<and> ir_Active result \<and> introspected pre (hashToken token) result \<and>
     audited (WithRequestID i r) = Some r' \<and>
     forwarded srv ((with_token result r')\<lparr>req_body := b\<rparr>) ev \<and>
     policy_passed pre (with_token result r') b)"

definition rules :: "server \<Rightarrow> request \<Rightarrow> own \<Rightarrow> bool" where
  "rules srv r ow \<longleftrightarrow> length (ow_sends ow) \<le> 1 \<and> length (ow_lines ow) \<le> 1 \<and>
     (\<forall>(pre, ev) \<in> set (ow_sends ow). authorized srv r pre ev)"

lemma rules_nothing [simp]: "rules srv r nothing_yet"
  by (simp add: rules_def nothing_yet_def)

lemma quiet_refl: "provenance s \<Longrightarrow> quiet s s"
  by (simp add: quiet_def)

lemma quiet_tick: "provenance s \<Longrightarrow> quiet s (s\<lparr>wd_tick := t\<rparr>)"
  by (simp add: quiet_def provenance_def)

lemma quiet_readClock: "provenance s \<Longrightarrow> readClock env s = (x, s') \<Longrightarrow> quiet s s'"
  by (auto simp: readClock_def quiet_tick)

lemma quiet_cache:
  assumes "provenance s" "cache_contents c \<subseteq> insert (k, r) (cache_contents (wd_cache s))"
    and "introspected (wd_events s) k r"
  shows "quiet s (s\<lparr>wd_tick := t, wd_cache := c\<rparr>)"
  using assms by (auto simp: quiet_def provenance_def)

lemma quiet_cache_subset:
  assumes "provenance s" "cache_contents c \<subseteq> cache_contents (wd_cache s)"
  shows "quiet s (s\<lparr>wd_cache := c\<rparr>)"
  using assms by (auto simp: quiet_def provenance_def)

lemma quiet_emit: "provenance s \<Longrightarrow> \<not> is_upstream ev \<Longrightarrow> quiet s (emit ev s)"
  by (auto simp: quiet_def emit_def intro: provenance_events)

lemma cache_contents_delete:
  "cache_contents (c\<lparr>tc_entries := AList.delete k (tc_entries c)\<rparr>) \<subseteq> cache_contents c"
  unfolding cache_contents_def using set_delete_subset [of k "tc_entries c"] by (simp add: image_mono)

lemma safe_cacheGet:
  assumes "I ow"
  shows "safe I (\<lambda>E' ow' hit. ow' = ow \<and> (\<forall>result. hit = Some result \<longrightarrow> introspected E' (hashToken token) result))
    (p_cacheGet env token) E ow"
  unfolding p_cacheGet_def
proof (rule safe_bind)
  show "safe I (\<lambda>E' ow' entry. ow' = ow \<and>
      (\<forall>e. entry = Some e \<longrightarrow> introspected E' (hashToken token) (ce_result e)))
    (act (\<lambda>s. (map_of (tc_entries (wd_cache s)) (hashToken token), s))) E ow"
  proof (rule safe_quiet [where I = I and ow = ow, OF assms])
    fix s x s' assume s: "provenance s" "(map_of (tc_entries (wd_cache s)) (hashToken token), s) = (x, s')"
    have "(hashToken token, ce_result e) \<in> cache_contents (wd_cache s)" if "x = Some e" for e
      using s(2) that by (force simp: cache_contents_def dest: map_of_SomeD)
    then show "quiet s s' \<and> ow = ow \<and> (\<forall>e. x = Some e \<longrightarrow> introspected (wd_events s') (hashToken token) (ce_result e))"
      using s by (auto simp: quiet_refl provenance_def)
  qed
next
  fix E1 ow1 and entry :: "cache_entry option"
  assume e: "ow1 = ow \<and> (\<forall>e. entry = Some e \<longrightarrow> introspected E1 (hashToken token) (ce_result e))"
  let ?Q = "\<lambda>E' ow' hit. ow' = ow \<and> (\<forall>result. hit = Some result \<longrightarrow> introspected E' (hashToken token) result)"
  show "safe I ?Q (case entry of None \<Rightarrow> Done None
    | Some e \<Rightarrow> bind_proc (act (readClock env)) (\<lambda>now.
        if ce_expiresAt e < now
        then bind_proc (act (\<lambda>s. ((), s\<lparr>wd_cache := (wd_cache s)\<lparr>tc_entries :=
            AList.delete (hashToken token) (tc_entries (wd_cache s))\<rparr>\<rparr>))) (\<lambda>_. Done None)
        else Done (Some (ce_result e)))) E1 ow1"
  proof (cases entry)
    case None
    with e show ?thesis by simp
  next
    case (Some en)
    have clock: "safe I (\<lambda>E' ow' now. ow' = ow \<and> introspected E' (hashToken token) (ce_result en))
        (act (readClock env)) E1 ow"
      by (rule safe_quiet [where I = I and ow = ow, OF assms])
        (use e Some in \<open>auto intro: quiet_readClock introspected_mono simp: readClock_def\<close>)
    have del: "safe I (\<lambda>E' ow' x. ow' = ow) (act (\<lambda>s. ((), s\<lparr>wd_cache := (wd_cache s)\<lparr>tc_entries :=
            AList.delete (hashToken token) (tc_entries (wd_cache s))\<rparr>\<rparr>))) E2 ow" for E2
      by (rule safe_quiet [where I = I and ow = ow, OF assms])
        (auto intro: quiet_cache_subset [OF _ cache_contents_delete])
    show ?thesis
      unfolding Some option.case e [THEN conjunct1]
      by (rule safe_bind [OF clock]) (auto intro!: safe_bind [OF del])
  qed
qed

lemma safe_cacheSet:
  assumes "I ow" "introspected E (hashToken token) result"
  shows "safe I (\<lambda>E' ow' x. ow' = ow) (p_cacheSet env token result) E ow"
  unfolding p_cacheSet_def
proof (rule safe_bind)
  show "safe I (\<lambda>E' ow' x. ow' = ow \<and> introspected E' (hashToken token) result)
    (act (\<lambda>s. if 0 < ir_ExpiresAt result
        then (let (now, s') = readClock env s in (entry_ttl (wd_cache s) result now, s'))
        else (Some (tc_ttl (wd_cache s)), s))) E ow"
    by (rule safe_quiet [where I = I and ow = ow, OF assms(1)])
      (use assms(2) in \<open>auto intro: quiet_tick quiet_refl introspected_mono simp: readClock_def split: if_splits\<close>)
next
  fix E1 ow1 and ttl :: "int option"
  assume "ow1 = ow \<and> introspected E1 (hashToken token) result"
  then have ow1: "ow1 = ow" and i: "introspected E1 (hashToken token) result" by auto
  have "safe I (\<lambda>E' ow' x. ow' = ow) (act (w_cacheStore env token result n)) E1 ow" for n
  proof (rule safe_quiet [where I = I and ow = ow, OF assms(1)])
    fix s x s' assume s: "provenance s" "set E1 \<subseteq> set (wd_events s)" "w_cacheStore env token result n s = (x, s')"
    obtain t c where c: "cacheStore (env_range env) (env_clock env) (hashToken token) result n (wd_tick s, wd_cache s) = (t, c)"
      by fastforce
    have "cache_contents c \<subseteq> insert (hashToken token, result) (cache_contents (wd_cache s))"
      using cacheStore_contents [of "env_range env" "env_clock env" "hashToken token" result n "wd_tick s" "wd_cache s"] c
      by simp
    with s c i show "quiet s s' \<and> ow = ow"
      by (auto simp: w_cacheStore_def intro: quiet_cache introspected_mono)
  qed
  then show "safe I (\<lambda>E' ow' x. ow' = ow)
    (case ttl of None \<Rightarrow> Done () | Some n \<Rightarrow> act (w_cacheStore env token result n)) E1 ow1"
    using ow1 by (cases ttl) simp_all
qed

lemma safe_Introspect:
  assumes "I ow"
  shows "safe I (\<lambda>E' ow' a. ow' = ow \<and> (\<forall>result. a = Inr result \<longrightarrow> introspected E' (hashToken token) result))
    (act (Introspect h env token)) E ow"
proof (rule safe_quiet [where I = I and ow = ow, OF assms])
  fix s x s' assume s: "provenance s" "Introspect h env token s = (x, s')"
  have "quiet s s'" using s by (auto simp: Introspect_def introspect_request_eq Let_def quiet_emit)
  with s hydra.introspect_evidence show "quiet s s' \<and> ow = ow \<and>
      (\<forall>result. x = Inr result \<longrightarrow> introspected (wd_events s') (hashToken token) result)" by blast
qed

lemma safe_Evaluate:
  assumes "I ow"
  shows "safe I (\<lambda>E' ow' a. ow' = ow \<and> (a = Inr True \<longrightarrow> opa_allowed E' i)) (act (Evaluate c env i)) E ow"
proof (rule safe_quiet [where I = I and ow = ow, OF assms])
  fix s x s' assume s: "provenance s" "Evaluate c env i s = (x, s')"
  have "quiet s s'" using s by (auto simp: Evaluate_def policy_request_eq Let_def quiet_emit)
  with s opa.evaluate_evidence show "quiet s s' \<and> ow = ow \<and> (x = Inr True \<longrightarrow> opa_allowed (wd_events s') i)" by blast
qed

text \<open>What the writer has become, as \<open>handled\<close> says it of a handler.\<close>

definition responded :: "string \<Rightarrow> writer go \<Rightarrow> bool" where
  "responded x res \<longleftrightarrow> (case res of
     Ret w \<Rightarrow> \<exists>st. answered x st w | Panic w \<Rightarrow> pending x w | Hang w \<Rightarrow> \<exists>st. answered x st w)"

lemma responded_handled: "handled x res \<Longrightarrow> responded x (go_map fst res)"
  by (cases res) (auto simp: handled_def responded_def)

lemma responded_simps [simp]:
  "responded x (Ret w) \<longleftrightarrow> (\<exists>st. answered x st w)" "responded x (Panic w) \<longleftrightarrow> pending x w"
  "responded x (Hang w) \<longleftrightarrow> (\<exists>st. answered x st w)"
  by (simp_all add: responded_def)

text \<open>The last step: the proxy, for a request that has been let through.\<close>

lemma safe_mux:
  assumes "wf_env env" "pending x w" "policy_passed E r b"
    and "\<And>pre ev. set E \<subseteq> set pre \<Longrightarrow> forwarded srv (r\<lparr>req_body := b\<rparr>) ev \<Longrightarrow> policy_passed pre r b \<Longrightarrow>
      authorized srv r0 pre ev"
  shows "safe (rules srv r0) (\<lambda>E' ow res. ow_lines ow = [] \<and> responded x res)
    (atomically (mux_ServeHTTP srv) env (r\<lparr>req_body := b\<rparr>) w) E nothing_yet"
  unfolding atomically_def
proof (rule safe_act)
  let ?r = "r\<lparr>req_body := b\<rparr>"
  fix s res s'
  assume s: "provenance s" "set E \<subseteq> set (wd_events s)"
    and m: "(let res = mux_ServeHTTP srv env ?r w s in (go_map fst res, snd (go_state res))) = (res, s')"
  have res: "responded x res"
    using responded_handled [OF handled_mux [OF assms(1,2), of srv ?r s]] m by (simp add: Let_def)
  obtain w' s2 where g2: "go_state (mux_ServeHTTP srv env ?r w s) = (w', s2)" by fastforce
  with m have g: "go_state (mux_ServeHTTP srv env ?r w s) = (w', s')" by (simp add: Let_def)
  show "advances s s' \<and> rules srv r0 (own_step s s' nothing_yet) \<and>
      ow_lines (own_step s s' nothing_yet) = [] \<and> responded x res"
    using g
  proof (cases rule: mux_sends)
    case none
    have "quiet s s'" using none sends_frame(2) [OF none s(1)] by (simp add: quiet_def sends_def)
    then show ?thesis using res by (simp add: quiet_own quiet_advances nothing_yet_def rules_def)
  next
    case (sent ev)
    note fr = sends_frame(2) [OF sent(1) s(1)]
    have up: "is_upstream ev" using sent(2) by (rule forwarded_upstream)
    have "authorized srv r0 (wd_events s) ev"
      using assms(4) s(2) sent(2) policy_passed_mono [OF assms(3) s(2)] by blast
    with sent(1) up fr res show ?thesis
      by (simp add: advances_def sends_def rules_def own_step_def nothing_yet_def)
  qed
qed

lemma safe_policy:
  assumes "wf_env env" "pending x w" "req_path r \<noteq> ''/health''"
    and "\<And>pre ev b. set E \<subseteq> set pre \<Longrightarrow> forwarded srv (r\<lparr>req_body := b\<rparr>) ev \<Longrightarrow> policy_passed pre r b \<Longrightarrow>
      authorized srv r0 pre ev"
  shows "safe (rules srv r0) (\<lambda>E' ow res. ow_lines ow = [] \<and> responded x res)
    (p_policy (main_policy c) (atomically (mux_ServeHTTP srv)) env r w) E nothing_yet"
proof (cases "req_method r = ''POST''")
  case False
  have "safe (rules srv r0) (\<lambda>E' ow res. ow_lines ow = [] \<and> responded x res)
      (atomically (mux_ServeHTTP srv) env (r\<lparr>req_body := req_body r\<rparr>) w) E nothing_yet"
    by (rule safe_mux [OF assms(1,2)]) (use False in \<open>simp add: policy_passed_def\<close>, rule assms(4))
  with False assms(3) show ?thesis by (simp add: p_policy_def)
next
  case post: True
  have forbid: "responded x (Ret (writeForbidden w d))" for d
    using answered_writeForbidden [OF assms(2)] by auto
  show ?thesis
  proof (cases "buildInput r")
    case None
    with post assms(2,3) show ?thesis by (simp add: p_policy_def nothing_yet_def)
  next
    case (Some z)
    obtain i p r' where z: "z = ((i, p), r')" by (cases z) auto
    with Some obtain b where b: "r' = r\<lparr>req_body := b\<rparr>" using buildInput_frame by blast
    show ?thesis
    proof (cases i)
      case None
      have "p" using buildInput_proceed Some z None by blast
      then have "policy_passed E r b" using Some z None b by (simp add: policy_passed_def)
      from safe_mux [OF assms(1,2) this] assms(4) post Some z None b \<open>p\<close> assms(3) show ?thesis
        by (simp add: p_policy_def)
    next
      case i: (Some inp)
      have "safe (rules srv r0) (\<lambda>E' ow res. ow_lines ow = [] \<and> responded x res)
        (case answer of Inl err \<Rightarrow> Done (Ret (writeForbidden w ''policy evaluation unavailable''))
          | Inr allowed \<Rightarrow> if \<not> allowed then Done (Ret (writeForbidden w ''denied by policy''))
             else atomically (mux_ServeHTTP srv) env r' w) E1 nothing_yet"
        if E1: "set E \<subseteq> set E1" "answer = Inr True \<longrightarrow> opa_allowed E1 inp" for E1 answer
      proof (cases "answer = Inr True")
        case True
        with E1 have "policy_passed E1 r b" using Some z i b by (auto simp: policy_passed_def)
        from safe_mux [OF assms(1,2) this] assms(4) E1 True b show ?thesis by (simp add: subset_trans)
      next
        case False
        then consider err where "answer = Inl err" | "answer = Inr False" by (cases answer) auto
        then show ?thesis by cases (use forbid in \<open>simp_all add: nothing_yet_def\<close>)
      qed
      note step = this
      have "p_policy (main_policy c) (atomically (mux_ServeHTTP srv)) env r w =
        bind_proc (act (Evaluate c env inp)) (\<lambda>answer. case answer of
            Inl err \<Rightarrow> Done (Ret (writeForbidden w ''policy evaluation unavailable''))
          | Inr allowed \<Rightarrow> if \<not> allowed then Done (Ret (writeForbidden w ''denied by policy''))
             else atomically (mux_ServeHTTP srv) env r' w)"
        using post Some z i assms(3) by (simp add: p_policy_def)
      then show ?thesis
        by (simp only:) (rule safe_bind [OF safe_Evaluate [where I = "rules srv r0" and ow = nothing_yet and i = inp]];
          use step in auto)
    qed
  qed
qed

text \<open>
  What a request is answered with behind the audit middleware: 401 and nothing sent upstream, or the
  answer for a client that Hydra vouched for.
\<close>

definition identified :: "request \<Rightarrow> event list \<Rightarrow> own \<Rightarrow> string \<Rightarrow> nat \<Rightarrow> bool" where
  "identified r E ow x st \<longleftrightarrow> x = [] \<and> st = StatusUnauthorized \<and> ow_sends ow = [] \<or>
     (\<exists>token result. extractBearerToken r = Inr token \<and> ir_Active result \<and>
        introspected E (hashToken token) result \<and> x = ir_ClientID result)"

definition guarded_done :: "request \<Rightarrow> event list \<Rightarrow> own \<Rightarrow> writer go \<Rightarrow> bool" where
  "guarded_done r E ow res \<longleftrightarrow> ow_lines ow = [] \<and>
     (\<forall>w. res = Ret w \<longrightarrow> (\<exists>x st. answered x st w \<and> identified r E ow x st))"

lemma guarded_done_denied:
  "pending [] w \<Longrightarrow> guarded_done r E nothing_yet (Ret (writeUnauthorized w d))"
  using answered_writeUnauthorized [of "[]" w d] by (fastforce simp: guarded_done_def nothing_yet_def identified_def)

lemma guarded_done_passed:
  assumes "ow_lines ow = [] \<and> responded (ir_ClientID result) res"
    and "extractBearerToken r = Inr token" "ir_Active result" "introspected E (hashToken token) result"
  shows "guarded_done r E ow res"
  using assms by (cases res) (auto simp: guarded_done_def identified_def)

lemma safe_auth:
  assumes "wf_env env" "pending [] w" "req_path r0 \<noteq> ''/health''" "audited (WithRequestID i r0) = Some r"
  shows "safe (rules srv r0) (guarded_done r0) (p_guarded h c srv env r w) E nothing_yet"
proof -
  let ?I = "rules srv r0" and ?next = "p_policy (main_policy c) (atomically (mux_ServeHTTP srv))"
  obtain b where b: "r = (WithRequestID i r0)\<lparr>req_body := b\<rparr>" using audited_frame [OF assms(4)] by blast
  have path: "req_path r \<noteq> ''/health''" using assms(3) b by simp
  have tok: "extractBearerToken r = extractBearerToken r0" using b by (intro extractBearerToken_cong) simp
  have pass: "safe ?I (guarded_done r0) (?next env (with_token result r) (with_audit_id result w)) E1 nothing_yet"
    if t: "extractBearerToken r = Inr token" "ir_Active result" "introspected E1 (hashToken token) result"
    for token result E1
  proof (rule safe_weaken)
    show "safe ?I (\<lambda>E' ow res. ow_lines ow = [] \<and> responded (ir_ClientID result) res)
        (?next env (with_token result r) (with_audit_id result w)) E1 nothing_yet"
    proof (rule safe_policy [OF assms(1) pending_with_audit_id [OF assms(2)]])
      fix pre ev b
      assume "set E1 \<subseteq> set pre" "forwarded srv ((with_token result r)\<lparr>req_body := b\<rparr>) ev"
        "policy_passed pre (with_token result r) b"
      with t tok assms(3,4) introspected_mono show "authorized srv r0 pre ev"
        unfolding authorized_def by metis
    qed (use path in simp)
    fix E' res and ow :: own
    assume "set E1 \<subseteq> set E'" "ow_lines ow = [] \<and> responded (ir_ClientID result) res"
    with t tok show "guarded_done r0 E' ow res" by (auto intro: guarded_done_passed introspected_mono)
  qed
  show ?thesis
  proof (cases "extractBearerToken r")
    case (Inl err)
    with path guarded_done_denied [OF assms(2)] show ?thesis by (simp add: p_guarded_def p_auth_def)
  next
    case (Inr token)
    define after where "after = (\<lambda>answer :: introspect_error + introspection. case answer of
           Inl err \<Rightarrow> Done (Ret (writeUnauthorized w ''token verification failed''))
         | Inr result \<Rightarrow> bind_proc (p_cacheSet env token result) (\<lambda>_.
             if \<not> ir_Active result then Done (Ret (writeUnauthorized w ''token is not active''))
             else ?next env (with_token result r) (with_audit_id result w)))"
    have after: "safe ?I (guarded_done r0) (after answer) E1 nothing_yet"
      if "\<forall>result. answer = Inr result \<longrightarrow> introspected E1 (hashToken token) result" for answer E1
    proof (cases answer)
      case (Inl err)
      with guarded_done_denied [OF assms(2)] show ?thesis by (simp add: after_def)
    next
      case a: (Inr result)
      with that have i: "introspected E1 (hashToken token) result" by blast
      show ?thesis
        unfolding a after_def sum.case
        by (rule safe_bind [OF safe_cacheSet [where I = ?I and ow = nothing_yet, OF _ i]])
          (use pass [OF Inr] i introspected_mono guarded_done_denied [OF assms(2)] in auto)
    qed
    have "p_guarded h c srv env r w = bind_proc (p_cacheGet env token) (\<lambda>hit. case hit of
         Some result \<Rightarrow>
           if ir_Active result then ?next env (with_token result r) (with_audit_id result w)
           else Done (Ret (writeUnauthorized w ''token is not active''))
       | None \<Rightarrow> bind_proc (act (Introspect h env token)) after)"
      using path Inr by (simp add: p_guarded_def p_auth_def after_def cong: option.case_cong)
    moreover have "safe ?I (guarded_done r0) (bind_proc (act (Introspect h env token)) after) E1 nothing_yet" for E1
      by (rule safe_bind [OF safe_Introspect [where I = ?I and ow = nothing_yet and token = token]]) (use after in auto)
    ultimately show ?thesis
      by (simp only:) (rule safe_bind [OF safe_cacheGet [where I = ?I and ow = nothing_yet]];
        use pass [OF Inr] guarded_done_denied [OF assms(2)] in \<open>auto split: option.split\<close>)
  qed
qed

text \<open>What a finished request has left: one line with the decision and the client, or none.\<close>

definition gateway_done :: "request \<Rightarrow> event list \<Rightarrow> own \<Rightarrow> writer go \<Rightarrow> bool" where
  "gateway_done r E ow res \<longleftrightarrow> (case res of
     Ret w \<Rightarrow>
       if req_path r = ''/health'' then ow_lines ow = []
       else \<exists>e c st x. w = Base c \<and> ow_lines ow = [log_attrs e] \<and> e_Decision e = decision_of st \<and>
         e_Metadata e = metadata_of r st \<and> (final_status st \<longrightarrow> (\<exists>hd. c_sent c = Some (st, hd))) \<and>
         e_ClientID e = (if x = [] then unknownValue else x) \<and> identified r E ow x st
   | Panic w \<Rightarrow> ow_lines ow = []
   | Hang w \<Rightarrow> ow_lines ow = [])"

lemma identified_mono: "identified r E ow x st \<Longrightarrow> set E \<subseteq> set E' \<Longrightarrow> identified r E' ow x st"
  unfolding identified_def using introspected_mono by blast

lemma quiet_generateID: "provenance s \<Longrightarrow> w_generateID env s = (i, s') \<Longrightarrow> quiet s s'"
  using w_generateID_frame [of env s i s'] by (simp add: quiet_def provenance_def)

lemma quiet_NewEntry:
  assumes "provenance s" "w_NewEntry env r tool captured st s = (e, s')"
  shows "quiet s s'" "e_ClientID e = client_of captured r" "e_Decision e = decision_of st"
    "e_Metadata e = metadata_of r st"
proof -
  obtain i s1 where i: "w_generateID env s = (i, s1)" by fastforce
  obtain n s2 where n: "readClock env s1 = (n, s2)" by fastforce
  note w_generateID_frame [OF i] readClock_frame [OF n]
  then show "quiet s s'" "e_ClientID e = client_of captured r" "e_Decision e = decision_of st"
    "e_Metadata e = metadata_of r st"
    using assms by (auto simp: w_NewEntry_def i n quiet_def provenance_def NewEntry_def)
qed

lemma safe_log:
  assumes "rules srv r0 ow" "ow_lines ow = []"
  shows "safe (rules srv r0) (\<lambda>E' ow' x. set E \<subseteq> set E' \<and> (\<exists>e. ow_sends ow' = ow_sends ow \<and>
      ow_lines ow' = [log_attrs e] \<and> e_ClientID e = client_of captured r \<and> e_Decision e = decision_of st \<and>
      e_Metadata e = metadata_of r st))
    (p_log env r tool captured st) E ow"
  unfolding p_log_def
proof (rule safe_bind)
  let ?entry = "\<lambda>e :: entry. e_ClientID e = client_of captured r \<and> e_Decision e = decision_of st \<and> e_Metadata e = metadata_of r st"
  show "safe (rules srv r0) (\<lambda>E' ow' e. set E \<subseteq> set E' \<and> ow' = ow \<and> ?entry e)
      (act (w_NewEntry env r tool captured st)) E ow"
    by (rule safe_quiet [where I = "rules srv r0" and ow = ow, OF assms(1)])
      (use quiet_NewEntry in \<open>fastforce simp: quiet_def\<close>)
  fix E1 ow1 and e :: entry assume e: "set E \<subseteq> set E1 \<and> ow1 = ow \<and> ?entry e"
  let ?ow2 = "ow\<lparr>ow_lines := [log_attrs e]\<rparr>"
  have r2: "rules srv r0 ?ow2" using assms(1) by (simp add: rules_def)
  have own: "own_step s (s\<lparr>wd_audit_out := wd_audit_out s @ [log_attrs e]\<rparr>) ow = ?ow2" for s
    using assms(2) by (cases ow) (simp add: own_step_def)
  have line: "safe (rules srv r0) (\<lambda>E' ow' x. set E1 \<subseteq> set E' \<and> ow' = ?ow2)
      (act (\<lambda>s. ((), s\<lparr>wd_audit_out := wd_audit_out s @ [log_attrs e]\<rparr>))) E1 ow"
    by (rule safe_act) (use r2 own in \<open>auto simp: advances_def provenance_def\<close>)
  have store: "safe (rules srv r0) (\<lambda>E' ow' x. set E1 \<subseteq> set E' \<and> ow' = ?ow2)
      (act (\<lambda>s. ((), s\<lparr>wd_store := Append e (wd_store s)\<rparr>))) E2 ?ow2" if "set E1 \<subseteq> set E2" for E2
    by (rule safe_quiet [where I = "rules srv r0" and ow = ?ow2, OF r2])
      (use that in \<open>auto simp: quiet_def provenance_def\<close>)
  show "safe (rules srv r0) (\<lambda>E' ow' x. set E \<subseteq> set E' \<and> (\<exists>e. ow_sends ow' = ow_sends ow \<and>
      ow_lines ow' = [log_attrs e] \<and> ?entry e))
    (bind_proc (act (\<lambda>s. ((), s\<lparr>wd_audit_out := wd_audit_out s @ [log_attrs e]\<rparr>)))
      (\<lambda>_. act (\<lambda>s. ((), s\<lparr>wd_store := Append e (wd_store s)\<rparr>)))) E1 ow1"
    unfolding e [THEN conjunct2, THEN conjunct1]
  proof (rule safe_bind [OF line])
    fix E2 ow2 and x :: unit
    assume a: "set E1 \<subseteq> set E2 \<and> ow2 = ?ow2"
    then have ow2: "ow2 = ?ow2" and E2: "set E1 \<subseteq> set E2" by auto
    show "safe (rules srv r0) (\<lambda>E' ow' x. set E \<subseteq> set E' \<and> (\<exists>e. ow_sends ow' = ow_sends ow \<and>
        ow_lines ow' = [log_attrs e] \<and> ?entry e)) (act (\<lambda>s. ((), s\<lparr>wd_store := Append e (wd_store s)\<rparr>))) E2 ow2"
      unfolding ow2 by (rule safe_weaken [OF store [OF E2]]) (use e in auto)
  qed
qed

lemma safe_audit:
  assumes "wf_env env" "new_conn c0" "req_path r \<noteq> ''/health''" "req_tokenInfo r = None"
  shows "safe (rules srv r) (gateway_done r) (p_audit main_audit (p_guarded h c srv) env (WithRequestID i r)
    (w_set_header (hset RequestIDHeader i) (Base c0))) E nothing_yet"
proof (cases "audit_prepare (WithRequestID i r)")
  case None
  with assms(3) show ?thesis by (simp add: p_audit_def gateway_done_def nothing_yet_def)
next
  case (Some z)
  then obtain tool r' where z: "audit_prepare (WithRequestID i r) = Some (tool, r')" by (cases z) auto
  then have aud: "audited (WithRequestID i r) = Some r'" by (simp add: audited_def)
  obtain b where b: "r' = (WithRequestID i r)\<lparr>req_body := b\<rparr>" using audited_frame [OF aud] by blast
  have meta: "metadata_of r' = metadata_of r" "req_tokenInfo r' = None"
    using b assms(4) by (auto simp: metadata_of_def)
  let ?w = "StatusRecorder (w_set_header (hset RequestIDHeader i) (Base c0)) [] 0"
  note g = safe_auth [OF assms(1) pending_new [OF assms(2) audit_free_requestID] assms(3) aud]
  have "p_audit main_audit (p_guarded h c srv) env (WithRequestID i r) (w_set_header (hset RequestIDHeader i) (Base c0)) =
    bind_proc (p_guarded h c srv env r' ?w) (\<lambda>res. case res of
         Ret rec \<Rightarrow> bind_proc (p_log env r' tool (captured_clientID rec) (captured_status rec))
           (\<lambda>_. Done (Ret (inner_writer rec)))
       | Panic rec \<Rightarrow> Done (Panic (inner_writer rec))
       | Hang rec \<Rightarrow> Done (Hang (inner_writer rec)))"
    using z assms(3) by (simp add: p_audit_def)
  moreover have "safe (rules srv r) (gateway_done r) (case res of
         Ret rec \<Rightarrow> bind_proc (p_log env r' tool (captured_clientID rec) (captured_status rec))
           (\<lambda>_. Done (Ret (inner_writer rec)))
       | Panic rec \<Rightarrow> Done (Panic (inner_writer rec))
       | Hang rec \<Rightarrow> Done (Hang (inner_writer rec))) E1 ow"
    if d: "guarded_done r E1 ow res" "rules srv r ow" for E1 ow res
  proof (cases res)
    case (Ret rec)
    with d obtain x st where a: "answered x st rec" "identified r E1 ow x st" "ow_lines ow = []"
      by (auto simp: guarded_done_def)
    obtain c' where c': "inner_writer rec = Base c'" "captured_clientID rec = x" "captured_status rec = st"
      "final_status st \<Longrightarrow> \<exists>h. c_sent c' = Some (st, h)"
      using answered_inner [OF a(1)] by blast
    have "gateway_done r E' ow' (Ret (Base c'))"
      if "set E1 \<subseteq> set E'" "ow_sends ow' = ow_sends ow" "ow_lines ow' = [log_attrs e]"
        "e_ClientID e = client_of x r'" "e_Decision e = decision_of st" "e_Metadata e = metadata_of r' st"
      for E' ow' and e :: entry
    proof -
      have "identified r E' ow' x st" using identified_mono [OF a(2) that(1)] that(2) by (simp add: identified_def)
      moreover have "e_ClientID e = (if x = [] then unknownValue else x)"
        using that(4) meta(2) by (simp add: client_of_def)
      ultimately show ?thesis
        unfolding gateway_done_def go.case using that(3,5,6) c'(4) assms(3) meta(1)
        by (simp only: if_False) (intro exI [of _ e] exI [of _ c'] exI [of _ st] exI [of _ x]; blast)
    qed
    then show ?thesis
      unfolding Ret go.case c'
      by (intro safe_bind [OF safe_log [OF d(2) a(3)]]) auto
  qed (use d in \<open>simp_all add: gateway_done_def guarded_done_def\<close>)
  ultimately show ?thesis
    by (simp only:) (rule safe_bind [OF safe_keeps [OF g rules_nothing]]; blast)
qed

lemma safe_health:
  assumes "wf_path r" "req_path r = ''/health''"
  shows "safe (rules srv r) (gateway_done r)
    (p_audit main_audit (p_guarded h c srv) env (WithRequestID i r) w) E nothing_yet"
proof -
  let ?r = "WithRequestID i r"
  have "mux_route ?r = RouteHealth" using assms by (intro health_route) (simp_all add: wf_path_def)
  then have m: "mux_ServeHTTP srv env ?r w s = handleHealth env ?r w s" for s by (simp add: mux_ServeHTTP_def)
  have "p_audit main_audit (p_guarded h c srv) env ?r w = atomically (mux_ServeHTTP srv) env ?r w"
    using assms(2) by (simp add: p_audit_def p_guarded_def p_auth_def p_policy_def)
  moreover have "safe (rules srv r) (gateway_done r) (atomically (mux_ServeHTTP srv) env ?r w) E nothing_yet"
    unfolding atomically_def
    by (rule safe_quiet [where I = "rules srv r" and ow = nothing_yet, OF rules_nothing])
      (use assms(2) in \<open>auto simp: m handleHealth_def Let_def quiet_refl gateway_done_def nothing_yet_def\<close>)
  ultimately show ?thesis by simp
qed

lemma safe_gateway:
  assumes "wf_path r" "req_tokenInfo r = None" "new_conn c0" "wf_env env"
  shows "safe (rules srv r) (gateway_done r) (p_gateway h c srv env r (Base c0)) E nothing_yet"
  unfolding p_gateway_def p_requestID_def Let_def
proof (rule safe_bind)
  let ?given = "hget (req_header r) RequestIDHeader"
  show "safe (rules srv r) (\<lambda>E' ow' i. ow' = nothing_yet)
    (if ?given = [] then act (w_generateID env)
     else if maxHeaderValueLen < length ?given then Done (take maxHeaderValueLen ?given) else Done ?given) E nothing_yet"
    using safe_quiet [where I = "rules srv r" and ow = nothing_yet and f = "w_generateID env" and
        Q = "\<lambda>E' ow' i. ow' = nothing_yet" and E = E, OF rules_nothing] quiet_generateID
    by auto
  fix E1 ow1 i assume "ow1 = nothing_yet"
  then show "safe (rules srv r) (gateway_done r) (p_audit main_audit (p_guarded h c srv) env (WithRequestID i r)
      (w_set_header (hset RequestIDHeader i) (Base c0))) E1 ow1"
    using safe_health [OF assms(1)] safe_audit [OF assms(4,3) _ assms(2)]
    by (cases "req_path r = ''/health''") simp_all
qed

section \<open>The invariant of the server\<close>

definition sends_in :: "event list \<Rightarrow> own \<Rightarrow> bool" where
  "sends_in evs ow \<longleftrightarrow> (\<forall>(pre, ev) \<in> set (ow_sends ow). \<exists>post. evs = pre @ ev # post)"

definition thread_ok :: "server \<Rightarrow> event list \<Rightarrow> thread \<Rightarrow> bool" where
  "thread_ok srv evs t \<longleftrightarrow> rules srv (th_request t) (th_own t) \<and>
     (\<exists>E. set E \<subseteq> set evs \<and>
        safe (rules srv (th_request t)) (gateway_done (th_request t)) (th_proc t) E (th_own t)) \<and>
     sends_in evs (th_own t)"

definition pool_inv :: "server \<Rightarrow> pool \<Rightarrow> bool" where
  "pool_inv srv \<pi> \<longleftrightarrow> provenance (pl_world \<pi>) \<and>
     (\<forall>t \<in> set (pl_threads \<pi>). thread_ok srv (wd_events (pl_world \<pi>)) t) \<and>
     (\<forall>pre ev post. wd_events (pl_world \<pi>) = pre @ ev # post \<and> is_upstream ev \<longrightarrow>
        (\<exists>t \<in> set (pl_threads \<pi>). (pre, ev) \<in> set (ow_sends (th_own t)))) \<and>
     mset (wd_audit_out (pl_world \<pi>)) = sum_list (map (\<lambda>t. mset (ow_lines (th_own t))) (pl_threads \<pi>))"

lemma thread_ok_new:
  assumes "wf_path r" "req_tokenInfo r = None" "new_conn c0" "wf_env env"
  shows "thread_ok srv evs (new_thread h c srv env r c0)"
  using safe_gateway [OF assms] by (auto simp: thread_ok_def new_thread_def nothing_yet_def rules_def sends_in_def)

lemma sends_in_append: "sends_in evs ow \<Longrightarrow> sends_in (evs @ new) ow"
  by (auto simp: sends_in_def dest!: bspec)

lemma thread_ok_others:
  assumes "thread_ok srv evs t"
  shows "thread_ok srv (evs @ new) t"
proof -
  obtain E where "set E \<subseteq> set evs"
    "safe (rules srv (th_request t)) (gateway_done (th_request t)) (th_proc t) E (th_own t)"
    using assms by (auto simp: thread_ok_def)
  moreover from this(1) have "set E \<subseteq> set (evs @ new)" by auto
  ultimately show ?thesis using assms sends_in_append unfolding thread_ok_def by blast
qed

lemma own_step_sends:
  assumes "wd_events s' = wd_events s @ new"
  shows "ow_sends (own_step s s' ow) = ow_sends ow @ map (\<lambda>ev. (wd_events s, ev)) (filter is_upstream new)"
  using assms by (simp add: own_step_def)

lemma short_list: "length new \<le> 1 \<Longrightarrow> new = [] \<or> (\<exists>x. new = [x])"
  by (cases new) auto

lemma thread_ok_step:
  assumes "thread_ok srv (wd_events s) t" "provenance s" "th_proc t = Atomic f" "f s = (p, s')"
  defines "t' \<equiv> t\<lparr>th_own := own_step s s' (th_own t), th_proc := p\<rparr>"
  shows "thread_ok srv (wd_events s') t'" "advances s s'"
proof -
  obtain E where E: "set E \<subseteq> set (wd_events s)"
    "safe (rules srv (th_request t)) (gateway_done (th_request t)) (Atomic f) E (th_own t)"
    using assms(1,3) by (auto simp: thread_ok_def)
  note st = safe_step [OF E(2) assms(2) E(1) assms(4)]
  show "advances s s'" by (rule st)
  then obtain new where new: "wd_events s' = wd_events s @ new" "length new \<le> 1" by (auto simp: advances_def)
  have "sends_in (wd_events s) (th_own t)" using assms(1) by (simp add: thread_ok_def)
  then have "sends_in (wd_events s') (own_step s s' (th_own t))"
    using sends_in_append [of "wd_events s" "th_own t" new] short_list [OF new(2)]
    by (auto simp: sends_in_def own_step_sends [OF new(1)] new(1))
  with st show "thread_ok srv (wd_events s') t'" by (auto simp: thread_ok_def t'_def)
qed

lemma sum_list_upd:
  "i < length xs \<Longrightarrow> sum_list (map g (xs[i := x])) + g (xs ! i) = sum_list (map g xs) + (g x :: 'a multiset)"
proof -
  assume i: "i < length xs"
  have "sum_list (map g (xs[i := x])) = sum_list (map g (take i xs)) + g x + sum_list (map g (drop (Suc i) xs))"
    using i by (simp add: upd_conv_take_nth_drop)
  moreover have "sum_list (map g xs) = sum_list (map g (take i xs)) + g (xs ! i) + sum_list (map g (drop (Suc i) xs))"
    by (subst id_take_nth_drop [OF i]) simp
  ultimately show ?thesis by (simp add: ac_simps)
qed

lemma pool_inv_start: "pool_inv srv no_threads"
  using provenance_init by (simp add: pool_inv_def no_threads_def init_world_def)

lemma pool_inv_step:
  assumes "pstep h c srv \<pi> \<pi>'" "pool_inv srv \<pi>"
  shows "pool_inv srv \<pi>'"
  using assms(1)
proof (cases rule: pstep.cases)
  case (arrive r c0 env)
  then show ?thesis
    using assms(2) thread_ok_new [OF arrive(2-5), of srv "wd_events (pl_world \<pi>)" h c]
    by (auto simp: pool_inv_def new_thread_def nothing_yet_def)
next
  case (advance i t f p s')
  let ?s = "pl_world \<pi>" and ?ts = "pl_threads \<pi>"
  let ?t = "t\<lparr>th_own := own_step ?s s' (th_own t), th_proc := p\<rparr>"
  have \<pi>': "pl_world \<pi>' = s'" "pl_threads \<pi>' = ?ts[i := ?t]" using advance by simp_all
  have inv: "provenance ?s" "\<And>t. t \<in> set ?ts \<Longrightarrow> thread_ok srv (wd_events ?s) t" using assms(2) by (auto simp: pool_inv_def)
  have t: "t \<in> set ?ts" using advance by simp
  note st = thread_ok_step [OF inv(2) [OF t] inv(1) advance(4,5)]
  obtain new ls where new: "wd_events s' = wd_events ?s @ new" "length new \<le> 1" "provenance s'"
    "wd_audit_out s' = wd_audit_out ?s @ ls" using st(2) by (auto simp: advances_def)
  have "thread_ok srv (wd_events s') u" if "u \<in> set (?ts[i := ?t])" for u
    using that set_update_subset_insert [of ?ts i ?t] st(1) thread_ok_others [OF inv(2)] new(1) by auto
  moreover have "\<exists>u \<in> set (?ts[i := ?t]). (pre, ev) \<in> set (ow_sends (th_own u))"
    if e: "wd_events s' = pre @ ev # post" "is_upstream ev" for pre ev post
  proof (cases "\<exists>post'. wd_events ?s = pre @ ev # post'")
    case True
    then obtain u where u: "u \<in> set ?ts" "(pre, ev) \<in> set (ow_sends (th_own u))"
      using assms(2) e(2) unfolding pool_inv_def by blast
    then obtain j where j: "j < length ?ts" "u = ?ts ! j" by (metis in_set_conv_nth)
    show ?thesis
    proof (cases "j = i")
      case True
      then have "u = t" using j advance(3) by simp
      with u have "(pre, ev) \<in> set (ow_sends (th_own ?t))" by (simp add: own_step_sends [OF new(1)])
      with advance(2) show ?thesis by (metis set_update_memI)
    next
      case False
      then have "?ts[i := ?t] ! j = u" using j by simp
      with j u(2) show ?thesis by (metis length_list_update nth_mem)
    qed
  next
    case False
    with e(1) new(1) short_list [OF new(2)] have "pre = wd_events ?s" "new = [ev]"
      by (auto simp: append_eq_append_conv2 append_eq_Cons_conv Cons_eq_append_conv)
    with e(2) have "(pre, ev) \<in> set (ow_sends (th_own ?t))" by (simp add: own_step_sends [OF new(1)])
    with advance(2) show ?thesis by (metis set_update_memI)
  qed
  moreover have "mset (wd_audit_out s') = sum_list (map (\<lambda>t. mset (ow_lines (th_own t))) (?ts[i := ?t]))"
  proof -
    have "ow_lines (th_own ?t) = ow_lines (th_own t) @ ls" by (simp add: own_step_def new(4))
    moreover have "mset (wd_audit_out ?s) = sum_list (map (\<lambda>t. mset (ow_lines (th_own t))) ?ts)"
      using assms(2) by (simp add: pool_inv_def)
    ultimately show ?thesis
      using sum_list_upd [OF advance(2), of "\<lambda>t. mset (ow_lines (th_own t))" ?t] advance(3) new(4)
      by (auto simp: ac_simps)
  qed
  ultimately show ?thesis using new(3) by (auto simp: pool_inv_def \<pi>')
qed

lemma pool_inv_reach: "pool_reach h c srv \<pi> \<Longrightarrow> pool_inv srv \<pi>"
  by (induction rule: rtranclp_induct) (use pool_inv_start pool_inv_step in blast)+

section \<open>A request that is not interrupted\<close>

lemma exec_steps:
  assumes step: "\<And>\<pi> i t f p s'. i < length (pl_threads \<pi>) \<Longrightarrow> t = pl_threads \<pi> ! i \<Longrightarrow> th_proc t = Atomic f \<Longrightarrow>
      f (pl_world \<pi>) = (p, s') \<Longrightarrow> R \<pi> \<lparr>pl_world = s', pl_threads = (pl_threads \<pi>)
        [i := t\<lparr>th_own := own_step (pl_world \<pi>) s' (th_own t), th_proc := p\<rparr>]\<rparr>"
    and "i < length (pl_threads \<pi>)" "th_proc (pl_threads \<pi> ! i) = p" "exec p (pl_world \<pi>) = (x, s')"
  shows "\<exists>ow. R\<^sup>*\<^sup>* \<pi> \<lparr>pl_world = s', pl_threads = (pl_threads \<pi>)
    [i := (pl_threads \<pi> ! i)\<lparr>th_own := ow, th_proc := Done x\<rparr>]\<rparr>"
  using assms(2-)
proof (induction p arbitrary: \<pi>)
  case (Done y)
  let ?t = "pl_threads \<pi> ! i"
  have "?t\<lparr>th_own := th_own ?t, th_proc := Done x\<rparr> = ?t" using Done by (cases ?t) simp
  then have "(pl_threads \<pi>)[i := ?t\<lparr>th_own := th_own ?t, th_proc := Done x\<rparr>] = pl_threads \<pi>" by (metis list_update_id)
  moreover have "pl_world \<pi> = s'" using Done by simp
  ultimately have "\<lparr>pl_world = s', pl_threads = (pl_threads \<pi>)[i := ?t\<lparr>th_own := th_own ?t, th_proc := Done x\<rparr>]\<rparr> = \<pi>"
    by (cases \<pi>) simp
  then show ?case by (metis rtranclp.rtrancl_refl)
next
  case (Atomic f)
  let ?t = "pl_threads \<pi> ! i"
  obtain p s1 where f: "f (pl_world \<pi>) = (p, s1)" by fastforce
  then have r: "(p, s1) \<in> range f" by (metis rangeI)
  let ?\<pi> = "\<lparr>pl_world = s1, pl_threads = (pl_threads \<pi>)
    [i := ?t\<lparr>th_own := own_step (pl_world \<pi>) s1 (th_own ?t), th_proc := p\<rparr>]\<rparr>"
  have "R \<pi> ?\<pi>" using Atomic.prems f by (intro step [where f = f]) auto
  moreover have "\<exists>ow. R\<^sup>*\<^sup>* ?\<pi> \<lparr>pl_world = s', pl_threads = (pl_threads ?\<pi>)
      [i := (pl_threads ?\<pi> ! i)\<lparr>th_own := ow, th_proc := Done x\<rparr>]\<rparr>"
    by (rule Atomic.IH [OF r]) (use Atomic.prems f in auto)
  ultimately show ?case using Atomic.prems(1) by (auto intro: converse_rtranclp_into_rtranclp)
qed

text \<open>The thread of a new request that takes all its steps before any other.\<close>

lemma served_alone:
  assumes "wf_path r" "req_tokenInfo r = None" "new_conn c0" "wf_env env"
    and "exec (p_gateway h c srv env r (Base c0)) (pl_world \<pi>) = (res, s')"
  shows "\<exists>ow. (pstep h c srv)\<^sup>*\<^sup>* \<pi> \<lparr>pl_world = s', pl_threads = pl_threads \<pi> @
    [\<lparr>th_request = r, th_own = ow, th_proc = Done res\<rparr>]\<rparr>"
proof -
  let ?\<pi> = "\<pi>\<lparr>pl_threads := pl_threads \<pi> @ [new_thread h c srv env r c0]\<rparr>"
  have a: "pstep h c srv \<pi> ?\<pi>" by (rule arrive [OF assms(1-4)])
  have "\<exists>ow. (pstep h c srv)\<^sup>*\<^sup>* ?\<pi> \<lparr>pl_world = s', pl_threads = (pl_threads ?\<pi>)
      [length (pl_threads \<pi>) := (pl_threads ?\<pi> ! length (pl_threads \<pi>))\<lparr>th_own := ow, th_proc := Done res\<rparr>]\<rparr>"
    by (rule exec_steps [where R = "pstep h c srv"], rule pstep.advance, assumption+)
      (use assms(5) in \<open>simp_all add: new_thread_def\<close>)
  then show ?thesis using a by (auto simp: new_thread_def intro: converse_rtranclp_into_rtranclp)
qed

end
