(* ===== verification/AuditPhases.thy ===== *)
theory AuditPhases
  imports Interleave
begin

text \<open>
  When a request writes its line of the audit log: no step of the inner handlers writes one, and once the
  audit middleware has written it, the only step left is the one that stores the entry and answers.  With
  the invariant of theory \<open>Interleave\<close> this says of every thread of the server how many lines it has
  written, whether it is done or not.
\<close>

section \<open>Processes that end with their line\<close>

text \<open>
  \<open>one_line Q p b\<close>, where \<open>b\<close> says whether the line has been written: without it a step writes at most one
  line; with it the next step writes none and is the last; and the result satisfies \<open>Q\<close>.
\<close>

definition last_step :: "('a \<Rightarrow> bool) \<Rightarrow> (world \<Rightarrow> 'a proc \<times> world) \<Rightarrow> bool" where
  "last_step P f \<longleftrightarrow> (\<forall>s. \<exists>x s'. f s = (Done x, s') \<and> P x)"

primrec one_line :: "(bool \<Rightarrow> 'a \<Rightarrow> bool) \<Rightarrow> 'a proc \<Rightarrow> bool \<Rightarrow> bool" where
  "one_line Q (Done x) = (\<lambda>b. Q b x)"
| "one_line Q (Atomic f) = (\<lambda>b. (b \<longrightarrow> last_step (Q True) f) \<and>
    (\<forall>s. case map_prod (one_line Q) id (f s) of (one_line_rest, s') \<Rightarrow>
      \<exists>ls. wd_audit_out s' = wd_audit_out s @ ls \<and> length ls \<le> (if b then 0 else 1) \<and>
        one_line_rest (b \<or> ls \<noteq> [])))"

lemma one_line_step:
  assumes "one_line Q (Atomic f) b" "f s = (p, s')"
  obtains ls where "wd_audit_out s' = wd_audit_out s @ ls" "length ls \<le> (if b then 0 else 1)"
    "one_line Q p (b \<or> ls \<noteq> [])"
  using assms by (auto dest!: spec [of _ s])

lemma one_line_AtomicI:
  assumes "b \<Longrightarrow> last_step (Q True) f"
    and "\<And>s p s'. f s = (p, s') \<Longrightarrow> \<exists>ls. wd_audit_out s' = wd_audit_out s @ ls \<and>
      length ls \<le> (if b then 0 else 1) \<and> one_line Q p (b \<or> ls \<noteq> [])"
  shows "one_line Q (Atomic f) b"
  using assms by (auto simp: map_prod_def split_def)

text \<open>A process that writes no line, and the rest of the handler after it.\<close>

abbreviation same_log :: "world \<Rightarrow> world \<Rightarrow> bool" where
  "same_log s s' \<equiv> wd_audit_out s' = wd_audit_out s"

abbreviation logless :: "('a \<Rightarrow> bool) \<Rightarrow> 'a proc \<Rightarrow> bool" where
  "logless \<equiv> within (\<lambda>_. True) same_log"

lemma one_line_bind:
  assumes "logless P p" "\<And>x. P x \<Longrightarrow> one_line Q (k x) False"
  shows "one_line Q (bind_proc p k) False"
  using assms(1)
proof (induction p)
  case (Done x)
  then show ?case using assms(2) by simp
next
  case (Atomic f)
  have "one_line Q (Atomic (\<lambda>s. map_prod (\<lambda>p. bind_proc p k) id (f s))) False"
  proof (rule one_line_AtomicI)
    fix s p s' assume "map_prod (\<lambda>p. bind_proc p k) id (f s) = (p, s')"
    then obtain q where q: "f s = (q, s')" "p = bind_proc q k" by (cases "f s") auto
    have "(q, s') \<in> range f" using q(1) by (metis rangeI)
    then have "one_line Q p False"
      using within_step(3) [OF Atomic.prems TrueI q(1)] Atomic.IH [of "(q, s')" q] q(2) by simp
    moreover have "same_log s s'" by (rule within_step(2) [OF Atomic.prems TrueI q(1)])
    ultimately show "\<exists>ls. wd_audit_out s' = wd_audit_out s @ ls \<and>
        length ls \<le> (if False then 0 else 1) \<and> one_line Q p (False \<or> ls \<noteq> [])"
      by (intro exI [of _ "[]"]) simp
  qed simp
  then show ?case by simp
qed

lemma one_line_logless: "logless (Q False) p \<Longrightarrow> one_line Q p False"
proof (induction p)
  case (Atomic f)
  show ?case
  proof (rule one_line_AtomicI)
    fix s p s' assume f: "f s = (p, s')"
    then have "(p, s') \<in> range f" by (metis rangeI)
    then have "one_line Q p False" using within_step(3) [OF Atomic.prems TrueI f] Atomic.IH [of "(p, s')" p] by simp
    with within_step(2) [OF Atomic.prems TrueI f]
    show "\<exists>ls. wd_audit_out s' = wd_audit_out s @ ls \<and>
        length ls \<le> (if False then 0 else 1) \<and> one_line Q p (False \<or> ls \<noteq> [])"
      by (intro exI [of _ "[]"]) simp
  qed simp
qed simp

section \<open>The inner handlers write no line\<close>

lemma logless_act: "(\<And>s x s'. f s = (x, s') \<Longrightarrow> same_log s s') \<Longrightarrow> logless (\<lambda>_. True) (act f)"
  by (simp add: within_act_iff)

lemma logless_bind:
  "logless (\<lambda>_. True) p \<Longrightarrow> (\<And>x. logless Q (k x)) \<Longrightarrow> logless Q (bind_proc p k)"
  by (rule within_bind)

lemma logless_calls: "(\<And>s x s'. f s = (x, s') \<Longrightarrow> calls_only s s') \<Longrightarrow> logless (\<lambda>_. True) (act f)"
  by (rule logless_act) (auto simp: calls_only_def)

lemma logless_cacheGet: "logless (\<lambda>_. True) (p_cacheGet env token)"
  unfolding p_cacheGet_def
  by (auto split: option.split simp: readClock_def intro!: logless_bind logless_act)

lemma logless_cacheSet: "logless (\<lambda>_. True) (p_cacheSet env token result)"
  unfolding p_cacheSet_def
  by (auto split: option.split prod.splits if_splits simp: readClock_def w_cacheStore_def intro!: logless_bind logless_act)

lemma logless_mux: "logless (\<lambda>_. True) (atomically (mux_ServeHTTP srv) env r w)"
  unfolding atomically_def
proof (rule logless_act)
  fix s x s'
  assume a: "(let res = mux_ServeHTTP srv env r w s in (go_map fst res, snd (go_state res))) = (x, s')"
  obtain w' where g: "go_state (mux_ServeHTTP srv env r w s) = (w', s')"
    using a by (cases "go_state (mux_ServeHTTP srv env r w s)") (simp add: Let_def)
  then show "same_log s s'" by (cases rule: mux_sends) (simp_all add: sends_def)
qed

lemma logless_guarded: "logless (\<lambda>_. True) (p_guarded h c srv env r w)"
proof -
  have "logless (\<lambda>_. True) (act (Evaluate c env i))" for i
    by (rule logless_calls) (use opa.evaluate_calls in blast)
  note evaluate = logless_bind [OF this]
  have policy: "logless (\<lambda>_. True) (p_policy (main_policy c) (atomically (mux_ServeHTTP srv)) env r w)" for r w
    unfolding p_policy_def by (auto split: option.split sum.split intro!: logless_mux evaluate)
  have "logless (\<lambda>_. True) (act (Introspect h env token))" for token
    by (rule logless_calls) (use hydra.introspect_calls in blast)
  note introspect = logless_bind [OF this]
  show ?thesis
    unfolding p_guarded_def p_auth_def
    by (auto split: option.split sum.split intro!: policy introspect
        logless_bind [OF logless_cacheGet] logless_bind [OF logless_cacheSet])
qed

section \<open>The line of a request\<close>

text \<open>A request has written its line only if it is no health check and is answered.\<close>

definition line_means_answer :: "request \<Rightarrow> bool \<Rightarrow> writer go \<Rightarrow> bool" where
  "line_means_answer r b res \<longleftrightarrow> (b \<longrightarrow> req_path r \<noteq> ''/health'' \<and> (\<exists>w. res = Ret w))"

lemma bind_proc_assoc: "bind_proc (bind_proc p k) m = bind_proc p (\<lambda>x. bind_proc (k x) m)"
proof (induction p)
  case (Atomic f)
  have "bind_proc (bind_proc q k) m = bind_proc q (\<lambda>x. bind_proc (k x) m)" if "f s = (q, s')" for s q s'
    using Atomic.IH [of "(q, s')" q] that by (metis fsts.intros prod_set_defs(1) rangeI fst_conv)
  then show ?case by (simp add: map_prod_def split_def) (metis prod.collapse)
qed simp

lemma one_line_log:
  assumes "Q True x"
  shows "one_line Q (bind_proc (p_log env r tool captured st) (\<lambda>_. Done x)) False"
proof -
  have "one_line Q (Atomic (\<lambda>s. (Done x, s\<lparr>wd_store := f (wd_store s)\<rparr>))) True" for f
    using assms by (intro one_line_AtomicI) (auto simp: last_step_def)
  then have line: "one_line Q (Atomic (\<lambda>s. (Atomic (\<lambda>s. (Done x, s\<lparr>wd_store := f (wd_store s)\<rparr>)),
      s\<lparr>wd_audit_out := wd_audit_out s @ [l]\<rparr>))) False" for f l
    by (intro one_line_AtomicI) auto
  have "logless (\<lambda>_. True) (act (w_NewEntry env r tool captured st))"
    by (rule logless_act)
      (auto simp: w_NewEntry_def dest!: w_generateID_frame readClock_frame split: prod.splits)
  then show ?thesis
    unfolding p_log_def bind_proc_assoc
    by (rule one_line_bind) (use line in \<open>simp add: act_def del: one_line.simps\<close>)
qed

lemma one_line_audit:
  assumes "req_path r = req_path r0"
  shows "one_line (line_means_answer r0) (p_audit main_audit (p_guarded h c srv) env r w) False"
proof (cases "req_path r = ''/health''")
  case True
  have "logless (line_means_answer r0 False) (p_guarded h c srv env r w)"
    by (rule within_weaken [OF logless_guarded]) (simp add: line_means_answer_def)
  with True show ?thesis by (simp add: p_audit_def one_line_logless)
next
  case False
  have "one_line (line_means_answer r0) (bind_proc (p_log env r' tool captured st) (\<lambda>_. Done (Ret w'))) False"
    for r' tool captured st w'
    by (rule one_line_log) (use False assms in \<open>simp add: line_means_answer_def\<close>)
  then show ?thesis
    using False
    by (auto simp: p_audit_def line_means_answer_def split: option.split go.split
        intro!: one_line_bind [OF logless_guarded])
qed

lemma one_line_gateway: "one_line (line_means_answer r) (p_gateway h c srv env r w) False"
proof -
  have "logless (\<lambda>_. True) (act (w_generateID env))" by (rule logless_act) (auto dest!: w_generateID_frame)
  then show ?thesis
    unfolding p_gateway_def p_requestID_def Let_def
    by (auto intro!: one_line_bind [where P = "\<lambda>_. True"] one_line_audit)
qed

section \<open>The threads of the server\<close>

definition phased :: "thread \<Rightarrow> bool" where
  "phased t \<longleftrightarrow> one_line (line_means_answer (th_request t)) (th_proc t) (ow_lines (th_own t) \<noteq> [])"

lemma phased_step:
  assumes "pstep h c srv \<pi> \<pi>'" "\<forall>t \<in> set (pl_threads \<pi>). phased t"
  shows "\<forall>t \<in> set (pl_threads \<pi>'). phased t"
  using assms(1)
proof (cases rule: pstep.cases)
  case (arrive r c0 env)
  have "phased (new_thread h c srv env r c0)"
    by (simp add: phased_def new_thread_def nothing_yet_def one_line_gateway)
  with arrive(1) assms(2) show ?thesis by auto
next
  case (advance i t f p s')
  then have "phased t" using assms(2) by simp
  then have "one_line (line_means_answer (th_request t)) (Atomic f) (ow_lines (th_own t) \<noteq> [])"
    using advance(4) by (simp add: phased_def)
  from one_line_step [OF this advance(5)] obtain ls where "wd_audit_out s' = wd_audit_out (pl_world \<pi>) @ ls"
    "one_line (line_means_answer (th_request t)) p (ow_lines (th_own t) \<noteq> [] \<or> ls \<noteq> [])" .
  then have "phased (t\<lparr>th_own := own_step (pl_world \<pi>) s' (th_own t), th_proc := p\<rparr>)"
    by (simp add: phased_def own_step_def)
  with advance(1) assms(2) show ?thesis by (auto dest!: set_update_subset_insert [THEN subsetD])
qed

lemma phased_reach: "pool_reach h c srv \<pi> \<Longrightarrow> t \<in> set (pl_threads \<pi>) \<Longrightarrow> phased t"
proof (induction arbitrary: t rule: rtranclp_induct)
  case (step \<pi> \<pi>')
  then show ?case using phased_step by blast
qed (simp add: no_threads_def)

text \<open>
  What a thread that has written its line is: one of an answered request, or of a request that answers with
  its next step; and not one of a health check.
\<close>

lemma line_written:
  assumes "pool_reach h c srv \<pi>" "t \<in> set (pl_threads \<pi>)" "ow_lines (th_own t) \<noteq> []"
  shows "req_path (th_request t) \<noteq> ''/health''"
    and "th_proc t = Done res \<Longrightarrow> \<exists>w. res = Ret w"
    and "th_proc t = Atomic f \<Longrightarrow> \<exists>w s'. f s = (Done (Ret w), s')"
proof -
  have one: "one_line (line_means_answer (th_request t)) (th_proc t) True"
    using phased_reach [OF assms(1,2)] assms(3) by (simp add: phased_def)
  have last: "req_path (th_request t) \<noteq> ''/health'' \<and> (\<exists>w s'. f s = (Done (Ret w), s'))"
    if "th_proc t = Atomic f" for f s
    using one that by (fastforce simp: last_step_def line_means_answer_def dest: spec [of _ s])
  then show "th_proc t = Atomic f \<Longrightarrow> \<exists>w s'. f s = (Done (Ret w), s')" by blast
  show "th_proc t = Done res \<Longrightarrow> \<exists>w. res = Ret w"
    using one by (simp add: line_means_answer_def)
  show "req_path (th_request t) \<noteq> ''/health''"
    using one last by (cases "th_proc t") (auto simp: line_means_answer_def)
qed

end
