(* ===== verification/Demo.thy ===== *)
theory Demo
  imports Gateway
begin

text \<open>
  One run of the gateway, used to show that the hypotheses of the properties can be met: the
  configuration of the README, a client \<open>agent\<close> with an active token, a policy engine that allows
  everything, and a JSON-RPC request posted to the MCP server.
\<close>

section \<open>Configuration\<close>

definition demo_getenv :: getenv where
  "demo_getenv k =
    (if k = ''UPSTREAM_MCP_URL'' then ''http://mcp:3000/mcp''
     else if k = ''HYDRA_ADMIN_URL'' then ''http://hydra:4445''
     else if k = ''OPA_URL'' then ''http://opa:8181/'' else [])"

definition demo_upstream :: url where
  "demo_upstream = empty_url\<lparr>u_scheme := ''http'', u_host := ''mcp:3000'', u_path := ''/mcp''\<rparr>"

lemma demo_urls:
  "parseRequestURI ''http://mcp:3000/mcp'' = Some demo_upstream"
  "parseRequestURI ''http://hydra:4445'' \<noteq> None" "parseRequestURI ''http://opa:8181/'' \<noteq> None"
  by code_simp+

lemma demo_startup: "\<exists>gw. startup demo_getenv (\<lambda>_. None) (\<lambda>_. None) = Inr gw"
proof -
  let ?c = "\<lparr>UpstreamMCPURL = ''http://mcp:3000/mcp'', ProxyListenAddr = '':8080'',
    HydraAdminURL = ''http://hydra:4445'', OPAURL = ''http://opa:8181/'', AuditLogPath = ''stdout'',
    GRPCListenAddr = '':9090''\<rparr>"
  have "Load demo_getenv = Inr ?c"
    by (simp add: Load_Inr_iff validate_None_iff demo_urls demo_getenv_def envOrDefault_def)
  moreover have "\<exists>h. NewHydraIntrospector ''http://hydra:4445'' = Inr h"
    using demo_urls by (simp add: NewHydraIntrospector_def)
  moreover have "\<exists>c. policy_NewClient ''http://opa:8181/'' = Inr c"
    using demo_urls by (simp add: policy_NewClient_def)
  moreover have "\<exists>lg. NewLogger (\<lambda>_. None) ''stdout'' = Inr lg" by (simp add: NewLogger_def)
  ultimately show ?thesis by (auto simp: startup_def proxy_New_def demo_urls)
qed

section \<open>Documents\<close>

definition demo_body :: string where
  "demo_body = json_object [(''jsonrpc'', json_string ''2.0''), (''method'', json_string ''tools/list'')]"

definition hydra_document :: "string \<Rightarrow> string" where
  "hydra_document active = json_object [(''active'', active), (''client_id'', json_string ''agent'')]"

definition opa_document :: "string \<Rightarrow> string" where
  "opa_document result = json_object [(''result'', result)]"

lemma demo_Parse:
  "Parse demo_body = Inr \<lparr>Params = [], JSONRPC = ''2.0'', Method = ''tools/list'', ID = []\<rparr>"
proof -
  have "json_value demo_body = Some (JObj [(''jsonrpc'', json_string ''2.0'', JStr ''2.0''),
      (''method'', json_string ''tools/list'', JStr ''tools/list'')], [])"
    unfolding demo_body_def
    using json_value_object [of "[(''jsonrpc'', json_string ''2.0''), (''method'', json_string ''tools/list'')]"
        "[JStr ''2.0'', JStr ''tools/list'']"]
      reads_as_string [of "''2.0''"] reads_as_string [of "''tools/list''"]
    by (simp add: valid_utf8_ascii)
  then show ?thesis
    by (simp add: Parse_def unmarshal_request_def json_parse_def skip_ws_def decode_struct_def
        rpc_fields_def field_name_def rpc_store_def set_string_def rpc_zero_def)
qed

lemma hydra_answer:
  assumes "reads_as active (JBool b) 0"
  shows "introspect_answer (DoResp StatusOK [] (hydra_document active) False) =
    Inr \<lparr>ir_ClientID = ''agent'', ir_Scope = [], ir_ExpiresAt = 0, ir_Active = b\<rparr>"
proof -
  have "json_value (hydra_document active) = Some (JObj [(''active'', active, JBool b),
      (''client_id'', json_string ''agent'', JStr ''agent'')], [])"
    unfolding hydra_document_def
    using assms reads_as_string [of "''agent''"]
      json_value_object [of "[(''active'', active), (''client_id'', json_string ''agent'')]"
        "[JBool b, JStr ''agent'']"]
    by (simp add: valid_utf8_ascii)
  then show ?thesis
    by (simp add: introspect_answer_def json_decode_stream_def decode_struct_def ir_fields_def
        field_name_def ir_store_def set_string_def set_bool_def ir_zero_def)
qed

lemma opa_answer:
  assumes "reads_as result (JBool b) 0"
  shows "decision_answer (DoResp StatusOK [] (opa_document result) False) = Inr b"
proof -
  have "json_value (opa_document result) = Some (JObj [(''result'', result, JBool b)], [])"
    unfolding opa_document_def
    using assms json_value_object [of "[(''result'', result)]" "[JBool b]"] by simp
  then show ?thesis
    by (simp add: decision_answer_def json_decode_stream_def decode_struct_def
        field_name_def result_store_def set_bool_ptr_def)
qed

section \<open>Requests\<close>

definition demo_env_with :: "string \<Rightarrow> http_result \<Rightarrow> stream_result \<Rightarrow> env" where
  "demo_env_with allow up stream =
    \<lparr>env_clock = (\<lambda>_. 0), env_range = (\<lambda>m. m), env_random = (\<lambda>_. None),
     env_hydra = (\<lambda>_ _. DoResp StatusOK [] (hydra_document ''true'') False),
     env_opa = (\<lambda>_ _. DoResp StatusOK [] (opa_document allow) False),
     env_upstream = (\<lambda>_ _. up), env_sse = (\<lambda>_ _. stream), env_json_text = (\<lambda>_. [])\<rparr>"

definition demo_env :: "string \<Rightarrow> env" where
  "demo_env allow = demo_env_with allow (DoResp StatusOK [] ''{}'' False)
     (StreamResp StatusOK [] (\<lambda>_. ([], Some EOF)))"

lemma wf_demo_env: "wf_env (demo_env allow)"
  by (auto simp: wf_env_def demo_env_def demo_env_with_def wf_header_def)

definition demo_request :: "string \<Rightarrow> (string \<times> string list) list \<Rightarrow> string \<Rightarrow> request" where
  "demo_request meth headers b =
    \<lparr>req_method = meth, req_path = ''/'', req_escaped = ''/'', req_query = [],
     req_header = (''Authorization'', [''Bearer t'']) # headers, req_body = Body b None,
     req_remote = ''10.0.0.1:4000'', req_tokenInfo = None, req_requestID = None\<rparr>"

definition demo_post :: request where
  "demo_post = demo_request ''POST'' [(''Content-Type'', [''application/json''])] demo_body"

definition demo_conn :: conn where
  "demo_conn = \<lparr>c_header = [], c_sent = None, c_written = [], c_writes_left = None,
     c_deadline = None, c_flusher = True, c_flushed = []\<rparr>"

lemma new_demo_conn: "new_conn demo_conn"
  by (simp add: new_conn_def demo_conn_def)

lemma wf_path_demo: "wf_path (demo_request meth headers b)"
  by (simp add: wf_path_def demo_request_def unescapePath_def)

lemma demo_token: "extractBearerToken (demo_request meth headers b) = Inr ''t''"
  by (simp add: extractBearerToken_Inr_iff demo_request_def hget_def hvalues_def maxTokenLength_def
      printable_def)

lemma root_route: "req_escaped r = ''/'' \<Longrightarrow> req_method r \<noteq> ''CONNECT'' \<Longrightarrow> mux_route r = RouteProxy"
proof -
  have "cleanPath ''/'' = ''/''" "\<not> seg_health ''/''" by code_simp+
  then show "req_escaped r = ''/'' \<Longrightarrow> req_method r \<noteq> ''CONNECT'' \<Longrightarrow> mux_route r = RouteProxy"
    by (simp add: mux_route_def mux_match_def)
qed

definition demo_result :: introspection where
  "demo_result = \<lparr>ir_ClientID = ''agent'', ir_Scope = [], ir_ExpiresAt = 0, ir_Active = True\<rparr>"

text \<open>With an empty cache the token is introspected and the request goes on.\<close>

lemma demo_auth:
  assumes "tc_entries (wd_cache s) = []" "req_path r = ''/''" "extractBearerToken r = Inr ''t''"
  obtains s' q res where "auth_Handler (main_auth h) next (demo_env_with allow up stream) r w s =
      next (demo_env_with allow up stream) (with_token demo_result r) (with_audit_id demo_result w) s'"
    "wd_events s' = wd_events s @ [Ev_Hydra q res]" "unaudited s s'"
proof -
  obtain q where q: "introspect_request h ''t'' = Some q" by (simp add: introspect_request_eq)
  let ?res = "DoResp StatusOK [] (hydra_document ''true'') False"
  let ?s1 = "emit (Ev_Hydra q ?res) s"
  have a: "introspect_answer ?res = Inr demo_result"
    using hydra_answer [OF reads_as_bool(1)] by (simp add: demo_result_def)
  have miss: "w_cacheGet (demo_env_with allow up stream) ''t'' s = (None, s)"
    using assms(1) by (simp add: w_cacheGet_def cacheGet_miss)
  have i: "Introspect h (demo_env_with allow up stream) ''t'' s = (Inr demo_result, ?s1)"
    by (simp add: Introspect_def q a demo_env_with_def)
  let ?s2 = "w_cacheSet (demo_env_with allow up stream) ''t'' demo_result ?s1"
  have "auth_Handler (main_auth h) next (demo_env_with allow up stream) r w s =
      next (demo_env_with allow up stream) (with_token demo_result r) (with_audit_id demo_result w) ?s2"
    using assms by (simp add: auth_Handler_def miss i Let_def) (simp add: demo_result_def)
  moreover have "wd_events ?s2 = wd_events s @ [Ev_Hydra q ?res]" "unaudited s ?s2"
    using w_cacheSet_frame(2) [where s = ?s1 and token = "''t''" and env = "demo_env_with allow up stream" and r = demo_result]
    by (auto simp: w_cacheSet_frame(1) emit_def unaudited_def)
  ultimately show ?thesis using that by blast
qed

section \<open>Runs\<close>

lemma demo_prepare:
  "audit_prepare (WithRequestID i demo_post) =
    Some (''tools/list'', (WithRequestID i demo_post)\<lparr>req_body := restored demo_body\<rparr>)"
  if "length demo_body \<le> maxRequestSize"
  using that
  by (simp add: audit_prepare_def audit_extractToolName_def is_json_def demo_post_def demo_request_def
      WithRequestID_def hget_def hvalues_def demo_Parse truncate_str_def maxHeaderValueLen_def Let_def)

lemma length_demo_body: "length demo_body \<le> maxRequestSize"
proof -
  have "length demo_body \<le> 100" by code_simp
  then show ?thesis by (simp add: maxRequestSize_def)
qed

definition demo_forwarded :: "string \<Rightarrow> request" where
  "demo_forwarded i = (with_token demo_result (WithRequestID i demo_post))\<lparr>req_body := restored demo_body\<rparr>"

lemma demo_forwarded_fields:
  "req_method (demo_forwarded i) = ''POST''" "req_path (demo_forwarded i) = ''/''"
  "req_body (demo_forwarded i) = restored demo_body" "is_json (demo_forwarded i)"
  "\<not> isSSERequest (demo_forwarded i)" "mux_route (demo_forwarded i) = RouteProxy"
proof -
  have "canonicalKey ''Accept'' = ''Accept''"
    by (rule canonicalKeyI) (simp_all add: canonical_defs)
  then show "\<not> isSSERequest (demo_forwarded i)"
    by (simp add: isSSERequest_def demo_forwarded_def demo_post_def demo_request_def hget_def hvalues_def)
  show "mux_route (demo_forwarded i) = RouteProxy"
    by (rule root_route) (simp_all add: demo_forwarded_def demo_post_def demo_request_def)
qed (simp_all add: demo_forwarded_def demo_post_def demo_request_def is_json_def hget_def hvalues_def)

lemma demo_handleProxy:
  obtains q w' s' where "handleProxy srv (demo_env allow) (demo_forwarded i) w s = Ret (w', s')"
    "wd_events s' = wd_events s @ [Ev_Upstream q]"
proof -
  obtain w1 s1 where d: "setDeadline (demo_env allow) w s = (w1, s1)" by fastforce
  have "demo_body \<noteq> []" by (simp add: demo_body_def json_object_def)
  obtain q where q: "proxy_request srv (demo_forwarded i) (restored demo_body) = Some q"
    by (simp add: proxy_request_def newRequest_def demo_forwarded_fields validMethod_POST)
  have "maxBytesReader maxRequestSize (restored demo_body) = Body demo_body None"
    using length_demo_body by (simp add: restored_def)
  moreover have "body_error (demo_env allow) (demo_forwarded i) demo_body None = None"
    by (simp add: body_error_def demo_Parse)
  ultimately have "handleProxy srv (demo_env allow) (demo_forwarded i) w s =
      forwardRequest srv demo_body (demo_env allow) (demo_forwarded i) w1 s1"
    by (simp add: handleProxy_def demo_forwarded_fields d)
  moreover have "\<exists>w'. forwardRequest srv demo_body (demo_env allow) (demo_forwarded i) w1 s1 =
      Ret (w', emit (Ev_Upstream q) s1)"
    using \<open>demo_body \<noteq> []\<close> q
    by (simp add: forwardRequest_def demo_env_def demo_env_with_def WriteHeader_panics_def http_status Let_def)
  moreover have "wd_events s1 = wd_events s" using setDeadline_sends [OF d] by (simp add: sends_def)
  ultimately show ?thesis using that by (auto simp: emit_def)
qed

text \<open>The input the policy engine is asked about.\<close>

definition demo_input :: policy_input where
  "demo_input = \<lparr>in_ClientID = ''agent'', in_Method = ''tools/list'', in_ToolName = [], in_Scopes = []\<rparr>"

lemma demo_buildInput:
  "buildInput (demo_forwarded i) = Some ((Some demo_input, False), demo_forwarded i)"
proof -
  have "demo_body \<noteq> []" by (simp add: demo_body_def json_object_def)
  moreover have "readBody (demo_forwarded i) = Some (Some demo_body, demo_forwarded i)"
    using length_demo_body by (simp add: readBody_def demo_forwarded_def restored_def)
  moreover have "request_input (demo_forwarded i)
      \<lparr>Params = [], JSONRPC = ''2.0'', Method = ''tools/list'', ID = []\<rparr> = demo_input"
    by (simp add: request_input_def identity_input_def demo_forwarded_def policy_extractToolName_def
        token_info_of_def demo_result_def demo_input_def parseScopes_def toolCallMethod_def)
  ultimately show ?thesis
    by (simp add: buildInput_def demo_forwarded_fields demo_Parse)
qed

lemma demo_policy:
  obtains q res where "policy_Handler (main_policy c) next (demo_env_with ''true'' up stream) (demo_forwarded i) w s =
      next (demo_env_with ''true'' up stream) (demo_forwarded i) w (emit (Ev_OPA q res) s)"
proof -
  obtain q where q: "policy_request c demo_input = Some q" by (simp add: policy_request_eq)
  let ?res = "DoResp StatusOK [] (opa_document ''true'') False"
  have "Evaluate c (demo_env_with ''true'' up stream) demo_input s = (Inr True, emit (Ev_OPA q ?res) s)"
    using opa_answer [OF reads_as_bool(1)] by (simp add: Evaluate_def q demo_env_with_def)
  then have "policy_Handler (main_policy c) next (demo_env_with ''true'' up stream) (demo_forwarded i) w s =
      next (demo_env_with ''true'' up stream) (demo_forwarded i) w (emit (Ev_OPA q ?res) s)"
    by (simp add: policy_Handler_def demo_buildInput demo_forwarded_fields)
  then show ?thesis by (rule that)
qed

text \<open>
  The chain up to the policy middleware, for any request with the token; \<open>finish\<close> is what the
  audit middleware does last.
\<close>

lemma demo_chain:
  assumes "startup getenv open_file listen = Inr gw"
    and "req_path r = ''/''" "extractBearerToken r = Inr ''t''"
    and "\<And>i. audit_prepare (WithRequestID i r) = Some (tool, r' i)"
  obtains c i w2 s2 finish where
    "gateway_Handler gw (demo_env_with allow up stream) r (Base demo_conn) init_world =
      finish (policy_Handler (main_policy c) (mux_ServeHTTP (gw_server gw)) (demo_env_with allow up stream)
        (with_token demo_result (r' i)) w2 s2)"
    "upstream_events s2 = []" "isFlusher w2" "c_sent (w_conn w2) = None"
    "\<And>w s. \<exists>w' s'. finish (Ret (w, s)) = Ret (w', s') \<and> wd_events s' = wd_events s"
    "\<And>w s. \<exists>w'. finish (Panic (w, s)) = Panic (w', s)"
proof -
  obtain h c where gw: "gateway_Handler gw =
      RequestIDMiddleware (audit_Handler main_audit (guarded h c (gw_server gw)))"
    using startup_chain [OF assms(1)] by metis
  let ?env = "demo_env_with allow up stream"
  obtain i s1 where rid: "gateway_Handler gw ?env r (Base demo_conn) init_world =
      audit_Handler main_audit (guarded h c (gw_server gw)) ?env (WithRequestID i r)
        (w_set_header (hset RequestIDHeader i) (Base demo_conn)) s1" and c1: "calls_only init_world s1"
    using RequestID_step [of "audit_Handler main_audit (guarded h c (gw_server gw))" ?env r
        "Base demo_conn" init_world] gw by metis
  define w where "w = StatusRecorder (w_set_header (hset RequestIDHeader i) (Base demo_conn)) [] 0"
  define finish where "finish = (\<lambda>res. case res of
      Ret (rec, s') \<Rightarrow> Ret (inner_writer rec,
        audit_log_request ?env (r' i) tool (captured_clientID rec) (captured_status rec) s')
    | Panic (rec, s') \<Rightarrow> Panic (inner_writer rec, s')
    | Hang (rec, s') \<Rightarrow> Hang (inner_writer rec, s'))"
  obtain b where b: "r' i = (WithRequestID i r)\<lparr>req_body := b\<rparr>" using audit_prepare_frame [OF assms(4)] by blast
  have "tc_entries (wd_cache s1) = []"
    using c1 by (simp add: calls_only_def init_world_def NewTokenCache_def)
  moreover have "req_path (r' i) = ''/''" "extractBearerToken (r' i) = Inr ''t''"
    using assms(2,3) b extractBearerToken_cong [of "r' i" r] by simp_all
  ultimately obtain s2 q res where a: "auth_Handler (main_auth h)
        (policy_Handler (main_policy c) (mux_ServeHTTP (gw_server gw))) ?env (r' i) w s1 =
      policy_Handler (main_policy c) (mux_ServeHTTP (gw_server gw)) ?env
        (with_token demo_result (r' i)) (with_audit_id demo_result w) s2"
    "wd_events s2 = wd_events s1 @ [Ev_Hydra q res]"
    by (rule demo_auth)
  have "gateway_Handler gw ?env r (Base demo_conn) init_world =
      finish (policy_Handler (main_policy c) (mux_ServeHTTP (gw_server gw)) ?env
        (with_token demo_result (r' i)) (with_audit_id demo_result w) s2)"
    using rid assms(2,4) a by (simp add: audit_Handler_def guarded_def finish_def w_def)
  moreover have "upstream_events s2 = []"
    using a(2) calls_only_upstream [OF c1] by (simp add: upstream_events_def init_world_def)
  moreover have "isFlusher (with_audit_id demo_result w)" "c_sent (w_conn (with_audit_id demo_result w)) = None"
    by (simp_all add: w_def with_audit_id_def w_set_header_def demo_conn_def)
  moreover have "\<exists>w' s'. finish (Ret (w, s)) = Ret (w', s') \<and> wd_events s' = wd_events s" for w s
    by (simp add: finish_def audit_log_request_frame)
  moreover have "\<exists>w'. finish (Panic (w, s)) = Panic (w', s)" for w s by (simp add: finish_def)
  ultimately show ?thesis using that by blast
qed

text \<open>The posted request goes through the whole chain and reaches the MCP server.\<close>

lemma demo_run:
  assumes "startup getenv open_file listen = Inr gw"
  obtains w' s' q where
    "gateway_Handler gw (demo_env ''true'') demo_post (Base demo_conn) init_world = Ret (w', s')"
    "upstream_events s' = [Ev_Upstream q]"
proof -
  define r' where "r' = (\<lambda>i. (WithRequestID i demo_post)\<lparr>req_body := restored demo_body\<rparr>)"
  have fwd: "with_token demo_result (r' i) = demo_forwarded i" for i
    by (simp add: r'_def demo_forwarded_def with_token_def)
  have p: "req_path demo_post = ''/''" and t: "extractBearerToken demo_post = Inr ''t''"
    using demo_token by (simp_all add: demo_post_def demo_request_def)
  have prep: "audit_prepare (WithRequestID i demo_post) = Some (''tools/list'', r' i)" for i
    unfolding r'_def by (rule demo_prepare [OF length_demo_body])
  obtain c i w2 s2 finish where run:
    "gateway_Handler gw (demo_env ''true'') demo_post (Base demo_conn) init_world =
      finish (policy_Handler (main_policy c) (mux_ServeHTTP (gw_server gw)) (demo_env ''true'')
        (demo_forwarded i) w2 s2)"
    and u2: "upstream_events s2 = []"
    and fin: "\<And>w s. \<exists>w' s'. finish (Ret (w, s)) = Ret (w', s') \<and> wd_events s' = wd_events s"
    by (rule demo_chain [OF assms p t prep,
      of "''true''" "DoResp StatusOK [] ''{}'' False" "StreamResp StatusOK [] (\<lambda>_. ([], Some EOF))",
      folded demo_env_def, unfolded fwd]) (rule that; assumption)
  obtain q0 res where pol: "policy_Handler (main_policy c) (mux_ServeHTTP (gw_server gw)) (demo_env ''true'')
      (demo_forwarded i) w2 s2 =
    mux_ServeHTTP (gw_server gw) (demo_env ''true'') (demo_forwarded i) w2 (emit (Ev_OPA q0 res) s2)"
    using demo_policy unfolding demo_env_def by blast
  obtain q w3 s3 where "handleProxy (gw_server gw) (demo_env ''true'') (demo_forwarded i) w2
      (emit (Ev_OPA q0 res) s2) = Ret (w3, s3)"
    "wd_events s3 = wd_events (emit (Ev_OPA q0 res) s2) @ [Ev_Upstream q]"
    using demo_handleProxy by blast
  moreover from fin obtain w4 s4 where "finish (Ret (w3, s3)) = Ret (w4, s4)" "wd_events s4 = wd_events s3"
    by blast
  ultimately show ?thesis
    using that run pol u2
    by (auto simp: mux_ServeHTTP_def demo_forwarded_fields upstream_events_def emit_def)
qed

lemma demo_served:
  obtains gw w' s' q where "startup demo_getenv (\<lambda>_. None) (\<lambda>_. None) = Inr gw"
    "gateway_Handler gw (demo_env ''true'') demo_post (Base demo_conn) init_world = Ret (w', s')"
    "upstream_events s' = upstream_events init_world @ [Ev_Upstream q]"
  using demo_startup demo_run
  by (metis append_Nil filter.simps(1) init_world_def upstream_events_def world.select_convs(5))

lemma demo_post_fields:
  "wf_path demo_post" "req_method demo_post = ''POST''" "req_path demo_post \<noteq> ''/health''"
  "req_tokenInfo demo_post = None" "wf_header (req_header demo_post)"
  using wf_path_demo by (auto simp: demo_post_def demo_request_def wf_header_def wf_map_def)

lemma init_fields:
  "wd_store init_world = NewStore" "wd_audit_out init_world = []" "upstream_events init_world = []"
  by (simp_all add: init_world_def upstream_events_def)

section \<open>A post that asks for a stream\<close>

definition demo_sse :: request where
  "demo_sse = demo_request ''POST''
     [(''Content-Type'', [''text/plain'']), (''Accept'', [''text/event-stream''])] demo_body"

lemma demo_sse_fields:
  "req_path demo_sse = ''/''" "req_method demo_sse = ''POST''" "\<not> is_json demo_sse" "isSSERequest demo_sse"
  "req_body demo_sse = Body demo_body None" "mux_route demo_sse = RouteProxy"
proof -
  have "canonicalKey ''Accept'' = ''Accept''"
    by (rule canonicalKeyI) (simp_all add: canonical_defs)
  then show "isSSERequest demo_sse"
    by (simp add: isSSERequest_def demo_sse_def demo_request_def hget_def hvalues_def)
  show "mux_route demo_sse = RouteProxy"
    by (rule root_route) (simp_all add: demo_sse_def demo_request_def)
qed (simp_all add: demo_sse_def demo_request_def is_json_def hget_def hvalues_def)

lemma demo_sse_run:
  assumes "startup getenv open_file listen = Inr gw"
  obtains w' s' q where
    "gateway_Handler gw (demo_env allow) demo_sse (Base demo_conn) init_world = Ret (w', s')"
    "upstream_events s' = [Ev_SSE q]" "out_method q = ''POST''" "out_body q = Body demo_body None"
proof -
  have t: "extractBearerToken demo_sse = Inr ''t''" by (simp add: demo_sse_def demo_token)
  have same: "(WithRequestID i demo_sse)\<lparr>req_body := Body demo_body None\<rparr> = WithRequestID i demo_sse" for i
    using demo_sse_fields(5) by (cases demo_sse) (simp add: WithRequestID_def)
  have "maxBytesReader maxRequestSize (Body demo_body None) = Body demo_body None"
    using length_demo_body by simp
  moreover have "\<not> is_json (WithRequestID i demo_sse)" for i
    using demo_sse_fields(3) by (simp add: is_json_def)
  ultimately have prep: "audit_prepare (WithRequestID i demo_sse) = Some (unknownValue, WithRequestID i demo_sse)" for i
    by (simp add: audit_prepare_def audit_extractToolName_def demo_sse_fields same del: maxBytesReader.simps)
  define r' where "r' = (\<lambda>i. with_token demo_result (WithRequestID i demo_sse))"
  have r': "req_path (r' i) = ''/''" "req_method (r' i) = ''POST''" "\<not> is_json (r' i)" "isSSERequest (r' i)"
    "req_body (r' i) = Body demo_body None" for i
    using demo_sse_fields by (simp_all add: r'_def is_json_def isSSERequest_def)
  have route: "mux_route (r' i) = RouteProxy" for i
    by (rule root_route) (simp_all add: r'_def demo_sse_fields(2), simp add: demo_sse_def demo_request_def)
  have tk: "with_token demo_result (WithRequestID i demo_sse) = r' i" for i by (simp add: r'_def)
  obtain c i w2 s2 finish where run:
    "gateway_Handler gw (demo_env allow) demo_sse (Base demo_conn) init_world =
      finish (policy_Handler (main_policy c) (mux_ServeHTTP (gw_server gw)) (demo_env allow) (r' i) w2 s2)"
    and u2: "upstream_events s2 = []" and fl: "isFlusher w2"
    and fin: "\<And>w s. \<exists>w' s'. finish (Ret (w, s)) = Ret (w', s') \<and> wd_events s' = wd_events s"
    by (rule demo_chain [OF assms demo_sse_fields(1) t prep,
      of allow "DoResp StatusOK [] ''{}'' False" "StreamResp StatusOK [] (\<lambda>_. ([], Some EOF))",
      folded demo_env_def, unfolded tk]) (rule that; assumption)
  have pol: "policy_Handler (main_policy c) (mux_ServeHTTP (gw_server gw)) (demo_env allow) (r' i) w2 s2 =
      handleSSE (gw_server gw) (demo_env allow) (r' i) w2 s2"
    by (simp add: policy_Handler_def buildInput_def r' route mux_ServeHTTP_def handleProxy_def)
  obtain q where q: "proxy_request (gw_server gw) (r' i) (Body demo_body None) = Some q"
    by (simp add: proxy_request_def newRequest_def r' validMethod_POST)
  have "\<exists>w3. handleSSE (gw_server gw) (demo_env allow) (r' i) w2 s2 = Ret (w3, emit (Ev_SSE q) s2)"
    by (simp add: handleSSE_def fl r' q demo_env_def demo_env_with_def WriteHeader_panics_def http_status
        sse_loop.simps sse_round_def)
  with run pol obtain w3 where "gateway_Handler gw (demo_env allow) demo_sse (Base demo_conn) init_world =
      finish (Ret (w3, emit (Ev_SSE q) s2))" by auto
  moreover obtain w4 s4 where "finish (Ret (w3, emit (Ev_SSE q) s2)) = Ret (w4, s4)"
    "wd_events s4 = wd_events (emit (Ev_SSE q) s2)" using fin by blast
  moreover have "out_method q = ''POST''" "out_body q = Body demo_body None"
    using proxy_request_fields [OF q] r' by auto
  ultimately show ?thesis using that u2 by (auto simp: upstream_events_def emit_def)
qed

section \<open>A server that answers with a status no handler may write\<close>

lemma demo_panic_run:
  assumes "startup getenv open_file listen = Inr gw"
  obtains w' s' q where
    "gateway_Handler gw (demo_env_with allow (DoResp 99 [] [] False) stream) (demo_request ''GET'' [] [])
       (Base demo_conn) init_world = Panic (w', s')"
    "upstream_events s' = [Ev_Upstream q]"
proof -
  let ?env = "demo_env_with allow (DoResp 99 [] [] False) stream"
  let ?r = "demo_request ''GET'' [] []"
  define r' where "r' = (\<lambda>i. with_token demo_result (WithRequestID i ?r))"
  have p: "req_path ?r = ''/''" by (simp add: demo_request_def)
  have prep: "audit_prepare (WithRequestID i ?r) = Some (''GET /'', WithRequestID i ?r)" for i
    by (simp add: audit_prepare_def demo_request_def truncate_str_def maxHeaderValueLen_def WithRequestID_def)
  have r': "req_method (r' i) = ''GET''" "req_path (r' i) = ''/''" "req_body (r' i) = Body [] None"
    "\<not> isSSERequest (r' i)" "mux_route (r' i) = RouteProxy" for i
  proof -
    have "canonicalKey ''Accept'' = ''Accept''"
      by (rule canonicalKeyI) (simp_all add: canonical_defs)
    then show "\<not> isSSERequest (r' i)"
      by (simp add: isSSERequest_def r'_def demo_request_def hget_def hvalues_def)
    show "mux_route (r' i) = RouteProxy"
      by (rule root_route) (simp_all add: r'_def demo_request_def)
  qed (simp_all add: r'_def demo_request_def)
  have tk: "with_token demo_result (WithRequestID i ?r) = r' i" for i by (simp add: r'_def)
  obtain c i w2 s2 finish where run: "gateway_Handler gw ?env ?r (Base demo_conn) init_world =
      finish (policy_Handler (main_policy c) (mux_ServeHTTP (gw_server gw)) ?env (r' i) w2 s2)"
    and u2: "upstream_events s2 = []" and open_w: "c_sent (w_conn w2) = None"
    and fin: "\<And>w s. \<exists>w'. finish (Panic (w, s)) = Panic (w', s)"
    by (rule demo_chain [OF assms p demo_token prep, of allow "DoResp 99 [] [] False" stream, unfolded tk])
      (rule that; assumption)
  obtain w3 s3 where d: "setDeadline ?env w2 s2 = (w3, s3)" by fastforce
  have w3: "c_sent (w_conn w3) = None" using d open_w by (cases w2) (auto simp: setDeadline_def split: prod.splits)
  obtain q where q: "proxy_request (gw_server gw) (r' i) NilBody = Some q"
    by (simp add: proxy_request_def newRequest_def r' validMethod_def canonical_defs)
  let ?w4 = "w_set_header (\<lambda>h. copyHeaders h []) w3"
  have "WriteHeader_panics 99 ?w4" using w3 by (simp add: WriteHeader_panics_def w_set_header_def)
  then have "policy_Handler (main_policy c) (mux_ServeHTTP (gw_server gw)) ?env (r' i) w2 s2 =
      Panic (?w4, emit (Ev_Upstream q) s3)"
    by (simp add: policy_Handler_def r' mux_ServeHTTP_def handleProxy_def d body_error_def
        forwardRequest_def q) (simp add: demo_env_with_def)
  with run fin obtain w5 where "gateway_Handler gw ?env ?r (Base demo_conn) init_world =
      Panic (w5, emit (Ev_Upstream q) s3)" by metis
  moreover have "upstream_events (emit (Ev_Upstream q) s3) = [Ev_Upstream q]"
    using setDeadline_sends [OF d] u2 by (simp add: sends_def upstream_events_def emit_def)
  ultimately show ?thesis using that by blast
qed

end
