(* ===== verification/ConcurrentGateway.thy ===== *)
theory ConcurrentGateway
  imports AuditPhases Demo
begin

text \<open>
  What holds of the gateway while it serves any number of requests at the same time (\<open>pool_reach\<close> of
  theory \<open>Interleave\<close>), and that a request served alone is what the sequential theories describe.
\<close>

section \<open>A run of one request\<close>

lemma startup_process:
  assumes "startup getenv open_file listen = Inr gw"
  obtains h c where "NewHydraIntrospector (getenv ''HYDRA_ADMIN_URL'') = Inr h"
    "policy_NewClient (getenv ''OPA_URL'') = Inr c"
    "\<And>env r w s. with_world (exec (p_gateway h c (gw_server gw) env r w) s) = gateway_Handler gw env r w s"
proof -
  obtain h c where gw: "gateway_Handler gw = RequestIDMiddleware (audit_Handler main_audit (guarded h c (gw_server gw)))"
    and hc: "NewHydraIntrospector (getenv ''HYDRA_ADMIN_URL'') = Inr h" "policy_NewClient (getenv ''OPA_URL'') = Inr c"
    by (rule startup_chain [OF assms])
  show ?thesis by (rule that [OF hc]) (simp add: gw implementsD [OF implements_gateway])
qed

text \<open>A pool that has served one request to the end, for a run of the handlers.\<close>

lemma pool_of_run:
  assumes "startup getenv open_file listen = Inr gw" "wf_path r" "req_tokenInfo r = None" "new_conn c0" "wf_env env"
    and "gateway_Handler gw env r (Base c0) init_world = Ret (w', s')"
  obtains h c \<pi> ow where "pool_reach h c (gw_server gw) \<pi>" "pl_world \<pi> = s'"
    "pl_threads \<pi> = [\<lparr>th_request = r, th_own = ow, th_proc = Done (Ret w')\<rparr>]"
proof -
  obtain h c where p: "with_world (exec (p_gateway h c (gw_server gw) env r (Base c0)) init_world) = Ret (w', s')"
    using startup_process [OF assms(1)] assms(6) by metis
  obtain res s1 where e: "exec (p_gateway h c (gw_server gw) env r (Base c0)) init_world = (res, s1)" by fastforce
  with p have r: "res = Ret w'" "s1 = s'" by (cases res; simp add: with_world_def)+
  have n: "pl_world no_threads = init_world" "pl_threads no_threads = []" by (simp_all add: no_threads_def)
  from served_alone [OF assms(2-5), of h c "gw_server gw" no_threads] e r n that show ?thesis by fastforce
qed

text \<open>
  The concurrent server has the sequential handlers as the special case in which no other request interferes:
  in any state, a request whose thread is not interrupted leads to the response and the world that the
  composed handler gives.
\<close>

lemma uninterrupted_request_is_handler:
  assumes "startup getenv open_file listen = Inr gw"
  shows "\<exists>h c. NewHydraIntrospector (getenv ''HYDRA_ADMIN_URL'') = Inr h \<and> policy_NewClient (getenv ''OPA_URL'') = Inr c \<and>
    (\<forall>\<pi> env r c0. wf_path r \<and> req_tokenInfo r = None \<and> new_conn c0 \<and> wf_env env \<longrightarrow>
      (\<exists>res ow s'. gateway_Handler gw env r (Base c0) (pl_world \<pi>) = with_world (res, s') \<and>
        (pstep h c (gw_server gw))\<^sup>*\<^sup>* \<pi> \<lparr>pl_world = s', pl_threads = pl_threads \<pi> @
          [\<lparr>th_request = r, th_own = ow, th_proc = Done res\<rparr>]\<rparr>))"
proof (rule startup_process [OF assms])
  fix h c
  assume hc: "NewHydraIntrospector (getenv ''HYDRA_ADMIN_URL'') = Inr h" "policy_NewClient (getenv ''OPA_URL'') = Inr c"
    and eq: "\<And>env r w s. with_world (exec (p_gateway h c (gw_server gw) env r w) s) = gateway_Handler gw env r w s"
  have "\<exists>res ow s'. gateway_Handler gw env r (Base c0) (pl_world \<pi>) = with_world (res, s') \<and>
        (pstep h c (gw_server gw))\<^sup>*\<^sup>* \<pi> \<lparr>pl_world = s', pl_threads = pl_threads \<pi> @
          [\<lparr>th_request = r, th_own = ow, th_proc = Done res\<rparr>]\<rparr>"
    if a: "wf_path r" "req_tokenInfo r = None" "new_conn c0" "wf_env env" for \<pi> env r c0
  proof -
    obtain res s' where e: "exec (p_gateway h c (gw_server gw) env r (Base c0)) (pl_world \<pi>) = (res, s')" by fastforce
    with eq [of env r "Base c0" "pl_world \<pi>"] served_alone [OF a e] show ?thesis by metis
  qed
  with hc show ?thesis by blast
qed

text \<open>Everything the MCP server has received was authorized for a request.\<close>

lemma sent_authorized:
  assumes "pool_reach h c srv \<pi>" "ev \<in> set (wd_events (pl_world \<pi>))" "is_upstream ev"
  obtains r pre where "authorized srv r pre ev"
proof -
  have inv: "pool_inv srv \<pi>" by (rule pool_inv_reach [OF assms(1)])
  obtain pre post where "wd_events (pl_world \<pi>) = pre @ ev # post" using assms(2) by (meson split_list)
  with inv assms(3) obtain t where t: "t \<in> set (pl_threads \<pi>)" "(pre, ev) \<in> set (ow_sends (th_own t))"
    unfolding pool_inv_def by blast
  with inv have "rules srv (th_request t) (th_own t)" by (auto simp: pool_inv_def thread_ok_def)
  with t(2) have "authorized srv (th_request t) pre ev" by (auto simp: rules_def)
  then show ?thesis by (rule that)
qed

text \<open>The line of an answered request, in terms of what Hydra has answered.\<close>

lemma answered_line:
  assumes "gateway_done r E ow (Ret w)" "set E \<subseteq> set E'" "req_path r \<noteq> ''/health''"
  shows "\<exists>e c' st. w = Base c' \<and> ow_lines ow = [log_attrs e] \<and>
    (e_Decision e = DecisionDeny \<longleftrightarrow> st = StatusUnauthorized \<or> st = StatusForbidden) \<and>
    (final_status st \<longrightarrow> (\<exists>hd. c_sent c' = Some (st, hd))) \<and> e_Metadata e = metadata_of r st \<and>
    (e_ClientID e = unknownValue \<and> st = StatusUnauthorized \<and> ow_sends ow = [] \<or>
     (\<exists>token result. extractBearerToken r = Inr token \<and> ir_Active result \<and>
        introspected E' (hashToken token) result \<and>
        e_ClientID e = (if ir_ClientID result = [] then unknownValue else ir_ClientID result)))"
proof -
  obtain e c' st x where d: "w = Base c'" "ow_lines ow = [log_attrs e]" "e_Decision e = decision_of st"
    "e_Metadata e = metadata_of r st" "final_status st \<longrightarrow> (\<exists>hd. c_sent c' = Some (st, hd))"
    "e_ClientID e = (if x = [] then unknownValue else x)" "identified r E ow x st"
    using assms(1,3) unfolding gateway_done_def go.case by (simp only: if_False) blast
  have "e_Decision e = DecisionDeny \<longleftrightarrow> st = StatusUnauthorized \<or> st = StatusForbidden"
    using d(3) by (auto simp: decision_of_def effectiveStatus_def http_status)
  moreover have "e_ClientID e = unknownValue \<and> st = StatusUnauthorized \<and> ow_sends ow = [] \<or>
     (\<exists>token result. extractBearerToken r = Inr token \<and> ir_Active result \<and>
        introspected E' (hashToken token) result \<and>
        e_ClientID e = (if ir_ClientID result = [] then unknownValue else ir_ClientID result))"
    using identified_mono [OF d(7) assms(2)] d(6) unfolding identified_def by metis
  ultimately show ?thesis using d(1,2,4,5) by blast
qed

section \<open>Properties\<close>

text \<open>
  C1: authentication and authorization hold however requests interleave.  Every request the MCP server has
  received belongs to one thread, which has sent no other; the thread's request carries a bearer token
  that Hydra had reported as active before, and a POST that is no event stream was before that allowed
  by the policy engine for the identity, method and tool of exactly the body that was sent.
\<close>

theorem concurrent_upstream_authorized:
  assumes "pool_reach h c srv \<pi>" "wd_events (pl_world \<pi>) = pre @ ev # post" "is_upstream ev"
  shows "\<exists>t \<in> set (pl_threads \<pi>). \<exists>token result.
    ow_sends (th_own t) = [(pre, ev)] \<and> req_path (th_request t) \<noteq> ''/health'' \<and>
    extractBearerToken (th_request t) = Inr token \<and> ir_Active result \<and>
    introspected pre (hashToken token) result \<and>
    (\<forall>q. ev = Ev_Upstream q \<and> req_method (th_request t) = ''POST'' \<longrightarrow>
      (\<exists>d e i. req_body (th_request t) = Body d e \<and>
        out_body q = (if d = [] then NilBody else restored (take maxRequestSize d)) \<and>
        input_of (with_token result (th_request t)) (take maxRequestSize d) = Some i \<and> opa_allowed pre i))"
proof -
  have inv: "pool_inv srv \<pi>" by (rule pool_inv_reach [OF assms(1)])
  then obtain t where t: "t \<in> set (pl_threads \<pi>)" "(pre, ev) \<in> set (ow_sends (th_own t))"
    using assms(2,3) unfolding pool_inv_def by blast
  with inv have r: "rules srv (th_request t) (th_own t)" by (auto simp: pool_inv_def thread_ok_def)
  then have one: "ow_sends (th_own t) = [(pre, ev)]"
    using t(2) by (cases "ow_sends (th_own t)") (auto simp: rules_def)
  have "authorized srv (th_request t) pre ev" using r t(2) by (auto simp: rules_def)
  then obtain token result j r' b where a: "req_path (th_request t) \<noteq> ''/health''"
    "extractBearerToken (th_request t) = Inr token" "ir_Active result" "introspected pre (hashToken token) result"
    "audited (WithRequestID j (th_request t)) = Some r'" "forwarded srv ((with_token result r')\<lparr>req_body := b\<rparr>) ev"
    "policy_passed pre (with_token result r') b"
    unfolding authorized_def by blast
  have "\<exists>d e i. req_body (th_request t) = Body d e \<and>
      out_body q = (if d = [] then NilBody else restored (take maxRequestSize d)) \<and>
      input_of (with_token result (th_request t)) (take maxRequestSize d) = Some i \<and> opa_allowed pre i"
    if "ev = Ev_Upstream q \<and> req_method (th_request t) = ''POST''" for q
    using forwarded_post_input [OF a(5) _ _ a(7), of srv q] a(6) that by metis
  with t(1) one a(1-4) show ?thesis by blast
qed

theorem concurrent_upstream_authorized_witness:
  "\<exists>h c srv \<pi> pre q post token i. pool_reach h c srv \<pi> \<and> wd_events (pl_world \<pi>) = pre @ Ev_Upstream q # post \<and>
     extractBearerToken demo_post = Inr token \<and> opa_allowed pre i"
proof -
  obtain gw w' s' q where gw: "startup demo_getenv (\<lambda>_. None) (\<lambda>_. None) = Inr gw"
    and run: "gateway_Handler gw (demo_env ''true'') demo_post (Base demo_conn) init_world = Ret (w', s')"
      "upstream_events s' = upstream_events init_world @ [Ev_Upstream q]" by (rule demo_served)
  obtain h c \<pi> ow where \<pi>: "pool_reach h c (gw_server gw) \<pi>" "pl_world \<pi> = s'"
    "pl_threads \<pi> = [\<lparr>th_request = demo_post, th_own = ow, th_proc = Done (Ret w')\<rparr>]"
    by (rule pool_of_run [OF gw demo_post_fields(1,4) new_demo_conn wf_demo_env run(1)])
  have "Ev_Upstream q \<in> set (wd_events s')" using arg_cong [OF run(2), of set] by (auto simp: upstream_events_def)
  then obtain pre post where e: "wd_events (pl_world \<pi>) = pre @ Ev_Upstream q # post"
    using \<pi>(2) by (auto dest: split_list)
  from concurrent_upstream_authorized [OF \<pi>(1) e] \<pi>(3) demo_post_fields(2)
  obtain token i where "extractBearerToken demo_post = Inr token" "opa_allowed pre i" by auto
  with \<pi>(1) e show ?thesis by blast
qed

text \<open>
  C2: the audit trail is complete and true however requests interleave, at every moment: the log consists
  of the lines the threads have written.  A thread that has answered a request other than the health check
  has written exactly one, which says DENY exactly if the recorded status, which the client has received,
  is 401 or 403, and names the client whose token Hydra vouched for, or \<open>unknown\<close> for a request that was
  refused with 401 and not forwarded.  A health check, a request that panicked and one that hangs have
  written none.  A thread that is still running has written none either, unless it has just one step left,
  which answers the request; then it has written one.
\<close>

theorem concurrent_audit_trail:
  assumes "pool_reach h c srv \<pi>"
  shows "mset (wd_audit_out (pl_world \<pi>)) = sum_list (map (\<lambda>t. mset (ow_lines (th_own t))) (pl_threads \<pi>)) \<and>
    (\<forall>t \<in> set (pl_threads \<pi>). case th_proc t of
        Done (Ret w) \<Rightarrow>
          if req_path (th_request t) = ''/health'' then ow_lines (th_own t) = []
          else \<exists>e c' st. w = Base c' \<and> ow_lines (th_own t) = [log_attrs e] \<and>
            (e_Decision e = DecisionDeny \<longleftrightarrow> st = StatusUnauthorized \<or> st = StatusForbidden) \<and>
            (final_status st \<longrightarrow> (\<exists>hd. c_sent c' = Some (st, hd))) \<and> e_Metadata e = metadata_of (th_request t) st \<and>
            (e_ClientID e = unknownValue \<and> st = StatusUnauthorized \<and> ow_sends (th_own t) = [] \<or>
             (\<exists>token result. extractBearerToken (th_request t) = Inr token \<and> ir_Active result \<and>
                introspected (wd_events (pl_world \<pi>)) (hashToken token) result \<and>
                e_ClientID e = (if ir_ClientID result = [] then unknownValue else ir_ClientID result)))
      | Done (Panic w) \<Rightarrow> ow_lines (th_own t) = []
      | Done (Hang w) \<Rightarrow> ow_lines (th_own t) = []
      | Atomic f \<Rightarrow> ow_lines (th_own t) = [] \<or>
          length (ow_lines (th_own t)) = 1 \<and> req_path (th_request t) \<noteq> ''/health'' \<and>
          (\<forall>s. \<exists>w s'. f s = (Done (Ret w), s')))"
    (is "_ \<and> (\<forall>t \<in> set _. ?ok t)")
proof -
  have inv: "pool_inv srv \<pi>" by (rule pool_inv_reach [OF assms])
  have "?ok t" if t: "t \<in> set (pl_threads \<pi>)" for t
  proof (cases "th_proc t")
    case (Done res)
    obtain E where E: "set E \<subseteq> set (wd_events (pl_world \<pi>))" "gateway_done (th_request t) E (th_own t) res"
      using inv t Done by (fastforce simp: pool_inv_def thread_ok_def)
    show ?thesis
    proof (cases res)
      case (Ret w)
      note ret = E(2) [unfolded Ret]
      show ?thesis
      proof (cases "req_path (th_request t) = ''/health''")
        case True
        with ret show ?thesis by (simp add: Done Ret gateway_done_def)
      next
        case False
        with answered_line [OF ret E(1) False] show ?thesis
          by (simp only: Done Ret proc.case go.case if_False)
      qed
    qed (use Done E(2) in \<open>simp_all add: gateway_done_def\<close>)
  next
    case (Atomic f)
    have "length (ow_lines (th_own t)) \<le> 1" using inv t by (auto simp: pool_inv_def thread_ok_def rules_def)
    with line_written [OF assms t] Atomic show ?thesis by (cases "ow_lines (th_own t)") simp_all
  qed
  with inv show ?thesis unfolding pool_inv_def by blast
qed

theorem concurrent_audit_trail_witness:
  "\<exists>h c srv \<pi> e. pool_reach h c srv \<pi> \<and> wd_audit_out (pl_world \<pi>) = [log_attrs e]"
proof -
  obtain gw w' s' q where gw: "startup demo_getenv (\<lambda>_. None) (\<lambda>_. None) = Inr gw"
    and run: "gateway_Handler gw (demo_env ''true'') demo_post (Base demo_conn) init_world = Ret (w', s')"
    by (rule demo_served)
  obtain h c \<pi> ow where \<pi>: "pool_reach h c (gw_server gw) \<pi>" "pl_world \<pi> = s'"
    "pl_threads \<pi> = [\<lparr>th_request = demo_post, th_own = ow, th_proc = Done (Ret w')\<rparr>]"
    by (rule pool_of_run [OF gw demo_post_fields(1,4) new_demo_conn wf_demo_env run])
  from concurrent_audit_trail [OF \<pi>(1)] \<pi>(3) demo_post_fields(3)
  obtain e :: entry where "ow_lines ow = [log_attrs e]" "mset (wd_audit_out (pl_world \<pi>)) = mset (ow_lines ow)" by auto
  then have "wd_audit_out (pl_world \<pi>) = [log_attrs e]" by simp
  with \<pi>(1) show ?thesis by blast
qed

end
