(* ===== verification/AuditThreads.thy ===== *)
theory AuditThreads
  imports GrpcServer "HOL-Library.Multiset" "HOL-Library.Sublist"
begin

text \<open>
  The audit log while several requests are served (\<open>internal/audit/logger.go\<close>) and while a client of
  the management API pages through it (\<open>internal/grpcserver/server.go\<close>).  \<open>Log\<close> writes the line and
  then appends to the store, each under a lock of its own; other threads can come between the two.
  A page is read under the lock of the store, and entries can arrive between two pages.
\<close>

section \<open>Threads that log\<close>

text \<open>The entry a thread has written to the log and not yet appended to the store.\<close>

record log_state =
  ls_out :: audit_out
  ls_store :: "entry store"
  ls_pending :: "nat \<Rightarrow> entry option"

definition writeLine :: "nat \<Rightarrow> entry \<Rightarrow> log_state \<Rightarrow> log_state" where
  "writeLine i e \<sigma> = \<sigma>\<lparr>ls_out := ls_out \<sigma> @ [log_attrs e], ls_pending := (ls_pending \<sigma>)(i := Some e)\<rparr>"

definition appendEntry :: "nat \<Rightarrow> entry \<Rightarrow> log_state \<Rightarrow> log_state" where
  "appendEntry i e \<sigma> = \<sigma>\<lparr>ls_store := Append e (ls_store \<sigma>), ls_pending := (ls_pending \<sigma>)(i := None)\<rparr>"

inductive lstep :: "log_state \<Rightarrow> log_state \<Rightarrow> bool" where
  write_line: "ls_pending \<sigma> i = None \<Longrightarrow> lstep \<sigma> (writeLine i e \<sigma>)"
| append_entry: "ls_pending \<sigma> i = Some e \<Longrightarrow> lstep \<sigma> (appendEntry i e \<sigma>)"

inductive_cases lstepE: "lstep \<sigma> \<sigma>'"

definition log_start :: log_state where
  "log_start = \<lparr>ls_out = [], ls_store = NewStore, ls_pending = (\<lambda>_. None)\<rparr>"

text \<open>The threads that are inside \<open>Log\<close>, and their entries.\<close>

definition busy :: "log_state \<Rightarrow> nat set" where
  "busy \<sigma> = {i. ls_pending \<sigma> i \<noteq> None}"

definition in_flight :: "log_state \<Rightarrow> entry multiset" where
  "in_flight \<sigma> = image_mset (\<lambda>i. the (ls_pending \<sigma> i)) (mset_set (busy \<sigma>))"

lemma log_state_simps [simp]:
  "ls_out (writeLine i e \<sigma>) = ls_out \<sigma> @ [log_attrs e]" "ls_store (writeLine i e \<sigma>) = ls_store \<sigma>"
  "ls_pending (writeLine i e \<sigma>) = (ls_pending \<sigma>)(i := Some e)"
  "ls_out (appendEntry i e \<sigma>) = ls_out \<sigma>" "ls_store (appendEntry i e \<sigma>) = Append e (ls_store \<sigma>)"
  "ls_pending (appendEntry i e \<sigma>) = (ls_pending \<sigma>)(i := None)"
  by (simp_all add: writeLine_def appendEntry_def)

lemma busy_writeLine: "busy (writeLine i e \<sigma>) = insert i (busy \<sigma>)"
  by (auto simp: busy_def)

lemma busy_appendEntry: "busy (appendEntry i e \<sigma>) = busy \<sigma> - {i}"
  by (auto simp: busy_def)

lemma image_mset_upd:
  "finite A \<Longrightarrow> i \<notin> A \<Longrightarrow> image_mset (\<lambda>j. the ((f(i := v)) j)) (mset_set A) = image_mset (\<lambda>j. the (f j)) (mset_set A)"
  by (rule image_mset_cong) auto

lemma in_flight_writeLine:
  assumes "finite (busy \<sigma>)" "ls_pending \<sigma> i = None"
  shows "in_flight (writeLine i e \<sigma>) = add_mset e (in_flight \<sigma>)"
proof -
  have i: "i \<notin> busy \<sigma>" using assms(2) by (simp add: busy_def)
  then have "mset_set (insert i (busy \<sigma>)) = add_mset i (mset_set (busy \<sigma>))" using assms(1) by simp
  with image_mset_upd [OF assms(1) i, of "ls_pending \<sigma>" "Some e"] show ?thesis
    unfolding in_flight_def busy_writeLine log_state_simps by (simp only: image_mset_add_mset fun_upd_same option.sel)
qed

lemma in_flight_appendEntry:
  assumes "finite (busy \<sigma>)" "ls_pending \<sigma> i = Some e"
  shows "in_flight \<sigma> = add_mset e (in_flight (appendEntry i e \<sigma>))"
proof -
  have i: "i \<in> busy \<sigma>" using assms(2) by (simp add: busy_def)
  then have "mset_set (busy \<sigma>) = add_mset i (mset_set (busy \<sigma> - {i}))"
    using assms(1) by (simp add: mset_set.remove)
  moreover have "finite (busy \<sigma> - {i})" "i \<notin> busy \<sigma> - {i}" using assms(1) by simp_all
  note image_mset_upd [OF this, of "ls_pending \<sigma>" None]
  ultimately show ?thesis
    unfolding in_flight_def busy_appendEntry log_state_simps
    by (simp only: image_mset_add_mset assms(2) option.sel)
qed

text \<open>The invariant: the lines are those of the entries appended and of the entries in flight.\<close>

definition log_inv :: "entry list \<Rightarrow> entry list \<Rightarrow> log_state \<Rightarrow> bool" where
  "log_inv ws es \<sigma> \<longleftrightarrow> finite (busy \<sigma>) \<and> ls_out \<sigma> = map log_attrs ws \<and>
     ls_store \<sigma> = fold Append es NewStore \<and> mset ws = mset es + in_flight \<sigma>"

lemma log_inv_start: "log_inv [] [] log_start"
  by (simp add: log_inv_def log_start_def busy_def in_flight_def)

lemma log_inv_step:
  assumes "lstep \<sigma> \<sigma>'" "log_inv ws es \<sigma>"
  shows "\<exists>ws' es'. log_inv ws' es' \<sigma>'"
  using assms(1)
proof (cases rule: lstep.cases)
  case (write_line i e)
  with assms(2) have "log_inv (ws @ [e]) es \<sigma>'"
    by (simp add: log_inv_def busy_writeLine in_flight_writeLine)
  then show ?thesis by blast
next
  case (append_entry i e)
  with assms(2) in_flight_appendEntry [of \<sigma> i e] have "log_inv ws (es @ [e]) \<sigma>'"
    by (simp add: log_inv_def busy_appendEntry)
  then show ?thesis by blast
qed

lemma log_inv_reach: "lstep\<^sup>*\<^sup>* log_start \<sigma> \<Longrightarrow> \<exists>ws es. log_inv ws es \<sigma>"
  by (induction rule: rtranclp_induct) (use log_inv_start log_inv_step in blast)+

text \<open>A thread that is not interrupted does what \<open>Log\<close> does.\<close>

lemma uninterrupted_log:
  assumes "ls_pending \<sigma> i = None"
  shows "\<exists>\<sigma>'. lstep\<^sup>*\<^sup>* \<sigma> \<sigma>' \<and> ls_pending \<sigma>' = ls_pending \<sigma> \<and>
    Log e (ls_out \<sigma>, ls_store \<sigma>) = (ls_out \<sigma>', ls_store \<sigma>')"
proof -
  let ?\<sigma>1 = "writeLine i e \<sigma>"
  have "lstep \<sigma> ?\<sigma>1" by (rule write_line [OF assms])
  moreover have "lstep ?\<sigma>1 (appendEntry i e ?\<sigma>1)" by (rule append_entry) simp
  ultimately have "lstep\<^sup>*\<^sup>* \<sigma> (appendEntry i e ?\<sigma>1)" by simp
  with assms show ?thesis by (intro exI [of _ "appendEntry i e ?\<sigma>1"]) (auto simp: Log_def)
qed

section \<open>A client that pages while entries arrive\<close>

text \<open>\<open>arrivals k\<close> are the entries appended between page number \<open>k\<close> and the next.\<close>

fun fetch_during :: "nat \<Rightarrow> (nat \<Rightarrow> entry list) \<Rightarrow> entry store \<Rightarrow> 32 word \<Rightarrow> string \<Rightarrow> audit_log_msg list option" where
  "fetch_during 0 arrivals st n token = None"
| "fetch_during (Suc fuel) arrivals st n token =
    (case ListAuditLogs st \<lparr>rq_PageToken = token, rq_PageSize = n\<rparr> of
       Some (Inr resp) \<Rightarrow>
         if rs_NextPageToken resp = [] then Some (rs_AuditLogs resp)
         else map_option (\<lambda>rest. rs_AuditLogs resp @ rest)
           (fetch_during fuel (\<lambda>k. arrivals (Suc k)) (fold Append (arrivals 0) st) n (rs_NextPageToken resp))
     | _ \<Rightarrow> None)"

lemma fetch_during_quiet: "fetch_during fuel (\<lambda>_. []) st n token = fetch_all fuel st n token"
  by (induction fuel arbitrary: token) (auto split: option.split sum.split)

lemma subseq_takes: "a \<le> b \<Longrightarrow> subseq (take a xs) (take b xs)"
  by (metis min.absorb1 prefix_imp_subseq take_is_prefix take_take)

lemma subseq_shift:
  "subseq (take (a - b) (drop b xs)) (take (a + length ys - b) (drop b (ys @ xs)))"
proof (cases "b \<le> a")
  case True
  have "drop (length ys) (drop b (ys @ xs)) = drop b xs" by (simp add: drop_drop del: drop_append) (simp add: add.commute)
  with True have "drop (length ys) (take (a + length ys - b) (drop b (ys @ xs))) = take (a - b) (drop b xs)"
    by (simp add: drop_take del: drop_append)
  then show ?thesis by (metis suffix_drop suffix_imp_subseq)
qed simp

text \<open>
  From an offset on, the pages hold what is then in the store, apart from what the entries to come will
  push out, and nothing that was never logged.
\<close>

lemma fetch_during_from:
  assumes "page_offset token = Inr (int off)" "0 < fuel" "maxStoreSize - off < fuel"
  shows "\<exists>ms. fetch_during fuel arrivals (fold Append es NewStore) n token = Some ms \<and>
    subseq (map log_msg (take (maxStoreSize - (\<Sum>k<fuel. length (arrivals k)) - off) (drop off (rev es)))) ms \<and>
    set ms \<subseteq> log_msg ` (set es \<union> (\<Union>k. set (arrivals k)))"
  using assms
proof (induction fuel arbitrary: arrivals es token off)
  case 0
  then show ?case by simp
next
  case (Suc fuel)
  note sum.lessThan_Suc [simp del]
  let ?st = "fold Append es NewStore" and ?Z = "drop off (rev es)"
  let ?S = "\<Sum>k<Suc fuel. length (arrivals k)" and ?S' = "\<Sum>k<fuel. length (arrivals (Suc k))"
  define k where "k = nat (page_size n)"
  have k1: "1 \<le> k" using page_size_bounds [of n] by (simp add: k_def)
  have inv: "store_inv ?st" by (rule ring.inv_run [OF ring.inv_new])
  have log: "drop off (store_log ?st) = take (maxStoreSize - off) ?Z" by (simp add: ring.log_fresh drop_take)
  have len: "length (store_log ?st) = min (length es) maxStoreSize" by (simp add: ring.log_fresh min.commute)
  let ?page = "take k (take (maxStoreSize - off) ?Z)"
  have page: "ListAuditLogs ?st \<lparr>rq_PageToken = token, rq_PageSize = n\<rparr> = Some (Inr
    \<lparr>rs_AuditLogs = map log_msg ?page,
     rs_NextPageToken = (if off + k < min (length es) maxStoreSize then itoa (int (off + k)) else []),
     rs_TotalCount = total_count (int (min (length es) maxStoreSize))\<rparr>)"
    using ListAuditLogs_page [OF inv, of "\<lparr>rq_PageToken = token, rq_PageSize = n\<rparr>" "int off"] Suc.prems(1)
    by (simp only: k_def [symmetric] log len list_request.select_convs nat_int of_nat_add)
  have in_es: "set ?page \<subseteq> set es" by (auto dest!: in_set_takeD in_set_dropD)
  have S: "?S = length (arrivals 0) + ?S'" by (simp only: sum.lessThan_Suc_shift)
  let ?L = "take (maxStoreSize - ?S - off) ?Z"
  have "subseq (take k ?L) ?page" unfolding take_take by (rule subseq_takes) simp
  then have pg: "subseq (map log_msg (take k ?L)) (map log_msg ?page)" by (rule subseq_map)
  show ?case
  proof (cases "off + k < min (length es) maxStoreSize")
    case False
    then have "length ?L \<le> k" by auto
    then have "take k ?L = ?L" by (rule take_all)
    with pg in_es False show ?thesis by (auto simp: page)
  next
    case True
    have tok: "page_offset (itoa (int (off + k))) = Inr (int (off + k))"
      using True by (intro page_offset_itoa) (simp_all add: max_int64_def maxStoreSize_def)
    have "off + k < maxStoreSize" using True by simp
    then have "0 < fuel" "maxStoreSize - (off + k) < fuel" using Suc.prems(3) k1 by linarith+
    from Suc.IH [OF tok this, of "\<lambda>k. arrivals (Suc k)" "es @ arrivals 0"]
    obtain ms where ms: "fetch_during fuel (\<lambda>k. arrivals (Suc k)) (fold Append (arrivals 0) ?st) n (itoa (int (off + k))) = Some ms"
      "subseq (map log_msg (take (maxStoreSize - ?S' - (off + k)) (drop (off + k) (rev (arrivals 0) @ rev es)))) ms"
      "set ms \<subseteq> log_msg ` (set (es @ arrivals 0) \<union> (\<Union>k. set (arrivals (Suc k))))"
      by auto
    let ?R = "take (maxStoreSize - ?S' - (off + k)) (drop (off + k) (rev (arrivals 0) @ rev es))"
    have d: "drop k ?L = take (maxStoreSize - ?S - (off + k)) (drop (off + k) (rev es))"
      by (simp add: drop_take ac_simps)
    have "subseq (take (maxStoreSize - ?S - (off + k)) (drop (off + k) (rev es))) ?R"
    proof (cases "?S \<le> maxStoreSize")
      case True
      then have "maxStoreSize - ?S' = maxStoreSize - ?S + length (rev (arrivals 0))" by (simp add: S)
      then show ?thesis by (simp only: subseq_shift)
    qed simp
    then have "subseq (map log_msg (drop k ?L)) (map log_msg ?R)" unfolding d by (rule subseq_map)
    then have rest: "subseq (map log_msg (drop k ?L)) ms" using ms(2) by (rule subseq_order.trans)
    have "map log_msg ?L = map log_msg (take k ?L) @ map log_msg (drop k ?L)"
      by (metis append_take_drop_id map_append)
    with list_emb_append_mono [OF pg rest] have "subseq (map log_msg ?L) (map log_msg ?page @ ms)" by simp
    moreover have "set (map log_msg ?page @ ms) \<subseteq> log_msg ` (set es \<union> (\<Union>k. set (arrivals k)))"
    proof -
      have "set (es @ arrivals 0) \<union> (\<Union>k. set (arrivals (Suc k))) \<subseteq> set es \<union> (\<Union>k. set (arrivals k))" by auto
      then have "set ms \<subseteq> log_msg ` (set es \<union> (\<Union>k. set (arrivals k)))"
        using ms(3) by (meson image_mono order.trans)
      with in_es show ?thesis by auto
    qed
    moreover have "fetch_during (Suc fuel) arrivals ?st n token = Some (map log_msg ?page @ ms)"
      using True itoa_nonempty [of "int (off + k)"] ms(1) by (simp add: page)
    ultimately show ?thesis by blast
  qed
qed

section \<open>What is logged\<close>

text \<open>
  No audit entry is lost when threads log at the same time: however they interleave, the log has one line
  for each entry appended to the store and for each entry still in flight, so that whenever no thread is
  logging, log and store (the newest 10000) come from the same entries.
\<close>

lemma interleaved_log_complete:
  assumes "lstep\<^sup>*\<^sup>* log_start \<sigma>"
  shows "\<exists>ws es. ls_out \<sigma> = map log_attrs ws \<and> store_log (ls_store \<sigma>) = take maxStoreSize (rev es) \<and>
    mset es \<subseteq># mset ws \<and> length ws = length es + card (busy \<sigma>) \<and> (busy \<sigma> = {} \<longrightarrow> mset ws = mset es)"
proof -
  obtain ws es where "log_inv ws es \<sigma>" using log_inv_reach [OF assms] by blast
  then have l: "finite (busy \<sigma>)" "ls_out \<sigma> = map log_attrs ws" "ls_store \<sigma> = fold Append es NewStore"
    "mset ws = mset es + in_flight \<sigma>" by (simp_all add: log_inv_def)
  have "length ws = length es + card (busy \<sigma>)"
    using arg_cong [OF l(4), of size] l(1) by (simp add: in_flight_def)
  moreover have "busy \<sigma> = {} \<Longrightarrow> in_flight \<sigma> = {#}" by (simp add: in_flight_def)
  moreover have "store_log (ls_store \<sigma>) = take maxStoreSize (rev es)" by (simp add: l(3) ring.log_fresh)
  ultimately show ?thesis using l(2,4) by (intro exI [of _ ws] exI [of _ es]) auto
qed

text \<open>Two threads that write their lines in one order and append in the other.\<close>

lemma crossed_threads:
  "\<exists>\<sigma>. lstep\<^sup>*\<^sup>* log_start \<sigma> \<and> busy \<sigma> = {} \<and> ls_out \<sigma> = [log_attrs a, log_attrs b] \<and>
     ls_store \<sigma> = fold Append [b, a] NewStore"
proof -
  let ?s1 = "writeLine 0 a log_start" and ?s2 = "writeLine 1 b (writeLine 0 a log_start)"
  let ?s3 = "appendEntry 1 b ?s2" and ?s4 = "appendEntry 0 a (appendEntry 1 b ?s2)"
  have "lstep log_start ?s1" by (rule write_line) (simp add: log_start_def)
  moreover have "lstep ?s1 ?s2" by (rule write_line) (simp add: log_start_def)
  moreover have "lstep ?s2 ?s3" by (rule append_entry) simp
  moreover have "lstep ?s3 ?s4" by (rule append_entry) simp
  ultimately have "lstep\<^sup>*\<^sup>* log_start ?s4" by (meson rtranclp.rtrancl_into_rtrancl rtranclp.rtrancl_refl)
  then show ?thesis by (intro exI [of _ ?s4]) (auto simp: busy_def log_start_def)
qed

text \<open>
  But the order of log and store can differ: the store, newest first, can list the entry first whose line
  was written first.
\<close>

lemma log_order_can_differ:
  "\<exists>\<sigma>. lstep\<^sup>*\<^sup>* log_start \<sigma> \<and> busy \<sigma> = {} \<and> ls_out \<sigma> = map log_attrs [a, b] \<and>
     store_log (ls_store \<sigma>) = [a, b]"
proof -
  have "store_log (fold Append [b, a] NewStore) = [a, b]"
    unfolding ring.log_fresh by (simp add: maxStoreSize_def)
  with crossed_threads [of a b] show ?thesis by auto
qed

section \<open>Properties\<close>

text \<open>
  C24: a client that follows the page tokens while entries arrive is done after at most 10001 calls, with any
  page size; it gets, newest first, every entry that was in the store when it started, except those the
  entries to come push out, and nothing that was never logged (but it can get an entry twice).  When
  nothing arrives it gets exactly the stored entries.
\<close>

theorem paging_while_logging:
  assumes "maxStoreSize < fuel"
  shows "\<exists>ms. fetch_during fuel arrivals (fold Append es NewStore) n [] = Some ms \<and>
    subseq (map log_msg (take (maxStoreSize - (\<Sum>k<fuel. length (arrivals k))) (rev es))) ms \<and>
    set ms \<subseteq> log_msg ` (set es \<union> (\<Union>k. set (arrivals k))) \<and>
    (arrivals = (\<lambda>_. []) \<longrightarrow> ms = map log_msg (take maxStoreSize (rev es)))"
proof -
  have o: "page_offset [] = Inr (int 0)" by (simp add: page_offset_def)
  have "0 < fuel" "maxStoreSize - 0 < fuel" using assms by simp_all
  from fetch_during_from [OF o this, of arrivals es n]
  obtain ms where ms: "fetch_during fuel arrivals (fold Append es NewStore) n [] = Some ms"
    "subseq (map log_msg (take (maxStoreSize - (\<Sum>k<fuel. length (arrivals k))) (rev es))) ms"
    "set ms \<subseteq> log_msg ` (set es \<union> (\<Union>k. set (arrivals k)))" by auto
  have "length (store_log (fold Append es NewStore)) < fuel"
    using assms by (simp add: ring.log_fresh)
  from pagination_enumerates [OF this, of n] ms show ?thesis
    by (intro exI [of _ ms]) (auto simp: fetch_during_quiet)
qed

text \<open>An entry arrives after the first page, and the second page repeats the first.\<close>

theorem paging_while_logging_witness:
  "\<exists>ms. fetch_during 10001 (\<lambda>k. if k = 0 then [demo_entry] else []) (fold Append [demo_entry, demo_entry] NewStore) 1 [] = Some ms \<and>
     2 \<le> length ms"
proof -
  let ?arr = "\<lambda>k :: nat. if k = 0 then [demo_entry] else []"
  have "(\<Sum>k<10001. length (?arr k)) = (\<Sum>k<10001. if k = (0 :: nat) then 1 else 0)"
    by (rule sum.cong) auto
  also have "\<dots> = 1" by simp
  finally have s: "(\<Sum>k<10001. length (?arr k)) = 1" .
  have "maxStoreSize < 10001" by (simp add: maxStoreSize_def)
  from paging_while_logging [OF this, of ?arr "[demo_entry, demo_entry]" 1, unfolded s]
  obtain ms where ms: "fetch_during 10001 ?arr (fold Append [demo_entry, demo_entry] NewStore) 1 [] = Some ms"
    "subseq (map log_msg [demo_entry, demo_entry]) ms" by (auto simp: maxStoreSize_def)
  from ms(2) have "2 \<le> length ms" using list_emb_length by fastforce
  with ms(1) show ?thesis by blast
qed

end
