(* ===== verification/AuditText.thy ===== *)
theory AuditText
  imports AuditEntry GoJson
begin

text \<open>
  The audit log as text: what the JSON handler of \<open>log/slog\<close>, which \<open>NewLogger\<close> and \<open>NewLoggerWithWriter\<close>
  make (\<open>internal/audit/logger.go\<close>), writes for an entry, and what a reader gets who takes the file apart
  into lines and parses each.  The values in an entry come from clients (method, path, tool name, request
  id), so that nothing in them may end a line or a string.
\<close>

section \<open>Writing\<close>

text \<open>\<open>appendEscapedJSONString\<close>: unlike \<open>encoding/json\<close> it leaves the characters of HTML alone.\<close>

definition slog_ascii :: "char \<Rightarrow> string" where
  "slog_ascii c =
    (if c = CHR 0x22 \<or> c = CHR 0x5C then [CHR 0x5C, c]
     else if c = CHR 0x0A then [CHR 0x5C, CHR ''n'']
     else if c = CHR 0x0D then [CHR 0x5C, CHR ''r'']
     else if c = CHR 0x09 then [CHR 0x5C, CHR ''t'']
     else if byte c < 0x20 then u_escape (byte c)
     else [c])"

definition slog_string :: "string \<Rightarrow> string" where
  "slog_string s = quote @ escape_text slog_ascii s @ quote"

definition slog_attr :: "string \<times> string \<Rightarrow> string" where
  "slog_attr = (\<lambda>(k, v). slog_string k @ '':'' @ slog_string v)"

fun slog_attrs :: "(string \<times> string) list \<Rightarrow> string" where
  "slog_attrs [] = []"
| "slog_attrs (kv # kvs) = '','' @ slog_attr kv @ slog_attrs kvs"

text \<open>
  One record of level INFO: the time (\<open>stamp\<close>, in the local time zone and so the operating system's), the
  level, the message and the attributes.
\<close>

definition slog_line :: "string \<Rightarrow> string \<Rightarrow> (string \<times> string) list \<Rightarrow> string" where
  "slog_line stamp msg attrs = ''{'' @ slog_string ''time'' @ '':'' @ quote @ stamp @ quote @
     slog_attrs ([(''level'', ''INFO''), (''msg'', msg)] @ attrs) @ ''}'' @ [CHR 0x0A]"

text \<open>The line of an audit entry, and the file: one line after the other.\<close>

definition audit_line :: "string \<Rightarrow> (string \<times> string) list \<Rightarrow> string" where
  "audit_line stamp attrs = slog_line stamp ''audit_log'' attrs"

definition audit_file :: "(nat \<Rightarrow> string) \<Rightarrow> audit_out \<Rightarrow> string" where
  "audit_file stamp out = concat (map (\<lambda>(i, attrs). audit_line (stamp i) attrs) (enumerate 0 out))"

section \<open>Reading\<close>

text \<open>The lines of a text; what follows the last newline is no line.\<close>

fun text_lines :: "string \<Rightarrow> string \<Rightarrow> string list" where
  "text_lines acc [] = []"
| "text_lines acc (c # r) = (if c = CHR 0x0A then rev acc # text_lines [] r else text_lines (c # acc) r)"

definition read_log :: "string \<Rightarrow> json option list" where
  "read_log text = map json_parse (text_lines [] text)"

lemma text_lines_line:
  "CHR 0x0A \<notin> set l \<Longrightarrow> text_lines acc (l @ CHR 0x0A # r) = (rev acc @ l) # text_lines [] r"
  by (induction l arbitrary: acc) auto

lemma text_lines_concat:
  assumes "\<forall>l \<in> set ls. CHR 0x0A \<notin> set l"
  shows "text_lines [] (concat (map (\<lambda>l. l @ [CHR 0x0A]) ls)) = ls"
  using assms by (induction ls) (simp_all add: text_lines_line)

section \<open>What is written reads back\<close>

lemma jstring_slog_ascii:
  assumes "byte c < 0x80"
  shows "jstring (slog_ascii c @ x) = map_option (\<lambda>(v, t). (c # v, t)) (jstring x)"
proof -
  have enc: "encodeRune (byte c) = [c]" using assms by (simp add: encodeRune_def)
  have u: "jstring (u_escape (byte c) @ x) = map_option (\<lambda>(v, t). (c # v, t)) (jstring x)"
    using assms by (subst jstring_u_escape) (auto simp: isSurrogate_def enc)
  show ?thesis
    using assms u
    by (auto simp: slog_ascii_def jstring.simps(2) simple_escape_def decodeRune_ascii runeError_def)
qed

lemmas jstring_slog = jstring_escape_text [OF jstring_slog_ascii]

lemma reads_as_slog: "reads_as (slog_string s) (JStr (valid_utf8 s)) n"
  by (rule reads_asI) (simp_all add: slog_string_def quote_def jval.simps(2) jstring_slog)

text \<open>A text that needs no escapes.\<close>

definition plain_char :: "char \<Rightarrow> bool" where
  "plain_char c \<longleftrightarrow> 0x20 \<le> byte c \<and> byte c < 0x7F \<and> c \<noteq> CHR 0x22 \<and> c \<noteq> CHR 0x5C \<and> c \<noteq> CHR ''<'' \<and>
     c \<noteq> CHR ''>'' \<and> c \<noteq> CHR ''&''"

definition plain_text :: "string \<Rightarrow> bool" where
  "plain_text s \<longleftrightarrow> list_all plain_char s"

lemma plain_charD:
  assumes "plain_char c"
  shows "byte c < 0x80" "c \<noteq> CHR 0x0A" "slog_ascii c = [c]" "escape_ascii c = [c]"
proof -
  have p: "0x20 \<le> byte c" "byte c < 0x7F" "c \<noteq> CHR 0x22" "c \<noteq> CHR 0x5C" "c \<noteq> CHR ''<''"
    "c \<noteq> CHR ''>''" "c \<noteq> CHR ''&''" using assms unfolding plain_char_def by blast+
  then show "byte c < 0x80" by linarith
  have n: "c \<noteq> d" if "byte d < 0x20" for d using p(1) that by auto
  have d: "c \<noteq> CHR 0x08" "c \<noteq> CHR 0x09" "c \<noteq> CHR 0x0A" "c \<noteq> CHR 0x0C" "c \<noteq> CHR 0x0D" by (rule n; simp)+
  then show "c \<noteq> CHR 0x0A" by simp
  have "\<not> byte c < 0x20" using p(1) by simp
  then show "slog_ascii c = [c]" "escape_ascii c = [c]"
    by (simp_all only: slog_ascii_def escape_ascii_def p d if_False simp_thms)
qed

lemma plain_text_escape:
  "plain_text s \<Longrightarrow> escape_text slog_ascii s = s \<and> escape_text escape_ascii s = s"
  by (induction s) (simp_all add: plain_text_def escape_text.simps(2) plain_charD)

lemma plain_text_utf8: "plain_text s \<Longrightarrow> valid_utf8 s = s"
  using plain_charD(1) by (intro valid_utf8_ascii) (auto simp: plain_text_def list_all_iff)

lemma plain_text_line: "plain_text s \<Longrightarrow> CHR 0x0A \<notin> set s"
  using plain_charD(2) by (auto simp: plain_text_def list_all_iff)

lemma plain_slog_names: "plain_text ''time''" "plain_text ''level''" "plain_text ''msg''"
  by (simp_all add: plain_text_def plain_char_def)

lemma slog_attrs_members:
  assumes "\<forall>(k, v) \<in> set kvs. plain_text k"
  shows "members_text ((k0, t0) # map (\<lambda>(k, v). (k, slog_string v)) kvs) = member_text k0 t0 @ slog_attrs kvs"
  using assms
proof (induction kvs arbitrary: k0 t0)
  case (Cons kv kvs)
  obtain k v where kv: "kv = (k, v)" by fastforce
  with Cons.prems have "json_string k = slog_string k"
    by (simp add: json_string_def slog_string_def plain_text_escape)
  with Cons.IH [of k "slog_string v"] Cons.prems kv show ?case
    by (simp add: slog_attr_def member_text_def)
qed simp

lemma slog_line_object:
  assumes "plain_text stamp" "\<forall>(k, v) \<in> set attrs. plain_text k"
  shows "slog_line stamp msg attrs = json_object (map (\<lambda>(k, v). (k, slog_string v))
    ([(''time'', stamp), (''level'', ''INFO''), (''msg'', msg)] @ attrs)) @ [CHR 0x0A]"
proof -
  have "members_text ((''time'', slog_string stamp) # map (\<lambda>(k, v). (k, slog_string v))
      ([(''level'', ''INFO''), (''msg'', msg)] @ attrs)) =
    member_text ''time'' (slog_string stamp) @ slog_attrs ([(''level'', ''INFO''), (''msg'', msg)] @ attrs)"
    by (rule slog_attrs_members) (use assms plain_slog_names in auto)
  then show ?thesis
    using plain_slog_names(1) assms(1)
    by (simp add: slog_line_def json_object_def member_text_def slog_string_def json_string_def plain_text_escape)
qed

text \<open>No line has a newline inside.\<close>

lemma decodeRune_tail: "decodeRune c r = (n, w) \<Longrightarrow> d \<in> set (take (w - Suc 0) r) \<Longrightarrow> 0x80 \<le> byte d"
  by (auto simp: decodeRune_def decodeRune_parts cont_byte_def Let_def take_Cons split: if_splits list.splits nat.splits)

lemma u_escape_line: "CHR 0x0A \<notin> set (u_escape n)"
proof -
  have "hex_digit d \<noteq> CHR 0x0A" if "d < 16" for d
    using hex_val_digit [OF that] by (auto simp: hex_val_def)
  then show ?thesis by (auto simp: u_escape_def dest: sym)
qed

lemma escape_slog_line: "CHR 0x0A \<notin> set (escape_text slog_ascii s)"
proof (induction slog_ascii s rule: escape_text.induct)
  case (2 c r)
  obtain n w where nw: "decodeRune c r = (n, w)" by fastforce
  show ?case
  proof (cases "byte c < 0x80")
    case True
    then have "CHR 0x0A \<notin> set (slog_ascii c)" using u_escape_line by (auto simp: slog_ascii_def)
    with True "2.hyps"(1) show ?thesis by (simp add: escape_text.simps(2))
  next
    case False
    then have "c \<noteq> CHR 0x0A" by auto
    moreover have "CHR 0x0A \<notin> set (take (w - Suc 0) r)" using decodeRune_tail [OF nw] by fastforce
    ultimately show ?thesis
      using False "2.hyps"(2) [OF False nw [symmetric] refl] u_escape_line nw by (simp add: escape_text.simps(2))
  qed
qed simp

lemma slog_attrs_line: "CHR 0x0A \<notin> set (slog_attrs kvs)"
  by (induction kvs) (auto simp: slog_attr_def slog_string_def quote_def escape_slog_line)

text \<open>
  The file of any lists of attributes with plain names reads back line by line, whatever the values are.
\<close>

definition line_json :: "string \<Rightarrow> (string \<times> string) list \<Rightarrow> json" where
  "line_json stamp attrs = JObj (map (\<lambda>(k, v). (k, slog_string v, JStr (valid_utf8 v)))
     ([(''time'', stamp), (''level'', ''INFO''), (''msg'', ''audit_log'')] @ attrs))"

lemma audit_line_split:
  assumes "plain_text stamp" "\<forall>(k, v) \<in> set attrs. plain_text k"
  obtains l where "audit_line stamp attrs = l @ [CHR 0x0A]" "CHR 0x0A \<notin> set l"
    "json_parse l = Some (line_json stamp attrs)"
proof -
  let ?kvs = "[(''time'', stamp), (''level'', ''INFO''), (''msg'', ''audit_log'')] @ attrs"
  define l where "l = json_object (map (\<lambda>(k, v). (k, slog_string v)) ?kvs)"
  have eq: "audit_line stamp attrs = l @ [CHR 0x0A]"
    using slog_line_object [OF assms] by (simp add: audit_line_def l_def)
  define body where "body = ''{'' @ slog_string ''time'' @ '':'' @ quote @ stamp @ quote @
     slog_attrs ([(''level'', ''INFO''), (''msg'', ''audit_log'')] @ attrs) @ ''}''"
  have "audit_line stamp attrs = body @ [CHR 0x0A]" by (simp add: audit_line_def slog_line_def body_def)
  then have "l = body" using eq by simp
  moreover have "CHR 0x0A \<notin> set body"
    using plain_text_line [OF assms(1)]
    by (simp add: body_def slog_string_def quote_def escape_slog_line slog_attrs_line del: append.simps slog_attrs.simps)
  ultimately have nl: "CHR 0x0A \<notin> set l" by simp
  have "list_all2 (\<lambda>(k, v) x. reads_as v x 0) (map (\<lambda>(k, v). (k, slog_string v)) ?kvs)
      (map (\<lambda>(k, v). JStr (valid_utf8 v)) ?kvs)"
    by (simp add: list_all2_map1 list_all2_map2 list_all2_same reads_as_slog split: prod.split)
  from reads_as_object [OF _ this]
  have "reads_as l (JObj (map2 (\<lambda>(k, v) x. (valid_utf8 k, v, x)) (map (\<lambda>(k, v). (k, slog_string v)) ?kvs)
      (map (\<lambda>(k, v). JStr (valid_utf8 v)) ?kvs))) 1" by (simp add: l_def)
  moreover have "map2 (\<lambda>(k, v) x. (valid_utf8 k, v, x)) (map (\<lambda>(k, v). (k, slog_string v)) kvs)
      (map (\<lambda>(k, v). JStr (valid_utf8 v)) kvs) = map (\<lambda>(k, v). (k, slog_string v, JStr (valid_utf8 v))) kvs"
    if "\<forall>(k, v) \<in> set kvs. plain_text k" for kvs
    using that by (induction kvs) (auto simp: plain_text_utf8)
  moreover have "\<forall>(k, v) \<in> set ?kvs. plain_text k" using assms(2) plain_slog_names by auto
  ultimately have "reads_as l (line_json stamp attrs) 1" by (simp only: line_json_def)
  then have "json_parse l = Some (line_json stamp attrs)"
    by (rule json_parse_reads_as) (simp add: maxNestingDepth_def)
  with eq nl show ?thesis by (rule that)
qed

lemma read_audit_file:
  assumes "\<And>i. plain_text (stamp i)" "\<forall>attrs \<in> set out. \<forall>(k, v) \<in> set attrs. plain_text k"
  shows "read_log (audit_file stamp out) = map (\<lambda>(i, attrs). Some (line_json (stamp i) attrs)) (enumerate 0 out)"
proof -
  have "\<exists>ls. concat (map (\<lambda>(i, attrs). audit_line (stamp i) attrs) (enumerate n out)) = concat (map (\<lambda>l. l @ [CHR 0x0A]) ls) \<and>
    (\<forall>l \<in> set ls. CHR 0x0A \<notin> set l) \<and>
    map json_parse ls = map (\<lambda>(i, attrs). Some (line_json (stamp i) attrs)) (enumerate n out)" for n
    using assms(2)
  proof (induction out arbitrary: n)
    case Nil
    show ?case by (rule exI [of _ "[]"]) simp
  next
    case (Cons a out)
    obtain l where l: "audit_line (stamp n) a = l @ [CHR 0x0A]" "CHR 0x0A \<notin> set l"
      "json_parse l = Some (line_json (stamp n) a)"
      using audit_line_split [OF assms(1) bspec [OF Cons.prems list.set_intros(1)], of n] by blast
    obtain ls where "concat (map (\<lambda>(i, attrs). audit_line (stamp i) attrs) (enumerate (Suc n) out)) = concat (map (\<lambda>l. l @ [CHR 0x0A]) ls)"
      "\<forall>l \<in> set ls. CHR 0x0A \<notin> set l"
      "map json_parse ls = map (\<lambda>(i, attrs). Some (line_json (stamp i) attrs)) (enumerate (Suc n) out)"
      using Cons.IH [of "Suc n"] Cons.prems by auto
    with l show ?case by (intro exI [of _ "l # ls"]) simp
  qed
  then show ?thesis unfolding read_log_def audit_file_def by (metis text_lines_concat)
qed

end
