(* ===== verification/ConcurrentStore.thy ===== *)
theory ConcurrentStore
  imports ConcurrentGateway AuditThreads AuditText
begin

text \<open>
  The shared state of the server while requests interleave: seen through the log and the store, the steps
  of all threads are an interleaving of calls of \<open>Log\<close> (theory \<open>AuditThreads\<close>), and the token cache keeps
  its invariant.
\<close>

section \<open>What one step does to the shared state\<close>

definition unlogged :: "world \<Rightarrow> world \<Rightarrow> bool" where
  "unlogged s s' \<longleftrightarrow> wd_audit_out s' = wd_audit_out s \<and> wd_store s' = wd_store s \<and>
     cache_wf (wd_cache s') \<and> tc_maxEntries (wd_cache s') = tc_maxEntries (wd_cache s)"

text \<open>What an entry of the audit log is made of.\<close>

definition wf_entry :: "entry \<Rightarrow> bool" where
  "wf_entry e \<longleftrightarrow> e_ClientID e \<noteq> [] \<and> length (e_ToolName e) \<le> maxHeaderValueLen \<and> e_RequestID e \<noteq> [] \<and>
     map fst (e_Metadata e) = [''http_method'', ''path'', ''remote_addr'', ''status_code'']"

definition attr_names :: "string list" where
  "attr_names = [''audit_id'', ''client_id'', ''tool_name'', ''decision'', ''request_id'', ''timestamp'',
     ''meta.http_method'', ''meta.path'', ''meta.remote_addr'', ''meta.status_code'']"

lemma log_attrs_names:
  assumes "wf_entry e"
  shows "map fst (log_attrs e) = attr_names"
proof -
  have "map (\<lambda>(k, v). ''meta.'' @ k) (e_Metadata e) = map (\<lambda>k. ''meta.'' @ k) (map fst (e_Metadata e))"
    by (simp add: comp_def split_def)
  with assms show ?thesis by (simp add: wf_entry_def log_attrs_def attr_names_def comp_def split_def)
qed

text \<open>
  A step of a thread: it touches neither log nor store, or it writes the line of an entry, or it appends
  the entry whose line it wrote last (the pending entry).
\<close>

inductive trail_step :: "entry option \<Rightarrow> world \<Rightarrow> entry option \<Rightarrow> world \<Rightarrow> bool" where
  other: "unlogged s s' \<Longrightarrow> trail_step pend s pend s'"
| line: "wf_entry e \<Longrightarrow> trail_step None s (Some e) (s\<lparr>wd_audit_out := wd_audit_out s @ [log_attrs e]\<rparr>)"
| append: "trail_step (Some e) s None (s\<lparr>wd_store := Append e (wd_store s)\<rparr>)"

text \<open>A process all of whose steps are such steps, and which leaves no entry pending.\<close>

primrec tidy :: "'a proc \<Rightarrow> entry option \<Rightarrow> bool" where
  "tidy (Done x) = (\<lambda>pend. pend = None)"
| "tidy (Atomic f) = (\<lambda>pend. \<forall>s. cache_wf (wd_cache s) \<longrightarrow>
    (case map_prod tidy id (f s) of (tidy_rest, s') \<Rightarrow> \<exists>pend'. trail_step pend s pend' s' \<and> tidy_rest pend'))"

lemma tidy_step:
  assumes "tidy (Atomic f) pend" "cache_wf (wd_cache s)" "f s = (p, s')"
  shows "\<exists>pend'. trail_step pend s pend' s' \<and> tidy p pend'"
  using assms by (auto dest!: spec [of _ s])

lemma tidy_bind:
  assumes "tidy p pend" "\<And>x. tidy (k x) None"
  shows "tidy (bind_proc p k) pend"
  using assms(1)
proof (induction p arbitrary: pend)
  case (Done x)
  then show ?case using assms(2) by simp
next
  case (Atomic f)
  have "\<exists>pend'. trail_step pend s pend' s' \<and> tidy (bind_proc p k) pend'"
    if s: "cache_wf (wd_cache s)" "f s = (p, s')" for s p s'
  proof -
    obtain pend' where "trail_step pend s pend' s'" "tidy p pend'" using tidy_step [OF Atomic.prems s] by blast
    moreover have "(p, s') \<in> range f" using s(2) by (metis rangeI)
    ultimately show ?thesis using Atomic.IH [of "(p, s')" p] by auto
  qed
  then have "case f s of (p, s') \<Rightarrow> \<exists>pend'. trail_step pend s pend' s' \<and> tidy (bind_proc p k) pend'"
    if "cache_wf (wd_cache s)" for s using that by (simp split: prod.split)
  then show ?case by (simp add: map_prod_def split_def)
qed

lemma tidy_act_iff:
  "tidy (act f) pend \<longleftrightarrow>
     (\<forall>s x s'. cache_wf (wd_cache s) \<and> f s = (x, s') \<longrightarrow> trail_step pend s None s')"
  by (auto simp: act_def map_prod_def split: prod.splits)

lemma tidy_act:
  assumes "\<And>s x s'. cache_wf (wd_cache s) \<Longrightarrow> f s = (x, s') \<Longrightarrow> unlogged s s'"
  shows "tidy (act f) None"
  using assms by (auto simp: tidy_act_iff intro: trail_step.other)

lemma tidy_act_bind:
  "tidy (bind_proc (act f) k) pend \<longleftrightarrow>
     (\<forall>s x s'. cache_wf (wd_cache s) \<and> f s = (x, s') \<longrightarrow> (\<exists>pend'. trail_step pend s pend' s' \<and> tidy (k x) pend'))"
  by (auto simp: act_def map_prod_def split: prod.splits)

lemma unlogged_tick [simp]: "unlogged s (s\<lparr>wd_tick := t\<rparr>) \<longleftrightarrow> cache_wf (wd_cache s)"
  by (simp add: unlogged_def)

lemma unlogged_refl [simp]: "unlogged s s \<longleftrightarrow> cache_wf (wd_cache s)"
  by (simp add: unlogged_def)

lemma unlogged_emit [simp]: "unlogged s (emit ev s) \<longleftrightarrow> cache_wf (wd_cache s)"
  by (simp add: unlogged_def emit_def)

lemma unlogged_sends: "sends s s' evs \<Longrightarrow> cache_wf (wd_cache s) \<Longrightarrow> unlogged s s'"
  by (simp add: sends_def unlogged_def)

section \<open>The processes\<close>

lemma tidy_readClock: "tidy (act (readClock env)) None"
  by (rule tidy_act) (auto simp: readClock_def)

lemma tidy_cacheGet: "tidy (p_cacheGet env token) None"
proof -
  let ?c = "\<lambda>c :: token_cache. c\<lparr>tc_entries := AList.delete (hashToken token) (tc_entries c)\<rparr>"
  have "cache_wf (?c c)" if "cache_wf c" for c
    using that length_delete_le' [of "hashToken token" "tc_entries c"] by (auto simp: cache_wf_def cacheLen_def)
  then have "tidy (act (\<lambda>s. ((), s\<lparr>wd_cache := ?c (wd_cache s)\<rparr>))) None"
    by (intro tidy_act) (auto simp: unlogged_def)
  note del = tidy_bind [OF this, of "\<lambda>_. Done None"]
  have "tidy (act (\<lambda>s. (map_of (tc_entries (wd_cache s)) (hashToken token), s))) None"
    by (rule tidy_act) auto
  then show ?thesis
    unfolding p_cacheGet_def
    by (rule tidy_bind) (auto split: option.split intro!: tidy_bind [OF tidy_readClock] del)
qed

lemma tidy_cacheSet:
  assumes "wf_env env"
  shows "tidy (p_cacheSet env token result) None"
proof -
  have "tidy (act (w_cacheStore env token result n)) None" for n
  proof (rule tidy_act)
    fix s x s' assume s: "cache_wf (wd_cache s)" "w_cacheStore env token result n s = (x, s')"
    obtain t c where c: "cacheStore (env_range env) (env_clock env) (hashToken token) result n (wd_tick s, wd_cache s) = (t, c)"
      by fastforce
    have "is_range (env_range env)" using assms by (simp add: wf_env_def)
    from cache_wf_cacheStore [OF this s(1) c] have "cache_wf c" .
    moreover have "tc_maxEntries c = tc_maxEntries (wd_cache s)"
      using c by (auto simp: cacheStore_def dest: makeRoom_fields split: prod.splits)
    ultimately show "unlogged s s'" using s(2) c by (auto simp: w_cacheStore_def unlogged_def)
  qed
  note store = this
  have "tidy (act (\<lambda>s. if 0 < ir_ExpiresAt result
        then (let (now, s') = readClock env s in (entry_ttl (wd_cache s) result now, s'))
        else (Some (tc_ttl (wd_cache s)), s))) None"
    by (rule tidy_act) (auto simp: readClock_def split: if_splits)
  then show ?thesis
    unfolding p_cacheSet_def by (rule tidy_bind) (auto split: option.split intro: store)
qed

lemma tidy_Introspect: "tidy (act (Introspect h env token)) None"
  by (rule tidy_act) (auto simp: Introspect_def introspect_request_eq Let_def)

lemma tidy_Evaluate: "tidy (act (Evaluate c env i)) None"
  by (rule tidy_act) (auto simp: Evaluate_def policy_request_eq Let_def)

lemma tidy_mux: "tidy (atomically (mux_ServeHTTP srv) env r w) None"
  unfolding atomically_def
proof (rule tidy_act)
  fix s x s'
  assume s: "cache_wf (wd_cache s)"
    and m: "(let res = mux_ServeHTTP srv env r w s in (go_map fst res, snd (go_state res))) = (x, s')"
  obtain w' where "go_state (mux_ServeHTTP srv env r w s) = (w', s')"
    using m by (cases "go_state (mux_ServeHTTP srv env r w s)") (simp add: Let_def)
  then show "unlogged s s'" by (cases rule: mux_sends) (use s unlogged_sends in blast)+
qed

lemma w_NewEntry_wf:
  assumes "w_NewEntry env r tool captured st s = (e, s')"
    and "length tool \<le> maxHeaderValueLen" "GetRequestID r \<noteq> []" "req_tokenInfo r = None"
  shows "wf_entry e" "cache_wf (wd_cache s) \<Longrightarrow> unlogged s s'"
  using assms
  by (auto simp: w_NewEntry_def wf_entry_def NewEntry_def client_of_def unknownValue_def metadata_of_def unlogged_def
      dest!: w_generateID_frame readClock_frame split: prod.splits if_splits)

lemma tidy_log:
  assumes "length tool \<le> maxHeaderValueLen" "GetRequestID r \<noteq> []" "req_tokenInfo r = None"
  shows "tidy (p_log env r tool captured st) None"
  unfolding p_log_def tidy_act_bind [where f = "w_NewEntry env r tool captured st"]
proof (intro allI impI)
  fix s e s' assume s: "cache_wf (wd_cache s) \<and> w_NewEntry env r tool captured st s = (e, s')"
  note e = w_NewEntry_wf [OF conjunct2 [OF s] assms]
  have "trail_step None s None s'" using e s by (intro trail_step.other) simp
  moreover have "trail_step None u (Some e) (u\<lparr>wd_audit_out := wd_audit_out u @ [log_attrs e]\<rparr>)"
    "trail_step (Some e) u None (u\<lparr>wd_store := Append e (wd_store u)\<rparr>)" for u
    by (rule trail_step.intros e)+
  ultimately show "\<exists>pend'. trail_step None s pend' s' \<and>
      tidy (bind_proc (act (\<lambda>s. ((), s\<lparr>wd_audit_out := wd_audit_out s @ [log_attrs e]\<rparr>)))
        (\<lambda>_. act (\<lambda>s. ((), s\<lparr>wd_store := Append e (wd_store s)\<rparr>)))) pend'"
    by (fastforce simp: tidy_act_bind tidy_act_iff)
qed

lemma tidy_guarded:
  assumes "wf_env env"
  shows "tidy (p_guarded h c srv env r w) None"
proof -
  have policy: "tidy (p_policy m (atomically (mux_ServeHTTP srv)) env r w) None" if "pm_evaluator m = Evaluate c" for m r w
    unfolding p_policy_def that
    by (auto split: option.split sum.split intro!: tidy_mux tidy_bind [OF tidy_Evaluate])
  show ?thesis
    unfolding p_guarded_def p_auth_def skip_paths
    by (auto split: option.split sum.split intro!: policy tidy_bind [OF tidy_cacheGet]
        tidy_bind [OF tidy_Introspect] tidy_bind [OF tidy_cacheSet [OF assms]])
qed

lemma tidy_audit:
  assumes "wf_env env" "i \<noteq> []" "req_tokenInfo r = None"
  shows "tidy (p_audit main_audit (p_guarded h c srv) env (WithRequestID i r) w) None"
proof (cases "audit_prepare (WithRequestID i r)")
  case None
  then show ?thesis by (simp add: p_audit_def tidy_guarded [OF assms(1)])
next
  case (Some x)
  then obtain tool r' where x: "audit_prepare (WithRequestID i r) = Some (tool, r')" by (cases x) auto
  then have "audited (WithRequestID i r) = Some r'" by (simp add: audited_def)
  then obtain b where "r' = (WithRequestID i r)\<lparr>req_body := b\<rparr>" using audited_frame by blast
  then have "GetRequestID r' \<noteq> []" "req_tokenInfo r' = None"
    using assms(2,3) by (simp_all add: GetRequestID_def WithRequestID_def)
  note log = tidy_log [OF audit_prepare_tool_length [OF x] this]
  show ?thesis
    by (auto simp: p_audit_def x split: go.split
        intro!: tidy_guarded [OF assms(1)] tidy_bind [OF tidy_guarded [OF assms(1)]] tidy_bind [OF log])
qed

lemma generateID_nonempty: "w_generateID env s = (i, s') \<Longrightarrow> i \<noteq> []"
  by (auto simp: w_generateID_def generateID_def Let_def split: option.splits prod.splits)

lemma tidy_gateway:
  assumes "wf_env env" "req_tokenInfo r = None"
  shows "tidy (p_gateway h c srv env r w) None"
proof -
  let ?next = "\<lambda>i. p_audit main_audit (p_guarded h c srv) env (WithRequestID i r) (w_set_header (hset RequestIDHeader i) w)"
  have rest: "tidy (?next i) None" if "i \<noteq> []" for i using tidy_audit [OF assms(1) that assms(2)] .
  moreover have "tidy (bind_proc (act (w_generateID env)) ?next) None"
    unfolding tidy_act_bind
  proof (intro allI impI)
    fix s i s' assume s: "cache_wf (wd_cache s) \<and> w_generateID env s = (i, s')"
    then have "unlogged s s'" using w_generateID_frame [of env s i s'] by (simp add: unlogged_def)
    with s rest generateID_nonempty show "\<exists>pend'. trail_step None s pend' s' \<and> tidy (?next i) pend'"
      by (blast intro: trail_step.other)
  qed
  ultimately show ?thesis
    by (simp add: p_gateway_def p_requestID_def Let_def maxHeaderValueLen_def)
qed

section \<open>The server is an interleaving of \<open>Log\<close> calls\<close>

definition log_view :: "world \<Rightarrow> (nat \<Rightarrow> entry option) \<Rightarrow> log_state" where
  "log_view s pend = \<lparr>ls_out = wd_audit_out s, ls_store = wd_store s, ls_pending = pend\<rparr>"

lemma trail_step_lstep:
  assumes "trail_step (pend i) s x s'"
  shows "lstep\<^sup>*\<^sup>* (log_view s pend) (log_view s' (pend(i := x)))"
  using assms
proof (cases rule: trail_step.cases)
  case other
  then have "log_view s' (pend(i := x)) = log_view s pend" by (auto simp: log_view_def unlogged_def)
  then show ?thesis by simp
next
  case (line e)
  then have "log_view s' (pend(i := x)) = writeLine i e (log_view s pend)" by (simp add: log_view_def writeLine_def)
  moreover have "lstep (log_view s pend) (writeLine i e (log_view s pend))"
    using line by (intro write_line) (simp add: log_view_def)
  ultimately show ?thesis by simp
next
  case (append e)
  then have "log_view s' (pend(i := x)) = appendEntry i e (log_view s pend)" by (simp add: log_view_def appendEntry_def)
  moreover have "lstep (log_view s pend) (appendEntry i e (log_view s pend))"
    using append by (intro append_entry) (simp add: log_view_def)
  ultimately show ?thesis by simp
qed

lemma trail_step_cache:
  "trail_step pend s pend' s' \<Longrightarrow> cache_wf (wd_cache s) \<Longrightarrow>
    cache_wf (wd_cache s') \<and> tc_maxEntries (wd_cache s') = tc_maxEntries (wd_cache s)"
  by (cases rule: trail_step.cases) (auto simp: unlogged_def)

lemma trail_step_lines:
  "trail_step pend s pend' s' \<Longrightarrow>
    (\<forall>line \<in> set (wd_audit_out s). \<exists>e. wf_entry e \<and> line = log_attrs e) \<Longrightarrow>
    (\<forall>line \<in> set (wd_audit_out s'). \<exists>e. wf_entry e \<and> line = log_attrs e)"
  by (cases rule: trail_step.cases) (auto simp: unlogged_def)

text \<open>The invariant, for the pending entries of the threads.\<close>

definition trail_inv :: "pool \<Rightarrow> (nat \<Rightarrow> entry option) \<Rightarrow> bool" where
  "trail_inv \<pi> pend \<longleftrightarrow>
     (\<forall>i < length (pl_threads \<pi>). tidy (th_proc (pl_threads \<pi> ! i)) (pend i)) \<and>
     (\<forall>i \<ge> length (pl_threads \<pi>). pend i = None) \<and>
     lstep\<^sup>*\<^sup>* log_start (log_view (pl_world \<pi>) pend) \<and>
     (\<forall>line \<in> set (wd_audit_out (pl_world \<pi>)). \<exists>e. wf_entry e \<and> line = log_attrs e) \<and>
     cache_wf (wd_cache (pl_world \<pi>)) \<and> tc_maxEntries (wd_cache (pl_world \<pi>)) = defaultMaxEntries"

lemma trail_inv_start: "trail_inv no_threads (\<lambda>_. None)"
  using cache_wf_New
  by (simp add: trail_inv_def no_threads_def init_world_def log_view_def log_start_def NewTokenCache_def)

lemma trail_inv_step:
  assumes "pstep h c srv \<pi> \<pi>'" "trail_inv \<pi> pend"
  shows "\<exists>pend'. trail_inv \<pi>' pend'"
  using assms(1)
proof (cases rule: pstep.cases)
  case (arrive r c0 env)
  have "tidy (th_proc (new_thread h c srv env r c0)) None"
    using tidy_gateway [OF arrive(5,3)] by (simp add: new_thread_def)
  with assms(2) arrive(1) have "trail_inv \<pi>' pend"
    by (auto simp: trail_inv_def nth_append less_Suc_eq)
  then show ?thesis by blast
next
  case (advance i t f p s')
  have "tidy (th_proc t) (pend i)" using assms(2) advance(2,3) by (simp add: trail_inv_def)
  then have inv: "tidy (Atomic f) (pend i)" "cache_wf (wd_cache (pl_world \<pi>))"
    using assms(2) by (simp_all only: advance(4) trail_inv_def)
  obtain x where x: "trail_step (pend i) (pl_world \<pi>) x s'" "tidy p x" using tidy_step [OF inv advance(5)] by blast
  have "lstep\<^sup>*\<^sup>* log_start (log_view s' (pend(i := x)))"
    using assms(2) trail_step_lstep [of pend, OF x(1)] by (auto simp: trail_inv_def)
  moreover have "\<forall>line \<in> set (wd_audit_out s'). \<exists>e. wf_entry e \<and> line = log_attrs e"
    using assms(2) trail_step_lines [OF x(1)] by (simp add: trail_inv_def)
  ultimately have "trail_inv \<pi>' (pend(i := x))"
    using assms(2) trail_step_cache [OF x(1) inv(2)] x(2) advance
    by (auto simp: trail_inv_def nth_list_update)
  then show ?thesis by blast
qed

lemma trail_inv_reach: "pool_reach h c srv \<pi> \<Longrightarrow> \<exists>pend. trail_inv \<pi> pend"
  by (induction rule: rtranclp_induct) (use trail_inv_start trail_inv_step in blast)+

text \<open>Only a thread that has not finished can have an entry pending.\<close>

definition unfinished :: "pool \<Rightarrow> nat" where
  "unfinished \<pi> = length (filter (\<lambda>t. \<forall>res. th_proc t \<noteq> Done res) (pl_threads \<pi>))"

lemma busy_unfinished:
  assumes "trail_inv \<pi> pend"
  shows "finite (busy (log_view s pend))" "card (busy (log_view s pend)) \<le> unfinished \<pi>"
proof -
  let ?ts = "pl_threads \<pi>"
  let ?U = "{i. i < length ?ts \<and> (\<forall>res. th_proc (?ts ! i) \<noteq> Done res)}"
  have "busy (log_view s pend) \<subseteq> ?U"
  proof
    fix i assume "i \<in> busy (log_view s pend)"
    then have p: "pend i \<noteq> None" by (simp add: busy_def log_view_def)
    then have i: "i < length ?ts" using assms by (auto simp: trail_inv_def not_le [symmetric])
    then have "tidy (th_proc (?ts ! i)) (pend i)" using assms by (simp add: trail_inv_def)
    with p i show "i \<in> ?U" by auto
  qed
  moreover have "finite ?U" by simp
  ultimately show "finite (busy (log_view s pend))" "card (busy (log_view s pend)) \<le> unfinished \<pi>"
    using card_mono [of ?U] finite_subset unfolding unfinished_def length_filter_conv_card by blast+
qed

text \<open>A server that has served one request, which is logged.\<close>

lemma pool_of_demo:
  obtains h c srv \<pi> e where "pool_reach h c srv \<pi>" "wd_audit_out (pl_world \<pi>) = [log_attrs e]" "unfinished \<pi> = 0"
proof -
  obtain gw w' s' q where gw: "startup demo_getenv (\<lambda>_. None) (\<lambda>_. None) = Inr gw"
    and run: "gateway_Handler gw (demo_env ''true'') demo_post (Base demo_conn) init_world = Ret (w', s')"
    by (rule demo_served)
  obtain h c \<pi> ow where \<pi>: "pool_reach h c (gw_server gw) \<pi>" "pl_world \<pi> = s'"
    "pl_threads \<pi> = [\<lparr>th_request = demo_post, th_own = ow, th_proc = Done (Ret w')\<rparr>]"
    by (rule pool_of_run [OF gw demo_post_fields(1,4) new_demo_conn wf_demo_env run])
  obtain e where "wd_audit_out s' = [log_attrs e]"
    using gateway_audit [OF gw demo_post_fields(3) provenance_init wf_demo_env new_demo_conn demo_post_fields(4) run]
    by (auto simp: init_fields)
  with \<pi> that [of h c "gw_server gw" \<pi> e] show ?thesis by (simp add: unfinished_def)
qed

section \<open>Properties\<close>

text \<open>
  C3: no audit entry is lost and memory is bounded however requests interleave: the log has one line for each
  entry appended to the store and at most one more for each unfinished request, the store holds the
  newest 10000 of the appended entries, and once every request is finished log and store come from
  the same entries; the token cache never holds more than 10000 entries, one for each key.
\<close>

theorem concurrent_store_complete:
  assumes "pool_reach h c srv \<pi>"
  shows "\<exists>ws es. wd_audit_out (pl_world \<pi>) = map log_attrs ws \<and>
    store_log (wd_store (pl_world \<pi>)) = take maxStoreSize (rev es) \<and> mset es \<subseteq># mset ws \<and>
    length ws \<le> length es + unfinished \<pi> \<and> (unfinished \<pi> = 0 \<longrightarrow> mset ws = mset es) \<and>
    cacheLen (wd_cache (pl_world \<pi>)) \<le> defaultMaxEntries \<and> distinct (keys (tc_entries (wd_cache (pl_world \<pi>))))"
proof -
  let ?s = "pl_world \<pi>"
  obtain pend where inv: "trail_inv \<pi> pend" using trail_inv_reach [OF assms] by blast
  then have run: "lstep\<^sup>*\<^sup>* log_start (log_view ?s pend)" and c: "cache_wf (wd_cache ?s)" "tc_maxEntries (wd_cache ?s) = defaultMaxEntries"
    by (simp_all add: trail_inv_def)
  have view: "ls_out (log_view ?s pend) = wd_audit_out ?s" "ls_store (log_view ?s pend) = wd_store ?s"
    by (simp_all add: log_view_def)
  obtain ws es where l: "wd_audit_out ?s = map log_attrs ws"
    "store_log (wd_store ?s) = take maxStoreSize (rev es)" "mset es \<subseteq># mset ws"
    "length ws = length es + card (busy (log_view ?s pend))" "busy (log_view ?s pend) = {} \<longrightarrow> mset ws = mset es"
    using interleaved_log_complete [OF run] unfolding view by blast
  note busy = busy_unfinished [OF inv, of ?s]
  have "length ws \<le> length es + unfinished \<pi>" using l(4) busy(2) by simp
  moreover have "unfinished \<pi> = 0 \<longrightarrow> mset ws = mset es" using l(5) busy by auto
  moreover have "cacheLen (wd_cache ?s) \<le> defaultMaxEntries" "distinct (keys (tc_entries (wd_cache ?s)))"
    using c by (simp_all add: cache_wf_def wf_map_def)
  ultimately show ?thesis using l(1-3) by (intro exI [of _ ws] exI [of _ es] conjI)
qed

theorem concurrent_store_complete_witness:
  "\<exists>h c srv \<pi> e. pool_reach h c srv \<pi> \<and> wd_audit_out (pl_world \<pi>) = [log_attrs e] \<and>
     store_log (wd_store (pl_world \<pi>)) = [e]"
proof -
  obtain h c srv \<pi> e where \<pi>: "pool_reach h c srv \<pi>" "wd_audit_out (pl_world \<pi>) = [log_attrs e]" "unfinished \<pi> = 0"
    by (rule pool_of_demo)
  with concurrent_store_complete [OF \<pi>(1)] obtain ws es where w: "map log_attrs ws = [log_attrs e]"
    "store_log (wd_store (pl_world \<pi>)) = take maxStoreSize (rev es)" "mset ws = mset es" by metis
  then obtain e' where ws: "ws = [e']" by auto
  with w(3) have "es = [e']" by simp
  with w ws \<pi>(2) have "wd_audit_out (pl_world \<pi>) = [log_attrs e']" "store_log (wd_store (pl_world \<pi>)) = [e']"
    by (simp_all add: maxStoreSize_def)
  with \<pi>(1) show ?thesis by blast
qed

text \<open>
  C23: every line of the audit log is well formed, whatever the request was and however requests interleave: it
  has these ten attributes, the decision is one of two words, client and request id are not empty, and
  the name of the tool has at most 256 bytes.
\<close>

theorem audit_lines_well_formed:
  assumes "pool_reach h c srv \<pi>" "line \<in> set (wd_audit_out (pl_world \<pi>))"
  shows "mset (map fst line) = mset [''audit_id'', ''client_id'', ''tool_name'', ''decision'', ''request_id'',
      ''timestamp'', ''meta.http_method'', ''meta.path'', ''meta.remote_addr'', ''meta.status_code''] \<and>
    the (map_of line ''decision'') \<in> {''ALLOW'', ''DENY''} \<and> the (map_of line ''client_id'') \<noteq> [] \<and>
    the (map_of line ''request_id'') \<noteq> [] \<and> length (the (map_of line ''tool_name'')) \<le> 256"
proof -
  obtain pend where "trail_inv \<pi> pend" using trail_inv_reach [OF assms(1)] by blast
  with assms(2) obtain e where e: "wf_entry e" "line = log_attrs e" by (auto simp: trail_inv_def)
  have "decision_string (e_Decision e) \<in> {''ALLOW'', ''DENY''}" by (cases "e_Decision e") simp_all
  moreover have "map_of line ''decision'' = Some (decision_string (e_Decision e))"
    "map_of line ''client_id'' = Some (e_ClientID e)" "map_of line ''request_id'' = Some (e_RequestID e)"
    "map_of line ''tool_name'' = Some (e_ToolName e)" by (simp_all add: e(2) log_attrs_def)
  moreover have "length (e_ToolName e) \<le> 256" using e(1) by (simp add: wf_entry_def maxHeaderValueLen_def)
  ultimately show ?thesis
    using log_attrs_names [OF e(1)] e(1) by (simp add: attr_names_def wf_entry_def flip: e(2) mset_map del: mset_map)
qed

theorem audit_lines_well_formed_witness:
  "\<exists>h c srv \<pi> line. pool_reach h c srv \<pi> \<and> wd_audit_out (pl_world \<pi>) = [line] \<and>
     the (map_of line ''decision'') \<in> {''ALLOW'', ''DENY''}"
proof -
  obtain h c srv \<pi> e where \<pi>: "pool_reach h c srv \<pi>" "wd_audit_out (pl_world \<pi>) = [log_attrs e]"
    by (rule pool_of_demo)
  from audit_lines_well_formed [OF \<pi>(1), of "log_attrs e"] \<pi>(2)
  have "the (map_of (log_attrs e) ''decision'') \<in> {''ALLOW'', ''DENY''}" by simp
  with \<pi> show ?thesis by blast
qed

lemma attr_names_plain:
  "distinct ([''time'', ''level'', ''msg''] @ attr_names)" "list_all plain_text attr_names"
  by (simp_all add: attr_names_def plain_text_def plain_char_def)

text \<open>
  C4: nothing a client sends can forge or hide an entry of the audit log: whatever bytes the values have, the
  file that the JSON handler writes has exactly one line for each entry; each line parses, and to an
  object whose members are the attributes of that entry (with invalid UTF-8 replaced), each once, so
  that the decision a reader finds is the one that was logged.  The metadata may come in any order, and
  the time of a record is any text that needs no escape.
\<close>

theorem audit_file_reads_back:
  assumes "pool_reach h c srv \<pi>"
    and "list_all2 (\<lambda>attrs line. mset attrs = mset line) out (wd_audit_out (pl_world \<pi>))"
    and "\<And>i. plain_text (stamp i)"
  shows "read_log (audit_file stamp out) =
      map (\<lambda>(i, attrs). Some (JObj (map (\<lambda>(k, v). (k, slog_string v, JStr (valid_utf8 v)))
        ([(''time'', stamp i), (''level'', ''INFO''), (''msg'', ''audit_log'')] @ attrs)))) (enumerate 0 out) \<and>
    (\<forall>attrs \<in> set out. distinct ([''time'', ''level'', ''msg''] @ map fst attrs))"
proof -
  obtain pend where "trail_inv \<pi> pend" using trail_inv_reach [OF assms(1)] by blast
  then have log: "map fst line = attr_names" if "line \<in> set (wd_audit_out (pl_world \<pi>))" for line
    using log_attrs_names that by (auto simp: trail_inv_def)
  have names: "mset (map fst attrs) = mset attr_names" if attrs: "attrs \<in> set out" for attrs
  proof -
    obtain i where i: "i < length out" "attrs = out ! i" using attrs by (auto simp: in_set_conv_nth)
    let ?line = "wd_audit_out (pl_world \<pi>) ! i"
    have "mset attrs = mset ?line" "?line \<in> set (wd_audit_out (pl_world \<pi>))"
      using list_all2_nthD [OF assms(2) i(1)] list_all2_lengthD [OF assms(2)] i by simp_all
    then show ?thesis using log [of ?line] by (metis mset_map)
  qed
  have ok: "distinct ([''time'', ''level'', ''msg''] @ map fst attrs)" "list_all plain_text (map fst attrs)"
    if "attrs \<in> set out" for attrs
    using attr_names_plain mset_eq_setD [OF names [OF that]] mset_eq_imp_distinct_iff [OF names [OF that]]
    by (simp_all only: distinct_append list_all_iff)
  have "plain_text (fst kv)" if "attrs \<in> set out" "kv \<in> set attrs" for attrs kv
    using ok(2) [OF that(1)] that(2) unfolding list_all_iff by simp
  then have "\<forall>attrs \<in> set out. \<forall>(k, v) \<in> set attrs. plain_text k" by (simp add: split_def)
  note reads = read_audit_file [OF assms(3) this, unfolded line_json_def]
  show ?thesis by (intro conjI ballI ok(1) reads)
qed

theorem audit_file_reads_back_witness:
  "\<exists>h c srv \<pi>. pool_reach h c srv \<pi> \<and> length (wd_audit_out (pl_world \<pi>)) = 1 \<and>
     length (read_log (audit_file (\<lambda>_. ''2026-01-01T00:00:00Z'') (wd_audit_out (pl_world \<pi>)))) = 1"
proof -
  obtain h c srv \<pi> e where \<pi>: "pool_reach h c srv \<pi>" "wd_audit_out (pl_world \<pi>) = [log_attrs e]"
    by (rule pool_of_demo)
  have "plain_text ''2026-01-01T00:00:00Z''" by (simp add: plain_text_def plain_char_def)
  with audit_file_reads_back [OF \<pi>(1), of "[log_attrs e]" "\<lambda>_. ''2026-01-01T00:00:00Z''"] \<pi>
  show ?thesis by (intro exI [of _ h] exI [of _ c] exI [of _ srv] exI [of _ \<pi>]) simp
qed

end
