(* ===== verification/AuthEffects.thy ===== *)
theory AuthEffects
  imports Gateway
begin

text \<open>
  What serving a request does to the token cache and to the list of calls to Hydra: nothing but the lookup,
  the introspection and the store of the auth middleware.  \<open>auth_effects\<close> is the interface of a relation that
  these three keep; it then holds of the whole gateway.
\<close>

section \<open>The interface\<close>

definition hydra_quiet :: "world \<Rightarrow> world \<Rightarrow> bool" where
  "hydra_quiet s s' \<longleftrightarrow> wd_cache s' = wd_cache s \<and>
     (\<exists>evs. wd_events s' = wd_events s @ evs \<and> (\<forall>q res. Ev_Hydra q res \<notin> set evs))"

lemma hydra_quiet_same: "wd_cache s' = wd_cache s \<Longrightarrow> wd_events s' = wd_events s \<Longrightarrow> hydra_quiet s s'"
  by (simp add: hydra_quiet_def)

locale auth_effects =
  fixes R :: "request \<Rightarrow> env \<Rightarrow> world \<Rightarrow> world \<Rightarrow> bool"
  assumes quiet: "hydra_quiet s s' \<Longrightarrow> R r env s s'"
    and trans: "R r env s s1 \<Longrightarrow> R r env s1 s' \<Longrightarrow> R r env s s'"
    and headers: "req_header r' = req_header r \<Longrightarrow> R r' env s s' \<Longrightarrow> R r env s s'"
    and get: "w_cacheGet env token s = (hit, s') \<Longrightarrow> R r env s s'"
    and ask: "Introspect h env token s = (a, s') \<Longrightarrow> extractBearerToken r = Inr token \<Longrightarrow> R r env s s'"
    and store: "Introspect h env token s = (Inr result, s') \<Longrightarrow> extractBearerToken r = Inr token \<Longrightarrow>
      R r env s' (w_cacheSet env token result s')"
begin

definition keeps :: "handler \<Rightarrow> bool" where
  "keeps h \<longleftrightarrow> (\<forall>env r w s. R r env s (snd (go_state (h env r w s))))"

lemma keepsI: "(\<And>env r w s. R r env s (snd (go_state (h env r w s)))) \<Longrightarrow> keeps h"
  by (simp add: keeps_def)

lemma keepsD: "keeps h \<Longrightarrow> R r env s (snd (go_state (h env r w s)))"
  by (simp add: keeps_def)

lemma refl: "R r env s s"
  by (rule quiet) (simp add: hydra_quiet_same)

lemma next_step:
  assumes "keeps h" "req_header r' = req_header r" "R r env s s1"
  shows "R r env s (snd (go_state (h env r' w s1)))"
  by (rule trans [OF assms(3)]) (rule headers [OF assms(2)], rule keepsD [OF assms(1)])

lemma keeps_mux: "keeps (mux_ServeHTTP srv)"
proof (rule keepsI)
  fix env r w s
  obtain w' s' where g: "go_state (mux_ServeHTTP srv env r w s) = (w', s')" by fastforce
  have "hydra_quiet s s'"
    using g
  proof (cases rule: mux_sends)
    case (sent ev)
    then have "is_upstream ev" by (auto dest: forwarded_upstream)
    with sent(1) show ?thesis by (auto simp: hydra_quiet_def sends_def)
  qed (simp add: hydra_quiet_def sends_def)
  with g show "R r env s (snd (go_state (mux_ServeHTTP srv env r w s)))" by (simp add: quiet)
qed

lemma evaluate: "Evaluate c env i s = (a, s') \<Longrightarrow> R r env s s'"
  by (rule quiet) (auto simp: Evaluate_def policy_request_eq Let_def emit_def hydra_quiet_def)

lemma keeps_policy:
  assumes h: "keeps h"
  shows "keeps (policy_Handler (main_policy c) h)"
proof (rule keepsI)
  fix env r w s
  show "R r env s (snd (go_state (policy_Handler (main_policy c) h env r w s)))"
  proof (cases "req_path r = ''/health'' \<or> req_method r \<noteq> ''POST''")
    case True
    then show ?thesis using keepsD [OF h] by (auto simp: policy_Handler_def)
  next
    case False
    show ?thesis
    proof (cases "buildInput r")
      case None
      with False show ?thesis by (simp add: policy_Handler_def refl)
    next
      case (Some z)
      obtain i p r' where z: "z = ((i, p), r')" by (cases z) auto
      with Some have b: "req_header r' = req_header r" using buildInput_frame by fastforce
      show ?thesis
      proof (cases i)
        case None
        with False Some z show ?thesis
          using next_step [OF h b refl] by (simp add: policy_Handler_def refl)
      next
        case i: (Some inp)
        obtain a s1 where e: "Evaluate c env inp s = (a, s1)" by fastforce
        note t = evaluate [OF e]
        show ?thesis
          using False Some z i e t next_step [OF h b t] by (auto simp: policy_Handler_def split: sum.split)
      qed
    qed
  qed
qed

lemma keeps_auth:
  assumes h: "keeps h"
  shows "keeps (auth_Handler (main_auth hy) h)"
proof (rule keepsI)
  fix env r w s
  show "R r env s (snd (go_state (auth_Handler (main_auth hy) h env r w s)))"
  proof (cases "req_path r = ''/health'' \<or> (\<exists>err. extractBearerToken r = Inl err)")
    case True
    then show ?thesis using keepsD [OF h] by (auto simp: auth_Handler_def refl)
  next
    case False
    then obtain token where path: "req_path r \<noteq> ''/health''" and t: "extractBearerToken r = Inr token"
      by (cases "extractBearerToken r") auto
    have hd: "req_header (with_token result r) = req_header r" for result by simp
    obtain hit s1 where g: "w_cacheGet env token s = (hit, s1)" by fastforce
    note R1 = get [OF g, of r]
    show ?thesis
    proof (cases hit)
      case (Some result)
      with path t g R1 show ?thesis using next_step [OF h hd R1] by (simp add: auth_Handler_def)
    next
      case None
      obtain a s2 where i: "Introspect hy env token s1 = (a, s2)" by fastforce
      note R2 = trans [OF R1 ask [OF i t]]
      show ?thesis
      proof (cases a)
        case (Inl err)
        with path t g None i R2 show ?thesis by (simp add: auth_Handler_def)
      next
        case (Inr result)
        note R3 = trans [OF R2 store [OF i [unfolded Inr] t]]
        from path t g None i Inr R3 show ?thesis
          using next_step [OF h hd R3] by (simp add: auth_Handler_def Let_def)
      qed
    qed
  qed
qed

lemma keeps_audit:
  assumes h: "keeps h"
  shows "keeps (audit_Handler main_audit h)"
proof (rule keepsI)
  fix env r w s
  show "R r env s (snd (go_state (audit_Handler main_audit h env r w s)))"
  proof (cases "audit_prepare r")
    case None
    then show ?thesis using keepsD [OF h] by (simp add: audit_Handler_def refl)
  next
    case (Some x)
    obtain tool r' where x: "audit_prepare r = Some (tool, r')" using Some by (cases x) auto
    then have "req_header r' = req_header r" using audit_prepare_frame by fastforce
    note t = next_step [OF h this refl, of env s "StatusRecorder w [] 0"]
    show ?thesis
    proof (cases "h env r' (StatusRecorder w [] 0) s")
      case (Ret z)
      with t obtain rec s1 where z: "z = (rec, s1)" "R r env s s1" by (cases z) auto
      have "R r env s (audit_log_request env r' tool (captured_clientID rec) (captured_status rec) s1)"
        by (rule trans [OF z(2)]) (rule quiet, simp add: hydra_quiet_same audit_log_request_frame)
      with Ret z x show ?thesis using keepsD [OF h] by (simp add: audit_Handler_def)
    qed (use t x keepsD [OF h] in \<open>auto simp: audit_Handler_def split: prod.split\<close>)
  qed
qed

text \<open>The whole gateway.\<close>

lemma gateway_keeps:
  assumes "startup getenv open_file listen = Inr gw" "go_state (gateway_Handler gw env r w s) = (w', s')"
  shows "R r env s s'"
proof -
  obtain h c where gw: "gateway_Handler gw =
      RequestIDMiddleware (audit_Handler main_audit (guarded h c (gw_server gw)))"
    using startup_chain [OF assms(1)] by metis
  have t: "keeps (audit_Handler main_audit (guarded h c (gw_server gw)))"
    unfolding guarded_def by (intro keeps_audit keeps_auth keeps_policy keeps_mux)
  obtain i s1 where run: "gateway_Handler gw env r w s =
      audit_Handler main_audit (guarded h c (gw_server gw)) env (WithRequestID i r)
        (w_set_header (hset RequestIDHeader i) w) s1" and e: "wd_events s1 = wd_events s" "calls_only s s1"
    using RequestID_step [of "audit_Handler main_audit (guarded h c (gw_server gw))" env r w s] gw by metis
  have "R r env s s1" by (rule quiet, rule hydra_quiet_same) (use e in \<open>simp_all add: calls_only_def\<close>)
  from next_step [OF t _ this, of "WithRequestID i r" "w_set_header (hset RequestIDHeader i) w"] assms(2) run
  show ?thesis by simp
qed

end

section \<open>What Hydra is asked\<close>

text \<open>
  Only about the bearer token of the request, and the answer that is recorded is that of the environment.
\<close>

definition hydra_traced :: "request \<Rightarrow> env \<Rightarrow> world \<Rightarrow> world \<Rightarrow> bool" where
  "hydra_traced r env s s' \<longleftrightarrow> (\<exists>evs. wd_events s' = wd_events s @ evs \<and>
     (\<forall>q res. Ev_Hydra q res \<in> set evs \<longrightarrow> (\<exists>t token. res = env_hydra env t q \<and>
        extractBearerToken r = Inr token \<and> out_body q = Body (form_encode ''token'' token) None)))"

lemma hydra_traced_refl: "wd_events s' = wd_events s \<Longrightarrow> hydra_traced r env s s'"
  by (simp add: hydra_traced_def)

interpretation asks: auth_effects hydra_traced
proof
  fix s s' s1 :: world and r r' :: request and env h token a result hit
  show "hydra_traced r env s s'" if "hydra_quiet s s'"
    using that by (auto simp: hydra_quiet_def hydra_traced_def)
  show "hydra_traced r env s s'" if "hydra_traced r env s s1" "hydra_traced r env s1 s'"
    using that unfolding hydra_traced_def by (elim exE) (rule exI, auto)
  show "hydra_traced r env s s'" if "req_header r' = req_header r" "hydra_traced r' env s s'"
    using that extractBearerToken_cong [of r' r] by (simp add: hydra_traced_def)
  show "hydra_traced r env s s'" if "w_cacheGet env token s = (hit, s')"
    using w_cacheGet_frame [OF that] by (simp add: hydra_traced_refl)
  show "hydra_traced r env s s'" if "Introspect h env token s = (a, s')" "extractBearerToken r = Inr token"
    using that by (auto simp: Introspect_def introspect_request_eq Let_def emit_def hydra_traced_def)
  show "hydra_traced r env s' (w_cacheSet env token result s')"
    by (rule hydra_traced_refl) (rule w_cacheSet_frame)
qed

lemmas gateway_traced = asks.gateway_keeps

end
