(* ===== verification/CacheTransparency.thy ===== *)
theory CacheTransparency
  imports AuthEffects Demo
begin

text \<open>
  The token cache only saves calls: as long as Hydra gives the same answer to the same question, the auth
  middleware with its cache admits, refuses and identifies exactly as one that asks Hydra every time.
  What it needs of the introspector is the locale \<open>steady_introspection\<close>, an extension of \<open>introspection\<close>.
\<close>

section \<open>The reference: a middleware without a cache\<close>

definition auth_reference :: "(string \<Rightarrow> introspect_error + introspection) \<Rightarrow> auth_middleware \<Rightarrow> middleware" where
  "auth_reference verdict m next env r w s =
    (if req_path r \<in> set (am_skipPaths m) then next env r w s
     else (case extractBearerToken r of
       Inl err \<Rightarrow> Ret (writeUnauthorized w (token_error_text err), s)
     | Inr token \<Rightarrow> (case verdict token of
         Inl err \<Rightarrow> Ret (writeUnauthorized w ''token verification failed'', s)
       | Inr result \<Rightarrow>
           if ir_Active result then next env (with_token result r) (with_audit_id result w) s
           else Ret (writeUnauthorized w ''token is not active'', s))))"

text \<open>The tokens Hydra has been asked about.\<close>

definition asked :: "event list \<Rightarrow> string \<Rightarrow> bool" where
  "asked evs token \<longleftrightarrow> (\<exists>q res. Ev_Hydra q res \<in> set evs \<and> out_body q = Body (form_encode ''token'' token) None)"

text \<open>A cache whose entry for a token, if there is one, is the verdict on it.\<close>

definition cache_agrees :: "(string \<Rightarrow> introspect_error + introspection) \<Rightarrow> string \<Rightarrow> token_cache \<Rightarrow> bool" where
  "cache_agrees verdict token c \<longleftrightarrow>
     (\<forall>result. (hashToken token, result) \<in> cache_contents c \<longrightarrow> verdict token = Inr result)"

section \<open>An introspector whose answers do not change\<close>

locale steady_introspection = introspection introspect for introspect +
  fixes steady :: "env \<Rightarrow> bool" and verdict :: "string \<Rightarrow> introspect_error + introspection"
  assumes introspect_steady: "steady env \<Longrightarrow> fst (introspect env token s) = verdict token"
begin

lemma hit_agrees:
  assumes "cache_agrees verdict token (wd_cache s)" "w_cacheGet env token s = (Some result, s1)"
  shows "verdict token = Inr result"
proof -
  obtain t c where "cacheGet (env_clock env) token (wd_tick s, wd_cache s) = (Some result, (t, c))"
    using assms(2) by (auto simp: w_cacheGet_def Let_def split: prod.splits)
  then have "(hashToken token, result) \<in> cache_contents (wd_cache s)" by (rule tokens.get_hit)
  with assms(1) show ?thesis by (simp add: cache_agrees_def)
qed

text \<open>
  The cached middleware does what the reference does, in a world that differs by calls to Hydra and the
  cache only.
\<close>

lemma cached_is_reference:
  assumes "am_introspector m = introspect" "steady env"
    and "\<And>token. extractBearerToken r = Inr token \<Longrightarrow> cache_agrees verdict token (wd_cache s)"
  obtains s' where "auth_Handler m next env r w s = auth_reference verdict m next env r w s'"
    "unaudited s s'" "upstream_events s' = upstream_events s"
proof (cases "req_path r \<in> set (am_skipPaths m)")
  case True
  then show ?thesis by (intro that [of s]) (simp_all add: auth_Handler_def auth_reference_def)
next
  case notskip: False
  show ?thesis
  proof (cases "extractBearerToken r")
    case (Inl err)
    with notskip show ?thesis by (intro that [of s]) (simp_all add: auth_Handler_def auth_reference_def)
  next
    case (Inr token)
    obtain hit s1 where g: "w_cacheGet env token s = (hit, s1)" by fastforce
    note f1 = w_cacheGet_frame [OF g]
    then have u1: "upstream_events s1 = upstream_events s" by (simp add: upstream_events_def)
    show ?thesis
    proof (cases hit)
      case (Some result)
      with hit_agrees [OF assms(3) [OF Inr]] g have "verdict token = Inr result" by simp
      with Some g Inr notskip f1 u1 show ?thesis
        by (intro that [of s1]) (auto simp: auth_Handler_def auth_reference_def)
    next
      case None
      obtain a s2 where i: "introspect env token s1 = (a, s2)" by fastforce
      have a: "verdict token = a" using introspect_steady [OF assms(2), of token s1] i by simp
      note c2 = introspect_calls [OF i]
      have u2: "upstream_events s2 = upstream_events s" using calls_only_upstream [OF c2] u1 by simp
      have n2: "unaudited s s2" using f1 calls_only_unaudited [OF c2] by (blast intro: unaudited_trans)
      show ?thesis
      proof (cases a)
        case (Inl err)
        with None g i a Inr notskip u2 n2 assms(1) show ?thesis
          by (intro that [of s2]) (simp_all add: auth_Handler_def auth_reference_def)
      next
        case res: (Inr result)
        let ?s3 = "w_cacheSet env token result s2"
        have "unaudited s ?s3" "upstream_events ?s3 = upstream_events s"
          using w_cacheSet_frame n2 u2 by (auto intro: unaudited_trans simp: upstream_events_def)
        with None g i a res Inr notskip assms(1) show ?thesis
          by (intro that [of ?s3]) (simp_all add: auth_Handler_def auth_reference_def Let_def)
      qed
    qed
  qed
qed

end

section \<open>Hydra's client with a Hydra that does not change its mind\<close>

text \<open>\<open>answer\<close>: what Hydra says to the body of a request.\<close>

definition steady_hydra :: "(body \<Rightarrow> http_result) \<Rightarrow> env \<Rightarrow> bool" where
  "steady_hydra answer env \<longleftrightarrow> (\<forall>t q. env_hydra env t q = answer (out_body q))"

definition hydra_verdict :: "(body \<Rightarrow> http_result) \<Rightarrow> string \<Rightarrow> introspect_error + introspection" where
  "hydra_verdict answer token = introspect_answer (answer (Body (form_encode ''token'' token) None))"

interpretation steady_hydra: steady_introspection "Introspect h" "steady_hydra answer" "hydra_verdict answer" for h answer
  by unfold_locales
    (simp add: Introspect_def introspect_request_eq Let_def steady_hydra_def hydra_verdict_def)

section \<open>Runs with such a Hydra\<close>

inductive steady_reach :: "(body \<Rightarrow> http_result) \<Rightarrow> gateway \<Rightarrow> world \<Rightarrow> bool" for answer gw where
  steady_init: "steady_reach answer gw init_world"
| steady_serve: "steady_reach answer gw s \<Longrightarrow> steady_hydra answer env \<Longrightarrow> wf_path r \<Longrightarrow>
    go_state (gateway_Handler gw env r (Base c) s) = (w', s') \<Longrightarrow> steady_reach answer gw s'"

lemma steady_reach_reach: "steady_reach answer gw s \<Longrightarrow> reach gw s"
  by (induction rule: steady_reach.induct) (auto intro: reach.intros)

lemma steady_reach_answers:
  assumes "startup getenv open_file listen = Inr gw" "steady_reach answer gw s"
  shows "Ev_Hydra q res \<in> set (wd_events s) \<Longrightarrow> res = answer (out_body q)"
  using assms(2)
proof (induction arbitrary: q res)
  case steady_init
  then show ?case by (simp add: init_world_def)
next
  case (steady_serve s env r c w' s')
  obtain evs where "wd_events s' = wd_events s @ evs"
    "\<And>q res. Ev_Hydra q res \<in> set evs \<Longrightarrow> \<exists>t. res = env_hydra env t q"
    using gateway_traced [OF assms(1) steady_serve.hyps(4)] by (auto simp: hydra_traced_def)
  with steady_serve show ?case by (auto simp: steady_hydra_def)
qed

lemma provenance_agrees:
  assumes "provenance s"
    and "\<And>q res. Ev_Hydra q res \<in> set (wd_events s) \<Longrightarrow> res = answer (out_body q)"
    and "\<And>token'. asked (wd_events s) token' \<Longrightarrow> hashToken token' = hashToken token \<Longrightarrow> token' = token"
  shows "cache_agrees (hydra_verdict answer) token (wd_cache s)"
  unfolding cache_agrees_def
proof (intro allI impI)
  fix result assume "(hashToken token, result) \<in> cache_contents (wd_cache s)"
  then have "introspected (wd_events s) (hashToken token) result" using assms(1) by (auto simp: provenance_def)
  then obtain token' q res where t: "hashToken token = hashToken token'" "Ev_Hydra q res \<in> set (wd_events s)"
    "out_body q = Body (form_encode ''token'' token') None" "introspect_answer res = Inr result"
    by (auto simp: introspected_def)
  then have "token' = token" using assms(3) [of token'] by (auto simp: asked_def)
  with t assms(2) [OF t(2)] show "hydra_verdict answer token = Inr result" by (simp add: hydra_verdict_def)
qed

section \<open>Properties\<close>

text \<open>
  C6: the cache is transparent.  While Hydra gives the same answer to the same question, in every state the
  gateway can reach, the auth middleware does exactly what the reference without a cache does, whatever
  the next handler is, provided that no other token Hydra was asked about has the SHA-256 hash of the one
  in the request.
\<close>

theorem cache_transparent:
  assumes "startup getenv open_file listen = Inr gw" "steady_reach answer gw s" "steady_hydra answer env"
    and "\<And>token token'. extractBearerToken r = Inr token \<Longrightarrow> asked (wd_events s) token' \<Longrightarrow>
      hashToken token' = hashToken token \<Longrightarrow> token' = token"
  shows "\<exists>s'. auth_Handler (main_auth h) next env r w s =
      auth_reference (hydra_verdict answer) (main_auth h) next env r w s' \<and>
    unaudited s s' \<and> upstream_events s' = upstream_events s"
proof (rule steady_hydra.cached_is_reference [of "main_auth h" h answer env r s "next" w])
  fix token assume t: "extractBearerToken r = Inr token"
  show "cache_agrees (hydra_verdict answer) token (wd_cache s)"
  proof (rule provenance_agrees)
    show "provenance s" by (rule reach_provenance [OF assms(1) steady_reach_reach [OF assms(2)]])
  qed (fact steady_reach_answers [OF assms(1,2)], fact assms(4) [OF t])
qed (use assms(3) in auto)

text \<open>The witness: the second request with the token of the demonstration run.\<close>

theorem cache_transparent_witness:
  "\<exists>gw w s answer. gateway_Handler gw (demo_env ''true'') demo_post (Base demo_conn) init_world = Ret (w, s) \<and>
     (\<forall>h next. \<exists>s'. auth_Handler (main_auth h) next (demo_env ''true'') demo_post w s =
       auth_reference (hydra_verdict answer) (main_auth h) next (demo_env ''true'') demo_post w s') \<and>
     (\<exists>result. hydra_verdict answer ''t'' = Inr result \<and> ir_Active result)"
proof -
  let ?answer = "\<lambda>b :: body. DoResp StatusOK [] (hydra_document ''true'') False"
  obtain gw w s q where gw: "startup demo_getenv (\<lambda>_. None) (\<lambda>_. None) = Inr gw"
    and run: "gateway_Handler gw (demo_env ''true'') demo_post (Base demo_conn) init_world = Ret (w, s)"
    by (rule demo_served)
  have st: "go_state (gateway_Handler gw (demo_env ''true'') demo_post (Base demo_conn) init_world) = (w, s)"
    using run by simp
  have steady: "steady_hydra ?answer (demo_env ''true'')" by (simp add: steady_hydra_def demo_env_def demo_env_with_def)
  have reach: "steady_reach ?answer gw s" by (rule steady_serve [OF steady_init steady demo_post_fields(1) st])
  have t: "extractBearerToken demo_post = Inr ''t''" by (simp add: demo_post_def demo_token)
  have "token' = ''t''" if "asked (wd_events s) token'" for token'
    using that gateway_traced [OF gw st] t
    by (auto simp: asked_def hydra_traced_def init_world_def form_encode_def dest: queryEscape_inj)
  then have "\<exists>s'. auth_Handler (main_auth h) next (demo_env ''true'') demo_post w s =
      auth_reference (hydra_verdict ?answer) (main_auth h) next (demo_env ''true'') demo_post w s'" for h "next"
    using cache_transparent [OF gw reach steady, of demo_post h "next" w] t by auto
  moreover have "hydra_verdict ?answer ''t'' = Inr demo_result"
    using hydra_answer [OF reads_as_bool(1)] by (simp add: hydra_verdict_def demo_result_def)
  moreover have "ir_Active demo_result" by (simp add: demo_result_def)
  ultimately show ?thesis using run by blast
qed

end
