(* ===== verification/Revocation.thy ===== *)
theory Revocation
  imports AuthEffects
begin

text \<open>
  How long a revoked token is still accepted: the cache answers for Hydra, but for no longer than its life
  time of five minutes, whatever is served in the meantime.
\<close>

section \<open>The state of the cache\<close>

text \<open>
  \<open>revoked key env\<close>: Hydra calls no token with this cache key active.  \<open>fading T key c\<close>: an entry of the
  cache that says so was stored by the time \<open>T\<close>.
\<close>

definition revoked :: "string \<Rightarrow> env \<Rightarrow> bool" where
  "revoked key env \<longleftrightarrow> (\<forall>t q token result. hashToken token = key \<and>
     out_body q = Body (form_encode ''token'' token) None \<and> introspect_answer (env_hydra env t q) = Inr result \<longrightarrow>
     \<not> ir_Active result)"

definition fading :: "int \<Rightarrow> string \<Rightarrow> token_cache \<Rightarrow> bool" where
  "fading T key c \<longleftrightarrow> tc_ttl c = defaultCacheTTL \<and>
     (\<forall>e. (key, e) \<in> set (tc_entries c) \<and> ir_Active (ce_result e) \<longrightarrow> ce_expiresAt e \<le> T + defaultCacheTTL)"

text \<open>A request that is served by the time \<open>T\<close>, or when the token has been revoked.\<close>

definition early_or_revoked :: "int \<Rightarrow> string \<Rightarrow> env \<Rightarrow> bool" where
  "early_or_revoked T key env \<longleftrightarrow> (\<forall>t. env_clock env t \<le> T) \<or> revoked key env"

definition keeps_fading :: "int \<Rightarrow> string \<Rightarrow> request \<Rightarrow> env \<Rightarrow> world \<Rightarrow> world \<Rightarrow> bool" where
  "keeps_fading T key r env s s' \<longleftrightarrow>
     (early_or_revoked T key env \<and> fading T key (wd_cache s) \<longrightarrow> fading T key (wd_cache s'))"

lemma fading_get:
  assumes "fading T key (wd_cache s)" "w_cacheGet env token s = (hit, s')"
  shows "fading T key (wd_cache s')"
proof -
  obtain t c where c: "cacheGet (env_clock env) token (wd_tick s, wd_cache s) = (hit, (t, c))"
    and s': "wd_cache s' = c"
    using assms(2) by (auto simp: w_cacheGet_def Let_def split: prod.splits)
  from c have "set (tc_entries c) \<subseteq> set (tc_entries (wd_cache s))" "tc_ttl c = tc_ttl (wd_cache s)"
    using set_delete_subset [of "hashToken token" "tc_entries (wd_cache s)"]
    by (auto simp: cacheGet_def Let_def split: option.splits if_splits)
  with assms(1) s' show ?thesis by (auto simp: fading_def)
qed

lemma Introspect_body:
  assumes "Introspect h env token s = (Inr result, s')"
  obtains t q where "introspect_answer (env_hydra env t q) = Inr result"
    "out_body q = Body (form_encode ''token'' token) None"
  using assms by (auto simp: Introspect_def introspect_request_eq Let_def)

lemma revoked_Introspect:
  "revoked (hashToken token) env \<Longrightarrow> Introspect h env token s = (Inr result, s') \<Longrightarrow> \<not> ir_Active result"
  by (erule Introspect_body) (auto simp: revoked_def)

lemma fading_store:
  assumes "early_or_revoked T key env" "fading T key (wd_cache s')" "Introspect h env token s = (Inr result, s')"
  shows "fading T key (wd_cache (w_cacheSet env token result s'))"
proof -
  obtain t c where c: "cacheSet (env_range env) (env_clock env) token result (wd_tick s', wd_cache s') = (t, c)"
    by fastforce
  note new = cacheSet_entries [OF c]
  have "ce_expiresAt e \<le> T + defaultCacheTTL" if e: "(key, e) \<in> set (tc_entries c)" "ir_Active (ce_result e)" for e
    using new(2) [OF e(1)]
  proof
    assume "(key, e) \<in> set (tc_entries (wd_cache s'))"
    with assms(2) e(2) show ?thesis by (simp add: fading_def)
  next
    assume n: "key = hashToken token \<and> ce_result e = result \<and> (\<exists>u. ce_expiresAt e \<le> env_clock env u + tc_ttl (wd_cache s'))"
    then have "\<not> revoked key env" using revoked_Introspect assms(3) e(2) by blast
    then have "env_clock env u \<le> T" for u using assms(1) by (simp add: early_or_revoked_def)
    moreover obtain u where "ce_expiresAt e \<le> env_clock env u + defaultCacheTTL"
      using n assms(2) by (auto simp: fading_def)
    ultimately show ?thesis by (meson add_right_mono order_trans)
  qed
  moreover have "wd_cache (w_cacheSet env token result s') = c" using c by (simp add: w_cacheSet_def)
  ultimately show ?thesis using new(1) assms(2) by (simp add: fading_def)
qed

interpretation fades: auth_effects "keeps_fading T key" for T key
proof
  fix s s' s1 :: world and r r' :: request and env h token a result hit
  show "keeps_fading T key r env s s'" if "hydra_quiet s s'"
    using that by (simp add: keeps_fading_def hydra_quiet_def)
  show "keeps_fading T key r env s s'" if "keeps_fading T key r env s s1" "keeps_fading T key r env s1 s'"
    using that by (simp add: keeps_fading_def)
  show "keeps_fading T key r env s s'" if "keeps_fading T key r' env s s'"
    using that by (simp add: keeps_fading_def)
  show "keeps_fading T key r env s s'" if "w_cacheGet env token s = (hit, s')"
    using fading_get that by (auto simp: keeps_fading_def)
  show "keeps_fading T key r env s s'" if "Introspect h env token s = (a, s')"
    using hydra.introspect_calls [OF that] by (simp add: keeps_fading_def calls_only_def)
  show "keeps_fading T key r env s' (w_cacheSet env token result s')" if "Introspect h env token s = (Inr result, s')"
    using fading_store that by (auto simp: keeps_fading_def)
qed

section \<open>Serving while a token is revoked\<close>

text \<open>
  The states serving can lead to when every request, in whatever order, is served by the time \<open>T\<close> or with
  a Hydra that does not call the token active.
\<close>

inductive revoking_reach :: "int \<Rightarrow> string \<Rightarrow> gateway \<Rightarrow> world \<Rightarrow> bool" for T key gw where
  revoking_init: "revoking_reach T key gw init_world"
| revoking_serve: "revoking_reach T key gw s \<Longrightarrow> early_or_revoked T key env \<Longrightarrow>
    go_state (gateway_Handler gw env r (Base c) s) = (w', s') \<Longrightarrow> revoking_reach T key gw s'"

lemma revoking_reach_fading:
  assumes "startup getenv open_file listen = Inr gw" "revoking_reach T key gw s"
  shows "fading T key (wd_cache s)"
  using assms(2)
proof induction
  case revoking_init
  then show ?case by (simp add: fading_def init_world_def NewTokenCache_def)
next
  case (revoking_serve s env r c w' s')
  with fades.gateway_keeps [OF assms(1) revoking_serve.hyps(3)] show ?case by (simp add: keeps_fading_def)
qed

text \<open>Once every such entry has expired, the auth middleware refuses the token.\<close>

lemma auth_refuses:
  assumes "fading T (hashToken token) (wd_cache s)" "revoked (hashToken token) env"
    and "\<And>t. T + defaultCacheTTL < env_clock env t"
    and "extractBearerToken r = Inr token" "req_path r \<noteq> ''/health''"
  obtains d s' where "auth_Handler (main_auth h) next env r w s = Ret (writeUnauthorized w d, s')"
    "upstream_events s' = upstream_events s"
proof -
  obtain hit s1 where g: "w_cacheGet env token s = (hit, s1)" by fastforce
  have u1: "upstream_events s1 = upstream_events s" using w_cacheGet_frame [OF g] by (simp add: upstream_events_def)
  show ?thesis
  proof (cases hit)
    case (Some result)
    obtain t c where "cacheGet (env_clock env) token (wd_tick s, wd_cache s) = (Some result, (t, c))"
      using g Some by (auto simp: w_cacheGet_def Let_def split: prod.splits)
    then obtain e where e: "map_of (tc_entries (wd_cache s)) (hashToken token) = Some e"
      "env_clock env (wd_tick s) \<le> ce_expiresAt e" "result = ce_result e"
      using cacheGet_Some_iff by meson
    then have "\<not> ir_Active result"
      using assms(1) assms(3) [of "wd_tick s"] by (force simp: fading_def dest: map_of_SomeD)
    with g Some assms(4,5) u1 show ?thesis
      using that [of "''token is not active''" s1] by (simp add: auth_Handler_def)
  next
    case None
    obtain a s2 where i: "Introspect h env token s1 = (a, s2)" by fastforce
    have u2: "upstream_events s2 = upstream_events s"
      using calls_only_upstream [OF hydra.introspect_calls [OF i]] u1 by simp
    show ?thesis
    proof (cases a)
      case (Inl err)
      with g None i assms(4,5) u2 show ?thesis
        using that [of "''token verification failed''" s2] by (simp add: auth_Handler_def)
    next
      case (Inr result)
      then have "\<not> ir_Active result" using revoked_Introspect [OF assms(2)] i by blast
      moreover have "upstream_events (w_cacheSet env token result s2) = upstream_events s"
        using u2 w_cacheSet_frame by (simp add: upstream_events_def)
      ultimately show ?thesis
        using g None i Inr assms(4,5) that [of "''token is not active''" "w_cacheSet env token result s2"]
        by (simp add: auth_Handler_def Let_def)
    qed
  qed
qed

text \<open>
  A request that carries the token more than five minutes after \<open>T\<close> sends nothing to the MCP server and, if
  it is answered, is answered 401.  Theory \<open>ConcurrentRevocation\<close> shows the same for interleaved requests.
\<close>

lemma revoked_token_refused:
  assumes "startup getenv open_file listen = Inr gw" "revoking_reach T (hashToken token) gw s"
    and "revoked (hashToken token) env" "\<And>t. T + 5 * minute < env_clock env t"
    and "extractBearerToken r = Inr token" "req_path r \<noteq> ''/health''" "new_conn c0"
    and "go_state (gateway_Handler gw env r (Base c0) s) = (w', s')"
  shows "upstream_events s' = upstream_events s \<and>
    (gateway_Handler gw env r (Base c0) s = Ret (w', s') \<longrightarrow>
      (\<exists>c' hd. w' = Base c' \<and> c_sent c' = Some (StatusUnauthorized, hd)))"
proof (rule gateway_audit_step [OF assms(1,6), of env c0 s])
  fix f s1 assume "gateway_Handler gw env r (Base c0) s = Panic (w_set_header f (Base c0), s1)" "calls_only s s1"
  with assms(8) calls_only_upstream show ?thesis by simp
next
  fix h c i s1 tool r'
  assume c1: "calls_only s s1" and prep: "audit_prepare (WithRequestID i r) = Some (tool, r')"
    and run: "gateway_Handler gw env r (Base c0) s =
        (case guarded h c (gw_server gw) env r'
            (StatusRecorder (w_set_header (hset RequestIDHeader i) (Base c0)) [] 0) s1 of
          Ret (rec, s') \<Rightarrow> Ret (inner_writer rec,
            audit_log_request env r' tool (captured_clientID rec) (captured_status rec) s')
        | Panic (rec, s') \<Rightarrow> Panic (inner_writer rec, s')
        | Hang (rec, s') \<Rightarrow> Hang (inner_writer rec, s'))"
  let ?w = "StatusRecorder (w_set_header (hset RequestIDHeader i) (Base c0)) [] 0"
  have fad: "fading T (hashToken token) (wd_cache s1)"
    using revoking_reach_fading [OF assms(1,2)] c1 by (simp add: calls_only_def)
  have late: "T + defaultCacheTTL < env_clock env t" for t using assms(4) by (simp add: defaultCacheTTL_def)
  obtain b where "r' = (WithRequestID i r)\<lparr>req_body := b\<rparr>" using audit_prepare_frame [OF prep] by blast
  then have r': "extractBearerToken r' = Inr token" "req_path r' \<noteq> ''/health''"
    using assms(5,6) extractBearerToken_cong [of r' r] by simp_all
  obtain d s2 where auth: "guarded h c (gw_server gw) env r' ?w s1 = Ret (writeUnauthorized ?w d, s2)"
    and u2: "upstream_events s2 = upstream_events s1"
    unfolding guarded_def by (rule auth_refuses [OF fad assms(3) late r'])
  have p: "pending [] ?w" by (rule pending_new [OF assms(7) audit_free_requestID])
  obtain c' hd where "inner_writer (writeUnauthorized ?w d) = Base c'" "c_sent c' = Some (StatusUnauthorized, hd)"
    by (rule denied_response [OF p])
  with auth run have ret: "gateway_Handler gw env r (Base c0) s = Ret (Base c',
      audit_log_request env r' tool (captured_clientID (writeUnauthorized ?w d))
        (captured_status (writeUnauthorized ?w d)) s2)" by simp
  have "upstream_events s' = upstream_events s"
    using ret assms(8) u2 calls_only_upstream [OF c1] by (auto simp: upstream_events_def audit_log_request_frame)
  moreover have "w' = Base c'" using ret assms(8) by simp
  ultimately show ?thesis using \<open>c_sent c' = Some (StatusUnauthorized, hd)\<close> by blast
qed

end
