(* ===== verification/ConcurrentRevocation.thy ===== *)
theory ConcurrentRevocation
  imports ConcurrentStore Revocation
begin

text \<open>
  Revocation while requests interleave: the entries of the cache fade as in theory \<open>Revocation\<close> whatever the
  steps of the threads are, and a request that comes late with a revoked token does no step that sends
  anything to the MCP server.
\<close>

section \<open>Fading entries\<close>

text \<open>The steps of a thread leave fading entries fading; with \<open>loud = False\<close> they send nothing to the MCP server.\<close>

definition silent :: "world \<Rightarrow> world \<Rightarrow> bool" where
  "silent s s' \<longleftrightarrow> filter is_upstream (drop (length (wd_events s)) (wd_events s')) = []"

definition fade :: "int \<Rightarrow> string \<Rightarrow> bool \<Rightarrow> ('a \<Rightarrow> bool) \<Rightarrow> 'a proc \<Rightarrow> bool" where
  "fade T key loud = within (\<lambda>s. fading T key (wd_cache s)) (\<lambda>s s'. loud \<or> silent s s')"

lemma fade_Done [simp]: "fade T key loud Q (Done x) = Q x"
  by (simp add: fade_def)

lemma fade_bind:
  "fade T key loud Q p \<Longrightarrow> (\<And>x. Q x \<Longrightarrow> fade T key loud R (k x)) \<Longrightarrow> fade T key loud R (bind_proc p k)"
  unfolding fade_def by (rule within_bind)

lemma fade_act:
  assumes "\<And>s x s'. fading T key (wd_cache s) \<Longrightarrow> f s = (x, s') \<Longrightarrow>
    fading T key (wd_cache s') \<and> wd_events s' = wd_events s \<and> Q x"
  shows "fade T key loud Q (act f)"
  unfolding fade_def within_act_iff
proof (intro allI impI)
  fix s x s' assume s: "fading T key (wd_cache s) \<and> f s = (x, s')"
  note a = assms [OF conjunct1 [OF s] conjunct2 [OF s]]
  then have "silent s s'" by (simp add: silent_def)
  with a show "fading T key (wd_cache s') \<and> (loud \<or> silent s s') \<and> Q x" by simp
qed

lemma fade_calls:
  assumes "\<And>s x s'. f s = (x, s') \<Longrightarrow> calls_only s s' \<and> Q x"
  shows "fade T key loud Q (act f)"
  unfolding fade_def within_act_iff
proof (intro allI impI)
  fix s x s' assume s: "fading T key (wd_cache s) \<and> f s = (x, s')"
  with assms have c: "calls_only s s'" "Q x" by blast+
  then have "silent s s'" by (auto simp: calls_only_def silent_def)
  with c s show "fading T key (wd_cache s') \<and> (loud \<or> silent s s') \<and> Q x" by (simp add: calls_only_def)
qed

lemma fade_readClock: "fade T key loud (\<lambda>now. \<exists>t. now = env_clock env t) (act (readClock env))"
  by (rule fade_act) (auto simp: readClock_def)

text \<open>A lookup that starts after every such entry has expired finds no active result.\<close>

lemma fade_cacheGet:
  "fade T key loud (\<lambda>hit. \<forall>result. hit = Some result \<and> key = hashToken token \<and>
     (\<forall>t. T + defaultCacheTTL < env_clock env t) \<longrightarrow> \<not> ir_Active result) (p_cacheGet env token)"
proof -
  let ?c = "\<lambda>c :: token_cache. c\<lparr>tc_entries := AList.delete (hashToken token) (tc_entries c)\<rparr>"
  have "fading T key (?c c)" if "fading T key c" for c
    using that set_delete_subset [of "hashToken token" "tc_entries c"] by (auto simp: fading_def)
  then have del: "fade T key loud (\<lambda>_. True) (act (\<lambda>s. ((), s\<lparr>wd_cache := ?c (wd_cache s)\<rparr>)))"
    by (intro fade_act) auto
  have look: "fade T key loud (\<lambda>entry. \<forall>e. entry = Some e \<and> key = hashToken token \<and> ir_Active (ce_result e) \<longrightarrow>
      ce_expiresAt e \<le> T + defaultCacheTTL) (act (\<lambda>s. (map_of (tc_entries (wd_cache s)) (hashToken token), s)))"
    by (rule fade_act) (auto simp: fading_def dest: map_of_SomeD)
  show ?thesis
    unfolding p_cacheGet_def
  proof (rule fade_bind [OF look])
    fix entry :: "cache_entry option"
    assume e: "\<forall>e. entry = Some e \<and> key = hashToken token \<and> ir_Active (ce_result e) \<longrightarrow>
      ce_expiresAt e \<le> T + defaultCacheTTL"
    have hit: False if "entry = Some a" "ir_Active (ce_result a)" "\<not> ce_expiresAt a < env_clock env t"
        "key = hashToken token" "\<forall>t. T + defaultCacheTTL < env_clock env t" for a t
    proof -
      have "ce_expiresAt a \<le> T + defaultCacheTTL" using e that(1,2,4) by simp
      then show False using that(3) spec [OF that(5), of t] by simp
    qed
    show "fade T key loud (\<lambda>hit. \<forall>result. hit = Some result \<and> key = hashToken token \<and>
        (\<forall>t. T + defaultCacheTTL < env_clock env t) \<longrightarrow> \<not> ir_Active result)
      (case entry of None \<Rightarrow> Done None
       | Some e \<Rightarrow> bind_proc (act (readClock env)) (\<lambda>now. if ce_expiresAt e < now
           then bind_proc (act (\<lambda>s. ((), s\<lparr>wd_cache := ?c (wd_cache s)\<rparr>))) (\<lambda>_. Done None)
           else Done (Some (ce_result e))))"
      by (auto split: option.split intro!: fade_bind [OF fade_readClock] fade_bind [OF del] dest: hit)
  qed
qed

text \<open>The result of an introspection, and its store.\<close>

lemma fade_Introspect:
  "fade T key loud (\<lambda>a. \<forall>result. a = Inr result \<and> revoked (hashToken token) env \<longrightarrow> \<not> ir_Active result)
    (act (Introspect h env token))"
  by (rule fade_calls) (use hydra.introspect_calls revoked_Introspect in blast)

lemma fade_cacheSet:
  assumes "key = hashToken token \<Longrightarrow> ir_Active result \<Longrightarrow> \<forall>t. env_clock env t \<le> T"
  shows "fade T key loud (\<lambda>_. True) (p_cacheSet env token result)"
  unfolding p_cacheSet_def
proof (rule fade_bind)
  show "fade T key loud (\<lambda>ttl. \<forall>n. ttl = Some n \<longrightarrow> n \<le> defaultCacheTTL)
    (act (\<lambda>s. if 0 < ir_ExpiresAt result
        then (let (now, s') = readClock env s in (entry_ttl (wd_cache s) result now, s'))
        else (Some (tc_ttl (wd_cache s)), s)))"
    by (rule fade_act) (auto simp: readClock_def fading_def dest: entry_ttl_le split: if_splits)
next
  fix ttl :: "int option" assume ttl: "\<forall>n. ttl = Some n \<longrightarrow> n \<le> defaultCacheTTL"
  have "fade T key loud (\<lambda>_. True) (act (w_cacheStore env token result n))" if n: "n \<le> defaultCacheTTL" for n
  proof (rule fade_act)
    fix s x s' assume s: "fading T key (wd_cache s)" "w_cacheStore env token result n s = (x, s')"
    obtain t c where c: "cacheStore (env_range env) (env_clock env) (hashToken token) result n (wd_tick s, wd_cache s) = (t, c)"
      by fastforce
    note new = cacheStore_entries [OF c]
    have "ce_expiresAt e \<le> T + defaultCacheTTL" if e: "(key, e) \<in> set (tc_entries c)" "ir_Active (ce_result e)" for e
    proof (cases "(key, e) \<in> set (tc_entries (wd_cache s))")
      case True
      with s(1) e(2) show ?thesis by (simp add: fading_def)
    next
      case False
      with new(1) e(1) have k: "key = hashToken token" "ce_result e = result"
        "ce_expiresAt e = env_clock env (t - 1) + n" by auto
      with assms e(2) have "env_clock env (t - 1) \<le> T" by simp
      with k(3) n show ?thesis by simp
    qed
    with new(2) s(1) have "fading T key c" by (simp add: fading_def)
    with s(2) c show "fading T key (wd_cache s') \<and> wd_events s' = wd_events s \<and> True"
      by (auto simp: w_cacheStore_def)
  qed
  with ttl show "fade T key loud (\<lambda>_. True)
      (case ttl of None \<Rightarrow> Done () | Some n \<Rightarrow> act (w_cacheStore env token result n))"
    by (simp split: option.split)
qed

section \<open>The middlewares\<close>

lemma fade_mux: "fade T key True (\<lambda>_. True) (atomically (mux_ServeHTTP srv) env r w)"
  unfolding atomically_def fade_def within_act_iff
proof (intro allI impI)
  fix s x s'
  assume a: "fading T key (wd_cache s) \<and> (let res = mux_ServeHTTP srv env r w s in (go_map fst res, snd (go_state res))) = (x, s')"
  obtain w' where g: "go_state (mux_ServeHTTP srv env r w s) = (w', s')"
    using a by (cases "go_state (mux_ServeHTTP srv env r w s)") (simp add: Let_def)
  then have "wd_cache s' = wd_cache s" by (cases rule: mux_sends) (simp_all add: sends_def)
  with a show "fading T key (wd_cache s') \<and> (True \<or> silent s s') \<and> True" by simp
qed

lemma fade_Evaluate: "fade T key loud (\<lambda>_. True) (act (Evaluate c env i))"
  by (rule fade_calls) (use opa.evaluate_calls in blast)

lemma fade_policy: "fade T key True (\<lambda>_. True) (p_policy (main_policy c) (atomically (mux_ServeHTTP srv)) env r w)"
proof -
  have "pm_evaluator (main_policy c) = Evaluate c" by simp
  then show ?thesis
    unfolding p_policy_def
    by (auto split: option.split sum.split intro!: fade_mux fade_bind [OF fade_Evaluate])
qed

lemma fade_auth:
  assumes "early_or_revoked T key env" "\<And>env r w. fade T key True (\<lambda>_. True) (next env r w)"
  shows "fade T key True (\<lambda>_. True) (p_auth (main_auth h) next env r w)"
proof -
  have set: "fade T key True (\<lambda>_. True) (p_cacheSet env token result)"
    if "revoked (hashToken token) env \<Longrightarrow> \<not> ir_Active result" for token result
    by (rule fade_cacheSet) (use that assms(1) in \<open>auto simp: early_or_revoked_def\<close>)
  have am: "am_introspector (main_auth h) = Introspect h" by simp
  show ?thesis
    unfolding p_auth_def am
    by (auto split: option.split sum.split
        intro!: assms(2) fade_bind [OF fade_cacheGet] fade_bind [OF fade_Introspect] fade_bind [OF set])
qed

text \<open>A late request with a revoked token: nothing is sent, and the answer is 401.\<close>

definition refused :: "writer go \<Rightarrow> bool" where
  "refused res \<longleftrightarrow> (\<forall>w. res = Ret w \<longrightarrow> (\<exists>c hd. inner_writer w = Base c \<and> c_sent c = Some (StatusUnauthorized, hd)))"

lemma fade_auth_refuses:
  assumes "revoked (hashToken token) env" "\<And>t. T + defaultCacheTTL < env_clock env t"
    and "extractBearerToken r = Inr token" "req_path r \<noteq> ''/health''" "pending [] w"
  shows "fade T (hashToken token) False refused (p_auth (main_auth h) next env r w)"
proof -
  have deny: "refused (Ret (writeUnauthorized w d))" for d
    by (rule denied_response [OF assms(5), of d]) (auto simp: refused_def)
  have set: "fade T (hashToken token) False (\<lambda>_. True) (p_cacheSet env token result)" if "\<not> ir_Active result" for result
    by (rule fade_cacheSet) (use that in simp)
  have am: "am_introspector (main_auth h) = Introspect h" by simp
  show ?thesis
    using assms(1-4)
    unfolding p_auth_def am
    by (auto split: option.split sum.split intro!: deny
        fade_bind [OF fade_cacheGet] fade_bind [OF fade_Introspect] fade_bind [OF set])
qed

lemma fade_log: "fade T key loud (\<lambda>_. True) (p_log env r tool captured st)"
proof -
  have e: "fade T key loud (\<lambda>_. True) (act (w_NewEntry env r tool captured st))"
    by (rule fade_act)
      (auto simp: w_NewEntry_def dest!: w_generateID_frame readClock_frame split: prod.splits)
  have "fade T key loud (\<lambda>_. True) (act (\<lambda>s. ((), s\<lparr>wd_audit_out := wd_audit_out s @ x\<rparr>)))"
    "fade T key loud (\<lambda>_. True) (act (\<lambda>s. ((), s\<lparr>wd_store := f (wd_store s)\<rparr>)))" for x f
    by (rule fade_act; clarsimp)+
  then show ?thesis unfolding p_log_def by (intro fade_bind [OF e] fade_bind [where Q = "\<lambda>_. True"])
qed

lemma fade_audit:
  assumes "\<And>tool r'. audit_prepare r = Some (tool, r') \<Longrightarrow> fade T key loud Q (next env r' (StatusRecorder w [] 0))"
    and "\<And>w'. Q (Ret w') \<Longrightarrow> R (Ret (inner_writer w'))" "\<And>w'. R (Panic w')" "\<And>w'. R (Hang w')"
    and "req_path r \<noteq> ''/health''"
  shows "fade T key loud R (p_audit main_audit next env r w)"
  using assms(5)
  unfolding p_audit_def
  by (auto split: option.split go.split simp: assms(3,4)
      intro!: fade_bind [OF assms(1)] fade_bind [OF fade_log] assms(2))

lemma fade_requestID:
  assumes "\<And>i. fade T key loud Q (next env (WithRequestID i r) (w_set_header (hset RequestIDHeader i) w))"
  shows "fade T key loud Q (p_requestID next env r w)"
proof -
  have "fade T key loud (\<lambda>_. True) (act (w_generateID env))"
    by (rule fade_act) (auto dest!: w_generateID_frame)
  then show ?thesis
    unfolding p_requestID_def Let_def by (auto intro!: fade_bind [where Q = "\<lambda>_. True"] assms)
qed

section \<open>The server\<close>

text \<open>What a thread may do while the token is revoked, and what the late request may do.\<close>

lemma fade_gateway:
  assumes "early_or_revoked T key env"
  shows "fade T key True (\<lambda>_. True) (p_gateway h c srv env r w)"
proof -
  have g: "fade T key True (\<lambda>_. True) (p_guarded h c srv env r w)" for r w
    unfolding p_guarded_def by (rule fade_auth [OF assms]) (rule fade_policy)
  have "fade T key True (\<lambda>_. True) (p_audit main_audit (p_guarded h c srv) env r w)" for r w
  proof (cases "req_path r = ''/health''")
    case True
    then show ?thesis using g by (simp add: p_audit_def)
  next
    case False
    then show ?thesis by (intro fade_audit [where Q = "\<lambda>_. True"] g) simp_all
  qed
  then show ?thesis unfolding p_gateway_def by (rule fade_requestID)
qed

definition answered_401 :: "writer go \<Rightarrow> bool" where
  "answered_401 res \<longleftrightarrow> (\<forall>w. res = Ret w \<longrightarrow> (\<exists>c hd. w = Base c \<and> c_sent c = Some (StatusUnauthorized, hd)))"

lemma fade_late:
  assumes "revoked (hashToken token) env" "\<And>t. T + defaultCacheTTL < env_clock env t"
    and "extractBearerToken r = Inr token" "req_path r \<noteq> ''/health''" "new_conn c0"
  shows "fade T (hashToken token) False answered_401 (p_gateway h c srv env r (Base c0))"
  unfolding p_gateway_def
proof (rule fade_requestID, rule fade_audit [where Q = refused])
  fix i tool r' assume "audit_prepare (WithRequestID i r) = Some (tool, r')"
  then obtain b where "r' = (WithRequestID i r)\<lparr>req_body := b\<rparr>" using audit_prepare_frame by blast
  then have "extractBearerToken r' = Inr token" "req_path r' \<noteq> ''/health''"
    using assms(3,4) extractBearerToken_cong [of r' r] by simp_all
  then show "fade T (hashToken token) False refused (p_guarded h c srv env r'
      (StatusRecorder (w_set_header (hset RequestIDHeader i) (Base c0)) [] 0))"
    unfolding p_guarded_def
    by (rule fade_auth_refuses [OF assms(1,2) _ _ pending_new [OF assms(5) audit_free_requestID]])
qed (use assms(4) in \<open>auto simp: refused_def answered_401_def\<close>)

text \<open>
  A token is revoked at the time \<open>R\<close>, and a request takes at most \<open>d\<close>, as a request sees it (its environment):
  no answer that calls a token with the given key active is given at a time after \<open>R\<close>, and no two readings
  of the clock are more than \<open>d\<close> apart.  Such a request is done by \<open>R + d\<close>, or is never told that the token
  is active.
\<close>

definition revoked_at :: "int \<Rightarrow> int \<Rightarrow> string \<Rightarrow> env \<Rightarrow> bool" where
  "revoked_at R d key env \<longleftrightarrow>
     (\<forall>t q token result. hashToken token = key \<and> out_body q = Body (form_encode ''token'' token) None \<and>
        introspect_answer (env_hydra env t q) = Inr result \<and> ir_Active result \<longrightarrow> env_clock env t \<le> R) \<and>
     (\<forall>t t'. env_clock env t' \<le> env_clock env t + d)"

lemma revoked_atD:
  assumes "revoked_at R d key env"
  shows "hashToken token = key \<Longrightarrow> out_body q = Body (form_encode ''token'' token) None \<Longrightarrow>
      introspect_answer (env_hydra env t q) = Inr result \<Longrightarrow> ir_Active result \<Longrightarrow> env_clock env t \<le> R"
    and "env_clock env t' \<le> env_clock env t + d"
  using assms unfolding revoked_at_def by blast+

lemma revoked_at_early:
  assumes "revoked_at R d key env"
  shows "early_or_revoked (R + d) key env"
proof (cases "revoked key env")
  case True
  then show ?thesis by (simp add: early_or_revoked_def)
next
  case False
  then obtain t where "env_clock env t \<le> R" unfolding revoked_def using revoked_atD(1) [OF assms] by blast
  then have "env_clock env t' \<le> R + d" for t' using revoked_atD(2) [OF assms, of t' t] by linarith
  then show ?thesis by (simp add: early_or_revoked_def)
qed

lemma revoked_at_late:
  assumes "revoked_at R d key env" "\<And>t. R + d + x < env_clock env t" "0 \<le> x"
  shows "revoked key env"
proof -
  have "0 \<le> d" using revoked_atD(2) [OF assms(1), of 0 0] by simp
  then have "\<not> env_clock env t \<le> R" for t using assms(2) [of t] assms(3) by linarith
  then show ?thesis unfolding revoked_def using revoked_atD(1) [OF assms(1)] by blast
qed

text \<open>The steps of a server at which every request that arrives is such a request.\<close>

inductive revoking_step :: "int \<Rightarrow> int \<Rightarrow> string \<Rightarrow> hydra_introspector \<Rightarrow> opa_client \<Rightarrow> server \<Rightarrow> pool \<Rightarrow> pool \<Rightarrow> bool"
  for R d key h c srv where
  arrive: "revoked_at R d key env \<Longrightarrow> wf_path r \<Longrightarrow> req_tokenInfo r = None \<Longrightarrow> new_conn c0 \<Longrightarrow> wf_env env \<Longrightarrow>
    revoking_step R d key h c srv \<pi> (\<pi>\<lparr>pl_threads := pl_threads \<pi> @ [new_thread h c srv env r c0]\<rparr>)"
| advance: "i < length (pl_threads \<pi>) \<Longrightarrow> t = pl_threads \<pi> ! i \<Longrightarrow> th_proc t = Atomic f \<Longrightarrow>
    f (pl_world \<pi>) = (p, s') \<Longrightarrow>
    revoking_step R d key h c srv \<pi> \<lparr>pl_world = s', pl_threads = (pl_threads \<pi>)
      [i := t\<lparr>th_own := own_step (pl_world \<pi>) s' (th_own t), th_proc := p\<rparr>]\<rparr>"

lemma revoking_step_pstep: "revoking_step R d key h c srv \<pi> \<pi>' \<Longrightarrow> pstep h c srv \<pi> \<pi>'"
  by (induction rule: revoking_step.induct) (auto intro: pstep.intros)

lemma revoking_steps_psteps: "(revoking_step R d key h c srv)\<^sup>*\<^sup>* \<pi> \<pi>' \<Longrightarrow> (pstep h c srv)\<^sup>*\<^sup>* \<pi> \<pi>'"
  by (induction rule: rtranclp_induct) (auto dest: revoking_step_pstep)

definition pool_fades :: "int \<Rightarrow> string \<Rightarrow> pool \<Rightarrow> bool" where
  "pool_fades T key \<pi> \<longleftrightarrow> fading T key (wd_cache (pl_world \<pi>)) \<and>
     (\<forall>t \<in> set (pl_threads \<pi>). fade T key True (\<lambda>_. True) (th_proc t))"

lemma pool_fades_start: "pool_fades T key no_threads"
  by (simp add: pool_fades_def no_threads_def init_world_def fading_def NewTokenCache_def)

lemma pool_fades_arrive:
  "pool_fades T key \<pi> \<Longrightarrow> early_or_revoked T key env \<Longrightarrow>
   pool_fades T key (\<pi>\<lparr>pl_threads := pl_threads \<pi> @ [new_thread h c srv env r c0]\<rparr>)"
  by (auto simp: pool_fades_def new_thread_def fade_gateway)

lemma pool_fades_step:
  assumes "revoking_step R d key h c srv \<pi> \<pi>'" "pool_fades (R + d) key \<pi>"
  shows "pool_fades (R + d) key \<pi>'"
  using assms
proof cases
  case (arrive env r c0)
  with assms(2) show ?thesis by (simp add: pool_fades_arrive [OF _ revoked_at_early])
next
  case (advance i t f p s')
  have "fade (R + d) key True (\<lambda>_. True) (th_proc (pl_threads \<pi> ! i))"
    using assms(2) nth_mem [OF advance(2)] by (simp add: pool_fades_def)
  then have "fade (R + d) key True (\<lambda>_. True) (Atomic f)" using advance(3,4) by simp
  then have "fading (R + d) key (wd_cache s')" "fade (R + d) key True (\<lambda>_. True) p"
    using within_step [of _ _ _ f "pl_world \<pi>" p s'] advance(5) assms(2) unfolding fade_def pool_fades_def by blast+
  with assms(2) advance show ?thesis
    by (auto simp: pool_fades_def dest: set_update_subset_insert [THEN subsetD])
qed

text \<open>One thread, among others.\<close>

definition late_thread :: "int \<Rightarrow> string \<Rightarrow> request \<Rightarrow> nat \<Rightarrow> pool \<Rightarrow> bool" where
  "late_thread T key r i \<pi> \<longleftrightarrow> i < length (pl_threads \<pi>) \<and> th_request (pl_threads \<pi> ! i) = r \<and>
     ow_sends (th_own (pl_threads \<pi> ! i)) = [] \<and> fade T key False answered_401 (th_proc (pl_threads \<pi> ! i))"

lemma late_thread_step:
  assumes "revoking_step R d key h c srv \<pi> \<pi>'" "pool_fades (R + d) key \<pi>" "late_thread (R + d) key r i \<pi>"
  shows "late_thread (R + d) key r i \<pi>'"
  using assms(1)
proof cases
  case (arrive env r c0)
  with assms(3) show ?thesis by (simp add: late_thread_def nth_append)
next
  case (advance j t f p s')
  show ?thesis
  proof (cases "j = i")
    case True
    with assms(3) advance have "fade (R + d) key False answered_401 (Atomic f)" by (simp add: late_thread_def)
    then have "silent (pl_world \<pi>) s'" "fade (R + d) key False answered_401 p"
      using within_step [of _ _ _ f "pl_world \<pi>" p s'] advance(5) assms(2) unfolding fade_def pool_fades_def by blast+
    with True assms(3) advance show ?thesis by (simp add: late_thread_def own_step_def silent_def)
  qed (use assms(3) advance in \<open>simp add: late_thread_def\<close>)
qed

lemma late_thread_steps:
  assumes "(revoking_step R d key h c srv)\<^sup>*\<^sup>* \<pi> \<pi>'" "pool_fades (R + d) key \<pi>" "late_thread (R + d) key r i \<pi>"
  shows "pool_fades (R + d) key \<pi>' \<and> late_thread (R + d) key r i \<pi>'"
  using assms by (induction rule: rtranclp_induct) (auto intro: pool_fades_step late_thread_step)

text \<open>Runs of one thread to the end.\<close>

lemma revoking_exec:
  assumes "i < length (pl_threads \<pi>)"
  obtains \<pi>' res where "(revoking_step R d key h c srv)\<^sup>*\<^sup>* \<pi> \<pi>'" "th_proc (pl_threads \<pi>' ! i) = Done res"
proof -
  obtain res s' where e: "exec (th_proc (pl_threads \<pi> ! i)) (pl_world \<pi>) = (res, s')" by fastforce
  have "\<exists>ow. (revoking_step R d key h c srv)\<^sup>*\<^sup>* \<pi> \<lparr>pl_world = s', pl_threads = (pl_threads \<pi>)
      [i := (pl_threads \<pi> ! i)\<lparr>th_own := ow, th_proc := Done res\<rparr>]\<rparr>"
    by (rule exec_steps [where R = "revoking_step R d key h c srv", OF _ assms refl e], rule revoking_step.advance, assumption+)
  then show ?thesis using that assms by fastforce
qed

lemma revoking_run:
  assumes "startup getenv open_file listen = Inr gw" "revoked_at R d key env"
    and "wf_path r" "req_tokenInfo r = None" "new_conn c0" "wf_env env"
    and "gateway_Handler gw env r (Base c0) init_world = Ret (w', s')"
  obtains h c \<pi> where "(revoking_step R d key h c (gw_server gw))\<^sup>*\<^sup>* no_threads \<pi>" "pl_world \<pi> = s'"
proof -
  obtain h c where p: "with_world (exec (p_gateway h c (gw_server gw) env r (Base c0)) init_world) = Ret (w', s')"
    using startup_process [OF assms(1)] assms(7) by metis
  obtain res s1 where e: "exec (p_gateway h c (gw_server gw) env r (Base c0)) init_world = (res, s1)" by fastforce
  with p have s1: "s1 = s'" by (cases res; simp add: with_world_def)
  let ?\<pi> = "no_threads\<lparr>pl_threads := pl_threads no_threads @ [new_thread h c (gw_server gw) env r c0]\<rparr>"
  have a: "revoking_step R d key h c (gw_server gw) no_threads ?\<pi>" by (rule revoking_step.arrive [OF assms(2-6)])
  have "\<exists>ow. (revoking_step R d key h c (gw_server gw))\<^sup>*\<^sup>* ?\<pi> \<lparr>pl_world = s', pl_threads = (pl_threads ?\<pi>)
      [0 := (pl_threads ?\<pi> ! 0)\<lparr>th_own := ow, th_proc := Done res\<rparr>]\<rparr>"
    by (rule exec_steps [where R = "revoking_step R d key h c (gw_server gw)"], rule revoking_step.advance, assumption+)
      (use e s1 in \<open>simp_all add: new_thread_def no_threads_def\<close>)
  then show ?thesis using a that by (meson converse_rtranclp_into_rtranclp pool.select_convs(1))
qed

section \<open>Properties\<close>

text \<open>
  C7: how long a revoked token is still accepted, however requests interleave.  The token is revoked at the
  time \<open>R\<close>: Hydra calls it active at no later time; and no request takes longer than \<open>d\<close>, so that one Hydra has
  answered before \<open>R\<close> stores the answer by \<open>R + d\<close>.  Then a request that carries the token and comes after
  \<open>R + d\<close> and five minutes sends nothing to the MCP server, at no time, and if it is answered, it is answered
  401, whatever the cache holds and whatever other requests do meanwhile.
\<close>

theorem revocation_takes_effect:
  assumes "(revoking_step R d (hashToken token) h c srv)\<^sup>*\<^sup>* no_threads \<pi>"
    and "revoked_at R d (hashToken token) env" "\<And>t. R + d + 5 * minute < env_clock env t"
    and "extractBearerToken r = Inr token" "req_path r \<noteq> ''/health''" "new_conn c0"
    and "(revoking_step R d (hashToken token) h c srv)\<^sup>*\<^sup>*
      (\<pi>\<lparr>pl_threads := pl_threads \<pi> @ [new_thread h c srv env r c0]\<rparr>) \<pi>'"
  shows "length (pl_threads \<pi>) < length (pl_threads \<pi>') \<and>
    (let t = pl_threads \<pi>' ! length (pl_threads \<pi>)
     in th_request t = r \<and> ow_sends (th_own t) = [] \<and>
        (\<forall>w. th_proc t = Done (Ret w) \<longrightarrow> (\<exists>c' hd. w = Base c' \<and> c_sent c' = Some (StatusUnauthorized, hd))))"
proof -
  let ?k = "hashToken token" and ?\<pi> = "\<pi>\<lparr>pl_threads := pl_threads \<pi> @ [new_thread h c srv env r c0]\<rparr>"
  have rev: "revoked ?k env"
    by (rule revoked_at_late [OF assms(2,3)]) (simp add: minute_def second_def)
  have "pool_fades (R + d) ?k \<pi>"
    using assms(1) by (induction rule: rtranclp_induct) (auto intro: pool_fades_step pool_fades_start)
  then have "pool_fades (R + d) ?k ?\<pi>" by (rule pool_fades_arrive) (rule revoked_at_early [OF assms(2)])
  moreover have "late_thread (R + d) ?k r (length (pl_threads \<pi>)) ?\<pi>"
    using fade_late [OF rev _ assms(4-6), of "R + d" h c srv] assms(3)
    by (simp add: late_thread_def new_thread_def nothing_yet_def defaultCacheTTL_def)
  ultimately have "late_thread (R + d) ?k r (length (pl_threads \<pi>)) \<pi>'" using late_thread_steps [OF assms(7)] by blast
  then show ?thesis by (auto simp: late_thread_def answered_401_def Let_def)
qed

text \<open>
  The witness: the demonstration request has been served and its token is in the cache; six minutes later
  the token is revoked, and a request that carries it is served to the end.
\<close>

theorem revocation_takes_effect_witness:
  "\<exists>h c srv \<pi> env \<pi>' t res. pool_reach h c srv \<pi> \<and> upstream_events (pl_world \<pi>) \<noteq> [] \<and>
     (pstep h c srv)\<^sup>*\<^sup>* (\<pi>\<lparr>pl_threads := pl_threads \<pi> @ [new_thread h c srv env demo_post demo_conn]\<rparr>) \<pi>' \<and>
     pl_threads \<pi>' ! length (pl_threads \<pi>) = t \<and> th_proc t = Done res \<and> ow_sends (th_own t) = []"
proof -
  obtain gw w s q where gw: "startup demo_getenv (\<lambda>_. None) (\<lambda>_. None) = Inr gw"
    and run: "gateway_Handler gw (demo_env ''true'') demo_post (Base demo_conn) init_world = Ret (w, s)"
      "upstream_events s = upstream_events init_world @ [Ev_Upstream q]" by (rule demo_served)
  let ?k = "hashToken ''t''" and ?srv = "gw_server gw"
  have early: "revoked_at 0 0 ?k (demo_env ''true'')"
    by (simp add: revoked_at_def demo_env_def demo_env_with_def)
  obtain h c \<pi> where \<pi>: "(revoking_step 0 0 ?k h c ?srv)\<^sup>*\<^sup>* no_threads \<pi>" "pl_world \<pi> = s"
    by (rule revoking_run [OF gw early demo_post_fields(1,4) new_demo_conn wf_demo_env run(1)])
  let ?env = "(demo_env ''true'')\<lparr>env_clock := \<lambda>_. 6 * minute,
    env_hydra := \<lambda>_ _. DoResp StatusOK [] (hydra_document ''false'') False\<rparr>"
  have rev: "revoked_at 0 0 ?k ?env" by (simp add: revoked_at_def hydra_answer [OF reads_as_bool(2)])
  have late: "0 + 0 + 5 * minute < env_clock ?env t" for t by (simp add: minute_def second_def)
  have tok: "extractBearerToken demo_post = Inr ''t''" by (simp add: demo_post_def demo_token)
  let ?\<pi> = "\<pi>\<lparr>pl_threads := pl_threads \<pi> @ [new_thread h c ?srv ?env demo_post demo_conn]\<rparr>"
  obtain \<pi>' res where \<pi>': "(revoking_step 0 0 ?k h c ?srv)\<^sup>*\<^sup>* ?\<pi> \<pi>'"
    "th_proc (pl_threads \<pi>' ! length (pl_threads \<pi>)) = Done res"
    by (rule revoking_exec [of "length (pl_threads \<pi>)" ?\<pi> 0 0 ?k h c ?srv]) simp
  from revocation_takes_effect [OF \<pi>(1) rev late tok demo_post_fields(3) new_demo_conn \<pi>'(1)]
  have "ow_sends (th_own (pl_threads \<pi>' ! length (pl_threads \<pi>))) = []" by (simp add: Let_def)
  with revoking_steps_psteps [OF \<pi>(1)] revoking_steps_psteps [OF \<pi>'(1)] \<pi>(2) \<pi>'(2) run(2) show ?thesis
    by (intro exI [of _ h] exI [of _ c] exI [of _ ?srv] exI [of _ \<pi>] exI [of _ ?env] exI [of _ \<pi>']
        exI [of _ "pl_threads \<pi>' ! length (pl_threads \<pi>)"] exI [of _ res]) simp
qed

end
