(* ===== verification/Streaming.thy ===== *)
theory Streaming
  imports Proxy
begin

text \<open>
  What the proxy relays to the client (\<open>forwardRequest\<close>, \<open>handleSSE\<close> and the error answers of
  \<open>internal/proxy/proxy.go\<close>): which status, headers and bytes reach a client that stays connected,
  when the relay loop ends, which write deadline a response gets, and where requests are sent.
\<close>

section \<open>Lemmas: the relay loop\<close>


text \<open>
  A writer that accepts everything: the response has begun with a status that allows a body and
  the client does not go away.
\<close>

definition accepting :: "writer \<Rightarrow> bool" where
  "accepting w \<longleftrightarrow> c_sent (w_conn w) \<noteq> None \<and> bodyAllowed (w_conn w) \<and> c_writes_left (w_conn w) = None \<and>
     (\<forall>v i st. w = StatusRecorder v i st \<longrightarrow> st \<noteq> 0) \<and> layers w \<le> 1"

lemma accepting_cases:
  assumes "accepting w"
  obtains c where "w = Base c" | c i st where "w = StatusRecorder (Base c) i st" "st \<noteq> 0"
  using assms by (cases w; cases "inner_writer w") (auto simp: accepting_def)

lemma conn_Write_accepting:
  assumes "c_sent c \<noteq> None" "bodyAllowed c" "c_writes_left c = None"
  shows "conn_Write b c = (True, c\<lparr>c_written := c_written c @ b\<rparr>)"
  using assms by (auto simp: conn_Write_def)

lemma accepting_simps:
  "accepting (Base c) \<longleftrightarrow> c_sent c \<noteq> None \<and> bodyAllowed c \<and> c_writes_left c = None"
  "accepting (StatusRecorder (Base c) i st) \<longleftrightarrow>
     c_sent c \<noteq> None \<and> bodyAllowed c \<and> c_writes_left c = None \<and> st \<noteq> 0"
  by (auto simp: accepting_def)

lemma Write_accepting:
  assumes "accepting w"
  shows "Write b w = (True, w_map (\<lambda>c. c\<lparr>c_written := c_written c @ b\<rparr>) w)"
proof (rule accepting_cases [OF assms])
  fix c assume "w = Base c"
  with assms show ?thesis by (simp add: accepting_simps conn_Write_accepting)
next
  fix c i st assume w: "w = StatusRecorder (Base c) i st" "st \<noteq> 0"
  with assms have "conn_Write b c = (True, c\<lparr>c_written := c_written c @ b\<rparr>)"
    by (simp add: accepting_simps conn_Write_accepting)
  with w show ?thesis by simp
qed


lemma accepting_w_map:
  "accepting w \<Longrightarrow> accepting (w_map (\<lambda>c. c\<lparr>c_written := f c\<rparr>) w)"
  by (cases w) (auto simp: accepting_def bodyAllowed_def)







text \<open>A response that has not begun.\<close>

definition fresh :: "writer \<Rightarrow> bool" where
  "fresh w \<longleftrightarrow> c_sent (w_conn w) = None \<and> c_writes_left (w_conn w) = None \<and> layers w \<le> 1"

definition body_status :: "nat \<Rightarrow> bool" where
  "body_status code \<longleftrightarrow> 200 \<le> code \<and> code \<le> 999 \<and> code \<noteq> 204 \<and> code \<noteq> 304"

lemma WriteHeader_accepting:
  assumes "fresh w" "body_status code"
  shows "accepting (WriteHeader code w)" "\<not> WriteHeader_panics code w"
    "c_written (w_conn (WriteHeader code w)) = c_written (w_conn w)"
    "\<exists>h. c_sent (w_conn (WriteHeader code w)) = Some (code, h) \<and>
       (\<forall>k. k \<noteq> AuditClientIDHeader \<longrightarrow> hvalues h k = hvalues (w_header w) k)"
    "c_flusher (w_conn (WriteHeader code w)) = c_flusher (w_conn w)"
proof -
  consider c where "w = Base c" | c i st where "w = StatusRecorder (Base c) i st"
    using assms(1) by (cases w; cases "inner_writer w") (auto simp: fresh_def)
  then have "accepting (WriteHeader code w) \<and> \<not> WriteHeader_panics code w \<and>
    c_flusher (w_conn (WriteHeader code w)) = c_flusher (w_conn w) \<and>
    c_written (w_conn (WriteHeader code w)) = c_written (w_conn w) \<and>
    (\<exists>h. c_sent (w_conn (WriteHeader code w)) = Some (code, h) \<and>
       (\<forall>k. k \<noteq> AuditClientIDHeader \<longrightarrow> hvalues h k = hvalues (w_header w) k))"
    by cases (use assms in \<open>auto simp: accepting_simps fresh_def body_status_def bodyAllowed_def
      conn_WriteHeader_def WriteHeader_panics_def w_set_header_def w_header_def hvalues_hdel Let_def\<close>)
  then show "accepting (WriteHeader code w)" "\<not> WriteHeader_panics code w"
    "c_written (w_conn (WriteHeader code w)) = c_written (w_conn w)"
    "\<exists>h. c_sent (w_conn (WriteHeader code w)) = Some (code, h) \<and>
       (\<forall>k. k \<noteq> AuditClientIDHeader \<longrightarrow> hvalues h k = hvalues (w_header w) k)"
    "c_flusher (w_conn (WriteHeader code w)) = c_flusher (w_conn w)"
    by auto
qed

lemma ioCopy_accepting:
  "accepting w \<Longrightarrow> accepting (ioCopy data w) \<and> c_sent (w_conn (ioCopy data w)) = c_sent (w_conn w) \<and>
   c_written (w_conn (ioCopy data w)) = c_written (w_conn w) @ data"
proof (induction data w rule: ioCopy.induct)
  case (1 data w)
  let ?w = "w_map (\<lambda>c. c\<lparr>c_written := c_written c @ take 32768 data\<rparr>) w"
  have a: "accepting ?w" using "1.prems" by (rule accepting_w_map)
  show ?case
  proof (cases "data = []")
    case True
    with "1.prems" show ?thesis by (simp add: ioCopy.simps)
  next
    case False
    note W = Write_accepting [OF "1.prems", of "take 32768 data"]
    from "1.IH" [OF False W [symmetric] _ TrueI a] False show ?thesis
      by (subst (1 2 3) ioCopy.simps) (simp add: W)
  qed
qed

section \<open>What reaches the client\<close>

text \<open>
  C13: the response of the MCP server reaches a client that stays connected unchanged: its status, its
  body byte for byte and its headers, value by value, except the excluded ones.
\<close>

theorem upstream_response_relayed:
  assumes "proxy_request srv r (if body = [] then NilBody else restored body) = Some q"
    and "env_upstream env (wd_tick s) q = DoResp status hdr data bad"
    and "body_status status" "fresh w" "wf_header hdr"
  shows "\<exists>w' h. forwardRequest srv body env r w s = Ret (w', emit (Ev_Upstream q) s) \<and>
    c_sent (w_conn w') = Some (status, h) \<and> c_written (w_conn w') = c_written (w_conn w) @ data \<and>
    (\<forall>k. k \<noteq> AuditClientIDHeader \<longrightarrow> hvalues h k =
       hvalues (w_header w) k @ (if k \<in> set excludedHeaders then [] else hvalues hdr k))"
proof -
  let ?w = "w_set_header (\<lambda>h. copyHeaders h hdr) w"
  have f: "fresh ?w" using assms(4) by (simp add: fresh_def w_set_header_def)
  note W = WriteHeader_accepting [OF f assms(3)]
  obtain h where h: "c_sent (w_conn (WriteHeader status ?w)) = Some (status, h)"
    "\<forall>k. k \<noteq> AuditClientIDHeader \<longrightarrow> hvalues h k = hvalues (w_header ?w) k" using W(4) by blast
  have run: "forwardRequest srv body env r w s =
      Ret (ioCopy data (WriteHeader status ?w), emit (Ev_Upstream q) s)"
    using assms(1,2) W(2) by (simp add: forwardRequest_def)
  have "c_written (w_conn (WriteHeader status ?w)) = c_written (w_conn w)"
    using W(3) by (simp add: w_set_header_def)
  with run ioCopy_accepting [OF W(1), of data] h show ?thesis
    by (simp add: hvalues_copyHeaders [OF assms(5)])
qed

text \<open>Concrete inputs for the properties.\<close>

definition plain_conn :: conn where
  "plain_conn = \<lparr>c_header = [], c_sent = None, c_written = [], c_writes_left = None,
     c_deadline = None, c_flusher = True, c_flushed = []\<rparr>"

definition plain_server :: server where
  "plain_server = \<lparr>upstreamURL = empty_url\<lparr>u_scheme := ''http'', u_host := ''mcp:3000'', u_path := ''/mcp''\<rparr>,
     sv_httpServer = http_server_for '':8080'', sv_httpClient = \<lparr>hc_Timeout = 30 * second\<rparr>,
     sv_sseHTTPClient = \<lparr>hc_Timeout = 0\<rparr>, sv_middlewares = []\<rparr>"

lemma fresh_plain [simp]: "fresh (Base plain_conn)"
  by (simp add: fresh_def plain_conn_def)

lemma body_status_200 [simp]: "body_status 200"
  by (simp add: body_status_def)

lemma plain_proxy_request:
  "req_method r = ''POST'' \<Longrightarrow> \<exists>q. proxy_request srv r b = Some q"
  by (simp add: proxy_request_def newRequest_def validMethod_POST)

theorem upstream_response_relayed_witness:
  "\<forall>s. \<exists>w' s'. forwardRequest plain_server []
     (demo_unreachable\<lparr>env_upstream := (\<lambda>_ _. DoResp 200 [(''X-A'', [''b''])] ''hello'' False)\<rparr>)
     demo_json_post (Base plain_conn) s = Ret (w', s') \<and> c_written (w_conn w') = ''hello''"
proof
  fix s :: world
  let ?env = "demo_unreachable\<lparr>env_upstream := (\<lambda>_ _. DoResp 200 [(''X-A'', [''b''])] ''hello'' False)\<rparr>"
  obtain q where q: "proxy_request plain_server demo_json_post (if [] = ([] :: string) then NilBody else restored []) = Some q"
    using plain_proxy_request [of demo_json_post] by (auto simp: demo_json_post_def)
  have up: "env_upstream ?env (wd_tick s) q = DoResp 200 [(''X-A'', [''b''])] ''hello'' False" by simp
  have "wf_header [(''X-A'', [''b''])]"
    by (simp add: wf_header_def wf_map_def canonicalKeyI canonical_defs)
  from upstream_response_relayed [OF q up body_status_200 fresh_plain this]
  show "\<exists>w' s'. forwardRequest plain_server [] ?env demo_json_post (Base plain_conn) s = Ret (w', s') \<and>
      c_written (w_conn w') = ''hello''"
    by (auto simp: plain_conn_def)
qed

section \<open>Streams\<close>



definition demo_get :: request where
  "demo_get = \<lparr>req_method = ''GET'', req_path = ''/'', req_escaped = ''/'', req_query = [],
     req_header = [(''Accept'', [''text/event-stream''])], req_body = Body [] None,
     req_remote = [], req_tokenInfo = None, req_requestID = None\<rparr>"

lemma demo_get_proxy_request: "\<exists>q. proxy_request srv demo_get b = Some q"
  by (simp add: proxy_request_def newRequest_def demo_get_def validMethod_def canonical_defs Let_def)



section \<open>A client that goes away\<close>

text \<open>A response that has begun, to a client that may go away.\<close>

definition begun :: "writer \<Rightarrow> bool" where
  "begun w \<longleftrightarrow> c_sent (w_conn w) \<noteq> None \<and> bodyAllowed (w_conn w) \<and>
     (\<forall>v i st. w = StatusRecorder v i st \<longrightarrow> st \<noteq> 0) \<and> layers w \<le> 1"

lemma begun_cases:
  assumes "begun w"
  obtains c where "w = Base c" "c_sent c \<noteq> None" "bodyAllowed c"
  | c i st where "w = StatusRecorder (Base c) i st" "st \<noteq> 0" "c_sent c \<noteq> None" "bodyAllowed c"
  using assms by (cases w; cases "inner_writer w") (auto simp: begun_def)

lemma begun_simps:
  "begun (Base c) \<longleftrightarrow> c_sent c \<noteq> None \<and> bodyAllowed c"
  "begun (StatusRecorder (Base c) i st) \<longleftrightarrow> c_sent c \<noteq> None \<and> bodyAllowed c \<and> st \<noteq> 0"
  by (auto simp: begun_def)

lemma Write_begun:
  assumes "begun w" "b \<noteq> []"
  shows "c_writes_left (w_conn w) = Some 0 \<Longrightarrow> \<exists>w'. Write b w = (False, w')"
    and "c_writes_left (w_conn w) = Some (Suc k) \<Longrightarrow>
      \<exists>w'. Write b w = (True, w') \<and> begun w' \<and> c_writes_left (w_conn w') = Some k"
  by (rule begun_cases [OF assms(1)];
      use assms(2) in \<open>auto simp: conn_Write_def begun_simps bodyAllowed_def\<close>)+

lemma Flush_begun:
  assumes "begun w"
  shows "begun (Flush w)" "c_writes_left (w_conn (Flush w)) = c_writes_left (w_conn w)"
  by (rule begun_cases [OF assms];
      use assms in \<open>auto simp: conn_Flush_def Let_def begun_simps bodyAllowed_def\<close>)+

lemma WriteHeader_begun:
  assumes "c_sent (w_conn w) = None" "layers w \<le> 1" "body_status code"
  shows "begun (WriteHeader code w)" "\<not> WriteHeader_panics code w"
    "c_writes_left (w_conn (WriteHeader code w)) = c_writes_left (w_conn w)"
proof -
  consider c where "w = Base c" | c i st where "w = StatusRecorder (Base c) i st"
    using assms(2) by (cases w; cases "inner_writer w") auto
  then have "begun (WriteHeader code w) \<and> \<not> WriteHeader_panics code w \<and>
      c_writes_left (w_conn (WriteHeader code w)) = c_writes_left (w_conn w)"
    by cases (use assms in \<open>auto simp: begun_simps body_status_def bodyAllowed_def conn_WriteHeader_def
      WriteHeader_panics_def w_set_header_def Let_def\<close>)
  then show "begun (WriteHeader code w)" "\<not> WriteHeader_panics code w"
    "c_writes_left (w_conn (WriteHeader code w)) = c_writes_left (w_conn w)" by auto
qed






lemma begun_w_map: "begun w \<Longrightarrow> begun (w_map (\<lambda>c. c\<lparr>c_written := f c\<rparr>) w)"
  by (cases w) (auto simp: begun_def bodyAllowed_def)

text \<open>
  The whole loop, for any client: it returns exactly if the stream ends or breaks, or has more pieces of data
  than the client takes.
\<close>

definition pieces :: "(nat \<Rightarrow> string \<times> stream_error option) \<Rightarrow> nat \<Rightarrow> nat \<Rightarrow> nat" where
  "pieces rd i n = length (filter (\<lambda>x. fst (rd x) \<noteq> []) [i..<n])"

lemma pieces_Suc: "i < n \<Longrightarrow> pieces rd i n = (if fst (rd i) = [] then 0 else 1) + pieces rd (Suc i) n"
  by (simp add: pieces_def upt_conv_Cons)

definition too_many :: "(nat \<Rightarrow> string \<times> stream_error option) \<Rightarrow> nat \<Rightarrow> nat option \<Rightarrow> bool" where
  "too_many rd i left \<longleftrightarrow> (\<exists>k n. left = Some k \<and> k < pieces rd i n)"

lemma sse_round_begun:
  assumes "begun w"
  obtains (gone) w' where "c_writes_left (w_conn w) = Some 0" "fst (rd i) \<noteq> []" "sse_round (rd i) w = (False, w')"
  | (on) w' where "sse_round (rd i) w = (snd (rd i) = None, w')" "begun w'"
      "c_writes_left (w_conn w') = (if fst (rd i) = [] then c_writes_left (w_conn w)
        else map_option (\<lambda>k. k - 1) (c_writes_left (w_conn w)))"
      "fst (rd i) = [] \<or> c_writes_left (w_conn w) \<noteq> Some 0"
proof (cases "fst (rd i) = []")
  case True
  with assms show ?thesis by (intro on [of w]) (simp_all add: sse_round_def split_def)
next
  case ne: False
  show ?thesis
  proof (cases "c_writes_left (w_conn w) = Some 0")
    case True
    with Write_begun(1) [OF assms ne] ne show ?thesis
      by (intro gone [of "snd (Write (fst (rd i)) w)"]) (auto simp: sse_round_def split_def)
  next
    case False
    have "\<exists>w'. Write (fst (rd i)) w = (True, w') \<and> begun w' \<and>
        c_writes_left (w_conn w') = map_option (\<lambda>k. k - 1) (c_writes_left (w_conn w))"
    proof (cases "c_writes_left (w_conn w)")
      case None
      with assms have acc: "accepting w" by (auto simp: accepting_def begun_def)
      from Write_accepting [OF acc, of "fst (rd i)"] begun_w_map [OF assms] None show ?thesis by simp
    next
      case (Some k)
      with False obtain k' where "k = Suc k'" by (cases k) auto
      with Write_begun(2) [OF assms ne, of k'] Some show ?thesis by auto
    qed
    then obtain w' where "Write (fst (rd i)) w = (True, w')" "begun w'"
      "c_writes_left (w_conn w') = map_option (\<lambda>k. k - 1) (c_writes_left (w_conn w))" by blast
    with ne False Flush_begun [of w'] show ?thesis
      by (intro on [of "Flush w'"]) (simp_all add: sse_round_def split_def)
  qed
qed

lemma too_many_next:
  assumes "left \<noteq> Some 0 \<or> fst (rd i) = []"
  shows "too_many rd i left \<longleftrightarrow>
    too_many rd (Suc i) (if fst (rd i) = [] then left else map_option (\<lambda>k. k - 1) left)"
proof -
  have pos: "j < n" if "(k :: nat) < pieces rd j n" for k j n
    using that by (cases "j < n") (simp_all add: pieces_def)
  show ?thesis
  proof
    assume "too_many rd i left"
    then obtain k n where k: "left = Some k" "k < pieces rd i n" by (auto simp: too_many_def)
    then have "pieces rd i n = (if fst (rd i) = [] then 0 else 1) + pieces rd (Suc i) n"
      using pos pieces_Suc by blast
    with k assms show "too_many rd (Suc i) (if fst (rd i) = [] then left else map_option (\<lambda>k. k - 1) left)"
      by (auto simp: too_many_def intro!: exI [of _ n])
  next
    assume "too_many rd (Suc i) (if fst (rd i) = [] then left else map_option (\<lambda>k. k - 1) left)"
    then obtain k n where k: "(if fst (rd i) = [] then left else map_option (\<lambda>k. k - 1) left) = Some k"
      "k < pieces rd (Suc i) n" by (auto simp: too_many_def)
    then have "i < n" using pos [of k "Suc i" n] by simp
    from pieces_Suc [OF this, of rd] k have "\<exists>z. left = Some z \<and> z < pieces rd i n"
      by (cases left) (auto split: if_splits)
    then show "too_many rd i left" by (auto simp: too_many_def)
  qed
qed

lemma sse_loop_Some_reason:
  "sse_loop rd i w = Some y \<Longrightarrow> begun w \<Longrightarrow>
   (\<exists>n \<ge> i. snd (rd n) \<noteq> None) \<or> too_many rd i (c_writes_left (w_conn w))"
proof (induction rule: sse_loop.raw_induct [rotated, consumes 1])
  case (1 loop rd i w y)
  show ?case
  proof (rule sse_round_begun [OF 1(3), of rd i])
    assume "c_writes_left (w_conn w) = Some 0" "fst (rd i) \<noteq> []"
    then show ?thesis by (auto simp: too_many_def pieces_def intro!: exI [of _ "Suc i"])
  next
    fix w' assume w': "sse_round (rd i) w = (snd (rd i) = None, w')" "begun w'"
      "c_writes_left (w_conn w') = (if fst (rd i) = [] then c_writes_left (w_conn w)
        else map_option (\<lambda>k. k - 1) (c_writes_left (w_conn w)))"
      "fst (rd i) = [] \<or> c_writes_left (w_conn w) \<noteq> Some 0"
    show ?thesis
    proof (cases "snd (rd i) = None")
      case True
      with 1(2) w'(1) have "loop rd (Suc i) w' = Some y" by simp
      from 1(1) [OF this w'(2)] show ?thesis
      proof
        assume "\<exists>n \<ge> Suc i. snd (rd n) \<noteq> None"
        then show ?thesis by (meson Suc_leD)
      next
        assume a: "too_many rd (Suc i) (c_writes_left (w_conn w'))"
        have "c_writes_left (w_conn w) \<noteq> Some 0 \<or> fst (rd i) = []" using w'(4) by blast
        from too_many_next [of "c_writes_left (w_conn w)" rd i, OF this] a [unfolded w'(3)] have "too_many rd i (c_writes_left (w_conn w))" by (rule iffD2)
        then show ?thesis ..
      qed
    qed auto
  qed
qed

lemma sse_loop_stops:
  "begun w \<Longrightarrow> (i \<le> n \<and> snd (rd n) \<noteq> None) \<or> (c_writes_left (w_conn w) = Some k \<and> k < pieces rd i n) \<Longrightarrow>
   \<exists>y. sse_loop rd i w = Some y"
proof (induction "Suc n - i" arbitrary: i w k)
  case 0
  then show ?case by (auto simp: pieces_def)
next
  case (Suc d)
  show ?case
  proof (rule sse_round_begun [OF Suc.prems(1), of rd i])
    fix w' assume "sse_round (rd i) w = (False, w')"
    then show ?thesis by (subst sse_loop.simps) simp
  next
    fix w' assume w': "sse_round (rd i) w = (snd (rd i) = None, w')" "begun w'"
      "c_writes_left (w_conn w') = (if fst (rd i) = [] then c_writes_left (w_conn w)
        else map_option (\<lambda>k. k - 1) (c_writes_left (w_conn w)))"
      "fst (rd i) = [] \<or> c_writes_left (w_conn w) \<noteq> Some 0"
    show ?thesis
    proof (cases "snd (rd i) = None")
      case False
      with w'(1) show ?thesis by (subst sse_loop.simps) simp
    next
      case True
      have "(Suc i \<le> n \<and> snd (rd n) \<noteq> None) \<or>
        (c_writes_left (w_conn w') = Some (if fst (rd i) = [] then k else k - 1) \<and>
          (if fst (rd i) = [] then k else k - 1) < pieces rd (Suc i) n)"
        using Suc.prems(2)
      proof
        assume e: "i \<le> n \<and> snd (rd n) \<noteq> None"
        with True have "i \<noteq> n" by auto
        with e show ?thesis by simp
      next
        assume k: "c_writes_left (w_conn w) = Some k \<and> k < pieces rd i n"
        then have "i < n" by (cases "i < n") (simp_all add: pieces_def)
        from pieces_Suc [OF this, of rd] k w'(3,4) show ?thesis by auto
      qed
      moreover have "d = Suc n - Suc i" using Suc.hyps(2) by simp
      ultimately have "\<exists>y. sse_loop rd (Suc i) w' = Some y" using Suc.hyps(1) [OF _ w'(2)] by blast
      with True w'(1) show ?thesis by (subst sse_loop.simps) simp
    qed
  qed
qed

text \<open>
  C34: the handler of a stream returns exactly if the stream ends or breaks, or it has more pieces of data
  than the client accepts writes before it is gone; otherwise it never does.
\<close>

theorem sse_returns_iff_stream_ends:
  assumes "isFlusher w" "proxy_request srv r (req_body r) = Some q"
    and "env_sse env (wd_tick s) q = StreamResp status hdr reads" "body_status status"
    and "c_sent (w_conn w) = None" "layers w \<le> 1"
  defines "over \<equiv> \<exists>n. snd (reads n) \<noteq> None \<or>
    (\<exists>k. c_writes_left (w_conn w) = Some k \<and> k < length (filter (\<lambda>i. fst (reads i) \<noteq> []) [0..<n]))"
  shows "((\<exists>w' s'. handleSSE srv env r w s = Ret (w', s')) \<longleftrightarrow> over) \<and>
    ((\<exists>w' s'. handleSSE srv env r w s = Hang (w', s')) \<longleftrightarrow> \<not> over)"
proof -
  let ?w = "w_set_header (sse_header hdr) w" and ?start = "WriteHeader status (w_set_header (sse_header hdr) w)"
  have "c_sent (w_conn ?w) = None" "layers ?w \<le> 1" using assms(5,6) by (simp_all add: w_set_header_def)
  note W = WriteHeader_begun [OF this assms(4)]
  have left: "c_writes_left (w_conn ?start) = c_writes_left (w_conn w)"
    using W(3) by (simp add: w_set_header_def)
  have run: "handleSSE srv env r w s = (case sse_loop reads 0 ?start of
      Some w3 \<Rightarrow> Ret (w3, emit (Ev_SSE q) s) | None \<Rightarrow> Hang (?start, emit (Ev_SSE q) s))"
    using assms(1-3) W(2) by (simp add: handleSSE_def Let_def)
  have "(\<exists>w'. sse_loop reads 0 ?start = Some w') \<longleftrightarrow> over"
  proof
    assume "\<exists>w'. sse_loop reads 0 ?start = Some w'"
    then show over
      using sse_loop_Some_reason [OF _ W(1)] left by (fastforce simp: over_def too_many_def pieces_def)
  next
    assume over
    then show "\<exists>w'. sse_loop reads 0 ?start = Some w'"
      using sse_loop_stops [OF W(1), of 0 _ reads] left unfolding over_def pieces_def [symmetric] by (metis le0)
  qed
  then show ?thesis unfolding run by (cases "sse_loop reads 0 ?start") auto
qed

theorem sse_returns_iff_stream_ends_witness:
  "\<forall>s. \<exists>w' s'. handleSSE plain_server (demo_unreachable\<lparr>env_sse := (\<lambda>_ _. StreamResp 200 [] (\<lambda>_. (''x'', None)))\<rparr>)
     demo_get (Base plain_conn) s = Hang (w', s')"
proof
  fix s :: world
  let ?env = "demo_unreachable\<lparr>env_sse := (\<lambda>_ _. StreamResp 200 [] (\<lambda>_. (''x'', None)))\<rparr>"
  obtain q where q: "proxy_request plain_server demo_get (req_body demo_get) = Some q"
    using demo_get_proxy_request by blast
  have e: "env_sse ?env (wd_tick s) q = StreamResp 200 [] (\<lambda>_. (''x'', None))" by simp
  have fl: "isFlusher (Base plain_conn)" by (simp add: plain_conn_def)
  from sse_returns_iff_stream_ends [OF fl q e body_status_200] fresh_plain
  show "\<exists>w' s'. handleSSE plain_server ?env demo_get (Base plain_conn) s = Hang (w', s')"
    by (simp add: plain_conn_def)
qed

section \<open>Rejected requests\<close>

text \<open>
  \<open>rejected srv env r w s code msg\<close>: the proxy answers \<open>200 OK\<close> with the JSON-RPC error and sends
  nothing upstream.
\<close>

definition rejected :: "server \<Rightarrow> env \<Rightarrow> request \<Rightarrow> writer \<Rightarrow> world \<Rightarrow> int \<Rightarrow> string \<Rightarrow> bool" where
  "rejected srv env r w s code msg \<longleftrightarrow>
    (\<exists>w' s' h text. handleProxy srv env r w s = Ret (w', s') \<and> wd_events s' = wd_events s \<and>
       c_sent (w_conn w') = Some (StatusOK, h) \<and> hvalues h ''Content-Type'' = [''application/json''] \<and>
       Marshal (NewErrorResponse [] code msg) = Some text \<and> c_written (w_conn w') = c_written (w_conn w) @ text)"

lemma fresh_setWriteDeadline:
  "fresh w \<Longrightarrow> fresh (snd (setWriteDeadline t w)) \<and>
   c_written (w_conn (snd (setWriteDeadline t w))) = c_written (w_conn w)"
  by (cases w) (auto simp: fresh_def)

lemma writeJSONRPCError_fresh:
  assumes "fresh w"
  shows "\<exists>h text. c_sent (w_conn (writeJSONRPCError w code msg)) = Some (StatusOK, h) \<and>
    hvalues h ''Content-Type'' = [''application/json''] \<and>
    Marshal (NewErrorResponse [] code msg) = Some text \<and>
    c_written (w_conn (writeJSONRPCError w code msg)) = c_written (w_conn w) @ text"
proof -
  obtain doc where m: "Marshal (NewErrorResponse [] code msg) = Some doc"
    using Marshal_error_response by blast
  let ?w = "w_set_header (hset ''Content-Type'' ''application/json'') w"
  have f: "fresh ?w" using assms by (simp add: fresh_def w_set_header_def)
  have st: "body_status StatusOK" by (simp add: http_status)
  note W = WriteHeader_accepting [OF f st]
  have ne: "''Content-Type'' \<noteq> AuditClientIDHeader" by (simp add: AuditClientIDHeader_def)
  have "c_written (w_conn (WriteHeader StatusOK ?w)) = c_written (w_conn w)"
    using W(3) by (simp add: w_set_header_def)
  with W(4) m ne show ?thesis
    by (auto simp: writeJSONRPCError_def write_all_def Write_accepting [OF W(1)] hvalues_hset)
qed

lemma rejectedI:
  assumes "fresh w" "\<not> isSSERequest r"
    and "\<And>w1 s1. setDeadline env w s = (w1, s1) \<Longrightarrow>
      handleProxy srv env r w s = Ret (writeJSONRPCError w1 code msg, s1)"
  shows "rejected srv env r w s code msg"
proof -
  obtain w1 s1 where d: "setDeadline env w s = (w1, s1)" by fastforce
  then have "fresh w1" "c_written (w_conn w1) = c_written (w_conn w)"
    using fresh_setWriteDeadline [OF assms(1)] by (auto simp: setDeadline_def split: prod.splits)
  with writeJSONRPCError_fresh [of w1 code msg] assms(3) [OF d] setDeadline_sends [OF d]
  show ?thesis by (auto simp: rejected_def sends_def)
qed

text \<open>
  C15: a POST that asks for no event stream is answered by the proxy itself, and the MCP server hears nothing
  of it, if its content type is not JSON, or else its body is too long, cannot be read, or is not empty and
  no well-formed JSON-RPC request.  The four checks come in this order, each with its JSON-RPC error code.
  (An event-stream request skips them, and an empty JSON body passes.)
\<close>

theorem malformed_post_rejected:
  assumes "req_method r = ''POST''" "\<not> isSSERequest r" "fresh w" "req_body r = Body d e"
  shows "(\<not> is_json r \<longrightarrow>
      rejected srv env r w s CodeInvalidRequest ''Content-Type must be application/json'') \<and>
    (is_json r \<and> maxRequestSize < length d \<longrightarrow>
      rejected srv env r w s CodeInvalidRequest ''request body exceeds 1MB limit'') \<and>
    (is_json r \<and> length d \<le> maxRequestSize \<and> e = Some ReadFailed \<longrightarrow>
      rejected srv env r w s CodeParseError ''failed to read request body'') \<and>
    (is_json r \<and> length d \<le> maxRequestSize \<and> e = None \<and> d \<noteq> [] \<and> Parse d = Inl err \<longrightarrow>
      rejected srv env r w s CodeParseError (parse_error_text (env_json_text env) d err))"
  using assms
  by (intro conjI impI; intro rejectedI) (auto simp: handleProxy_def body_error_def)

theorem malformed_post_rejected_witness:
  "\<forall>s. rejected plain_server demo_unreachable (demo_json_post\<lparr>req_header := []\<rparr>) (Base plain_conn) s
     CodeInvalidRequest ''Content-Type must be application/json''"
proof
  fix s :: world
  let ?r = "demo_json_post\<lparr>req_header := []\<rparr>"
  have r: "req_method ?r = ''POST''" "\<not> isSSERequest ?r" "req_body ?r = Body [] None" "\<not> is_json ?r"
    by (simp_all add: demo_json_post_def isSSERequest_def is_json_def hget_def)
  from malformed_post_rejected [OF r(1,2) fresh_plain r(3)] r(4)
  show "rejected plain_server demo_unreachable ?r (Base plain_conn) s CodeInvalidRequest
     ''Content-Type must be application/json''" by blast
qed

section \<open>Write deadlines\<close>

named_theorems shape \<open>operations on a response that leave its wrappers and its write deadline alone\<close>

definition w_shape :: "writer \<Rightarrow> nat \<times> int option" where
  "w_shape w = (layers w, c_deadline (w_conn w))"

lemma shape_set_header [shape]: "w_shape (w_set_header f w) = w_shape w"
  by (simp add: w_shape_def w_set_header_def)

lemma shape_WriteHeader [shape]: "w_shape (WriteHeader code w) = w_shape w"
  by (simp add: w_shape_def)

lemma shape_Write: "Write b w = (ok, w') \<Longrightarrow> w_shape w' = w_shape w"
proof -
  have "Write b w = (ok, w') \<Longrightarrow> layers w' = layers w"
  proof (induction b w arbitrary: ok w' rule: Write.induct)
    case (1 b c)
    then show ?case by (auto split: prod.splits)
  next
    case (2 b w i s)
    then show ?case by (cases "s = 0") (auto simp: Let_def split: prod.splits)
  qed
  then show "Write b w = (ok, w') \<Longrightarrow> w_shape w' = w_shape w"
    by (simp add: w_shape_def Write_deadline)
qed

lemma shape_Flush [shape]: "w_shape (Flush w) = w_shape w"
proof -
  have "layers (Flush w) = layers w" by (induction w) auto
  then show ?thesis by (simp add: w_shape_def)
qed

lemma shape_write_all [shape]: "w_shape (write_all b w) = w_shape w"
  by (simp add: write_all_def shape_Write [OF surjective_pairing])

lemma shape_http_Error [shape]: "w_shape (http_Error msg code w) = w_shape w"
  by (simp add: http_Error_def shape)

lemma shape_http_Redirect [shape]: "w_shape (http_Redirect loc r w) = w_shape w"
  by (simp add: http_Redirect_def Let_def shape)

lemma shape_writeJSONRPCError [shape]: "w_shape (writeJSONRPCError w code msg) = w_shape w"
  by (simp add: writeJSONRPCError_def shape split: option.split)

lemma shape_writeUnauthorized [shape]: "w_shape (writeUnauthorized w d) = w_shape w"
  by (simp add: writeUnauthorized_def shape)

lemma shape_writeForbidden [shape]: "w_shape (writeForbidden w d) = w_shape w"
  by (simp add: writeForbidden_def shape)

lemma shape_with_audit_id [shape]: "w_shape (with_audit_id res w) = w_shape w"
  by (simp add: with_audit_id_def shape)

lemma shape_ioCopy [shape]: "w_shape (ioCopy data w) = w_shape w"
proof (induction data w rule: ioCopy.induct)
  case (1 data w)
  obtain ok w' where W: "Write (take 32768 data) w = (ok, w')" by fastforce
  with 1 shape_Write [OF W] show ?case by (subst ioCopy.simps) simp
qed

lemma shape_sse_round: "sse_round rd w = (goes, w') \<Longrightarrow> w_shape w' = w_shape w"
  by (auto simp: sse_round_def shape split: prod.splits if_splits dest: shape_Write)

lemma shape_sse_loop: "sse_loop rd i w = Some w' \<Longrightarrow> w_shape w' = w_shape w"
proof (induction rule: sse_loop.raw_induct [rotated, consumes 1])
  case (1 loop rd i w y)
  then show ?case by (auto split: prod.splits if_splits dest: shape_sse_round)
qed

lemma shape_forwardRequest:
  "go_state (forwardRequest srv body env r w s) = (w', s') \<Longrightarrow> w_shape w' = w_shape w"
  by (auto simp: forwardRequest_def Let_def shape split: option.splits http_result.splits if_splits)

lemma shape_handleSSE: "go_state (handleSSE srv env r w s) = (w', s') \<Longrightarrow> w_shape w' = w_shape w"
  by (auto simp: handleSSE_def Let_def shape
      split: option.splits stream_result.splits if_splits dest: shape_sse_loop)

text \<open>
  The write deadline of 30 seconds is set only on a response writer that is the connection itself: a
  \<open>statusRecorder\<close> has no \<open>SetWriteDeadline\<close> and no \<open>Unwrap\<close>.
\<close>

lemma shape_handleProxy:
  assumes "go_state (handleProxy srv env r w s) = (w', s')"
  shows "w_shape w' = (if isSSERequest r \<or> 0 < layers w then w_shape w
     else (0, Some (env_clock env (wd_tick s) + 30 * second)))"
proof (cases "isSSERequest r")
  case True
  with assms show ?thesis by (simp add: handleProxy_def shape_handleSSE)
next
  case False
  obtain w1 s1 where d: "setDeadline env w s = (w1, s1)" by fastforce
  have "w_shape w' = w_shape w1"
    using assms False d
    by (auto simp: handleProxy_def shape split: option.splits if_splits)
      (erule shape_forwardRequest)+
  moreover have "w_shape w1 = (if 0 < layers w then w_shape w
      else (0, Some (env_clock env (wd_tick s) + 30 * second)))"
    using d by (cases w) (auto simp: setDeadline_def readClock_def nonSSEWriteTimeout_def w_shape_def)
  ultimately show ?thesis using False by simp
qed

text \<open>A handler that leaves the shape of a recorder alone; all handlers of the chain do.\<close>

definition keeps_shape :: "handler \<Rightarrow> bool" where
  "keeps_shape next \<longleftrightarrow> (\<forall>env r w s. 0 < layers w \<longrightarrow> w_shape (fst (go_state (next env r w s))) = w_shape w)"

lemma keeps_shapeD:
  "keeps_shape next \<Longrightarrow> 0 < layers w0 \<Longrightarrow> w_shape w0 = w_shape w \<Longrightarrow>
   w_shape (fst (go_state (next env r w0 s))) = w_shape w"
  by (simp add: keeps_shape_def)

lemma shape_layers: "w_shape w0 = w_shape w \<Longrightarrow> layers w0 = layers w"
  by (simp add: w_shape_def)

lemma keeps_shape_mux: "keeps_shape (mux_ServeHTTP srv)"
  unfolding keeps_shape_def
proof (intro allI impI)
  fix env r w s
  assume l: "0 < layers w"
  obtain w' s' where p: "go_state (handleProxy srv env r w s) = (w', s')" by fastforce
  show "w_shape (fst (go_state (mux_ServeHTTP srv env r w s))) = w_shape w"
    using shape_handleProxy [OF p] p l
    by (auto simp: mux_ServeHTTP_def handleHealth_def shape split: route.splits)
qed

lemma keeps_shape_policy: "keeps_shape next \<Longrightarrow> keeps_shape (policy_Handler m next)"
  by (auto simp: keeps_shape_def policy_Handler_def shape
      split: option.splits prod.splits sum.splits if_splits)

lemma keeps_shape_auth:
  assumes "keeps_shape next"
  shows "keeps_shape (auth_Handler m next)"
  unfolding keeps_shape_def
proof (intro allI impI)
  fix env r w s
  assume l: "0 < layers w"
  have a: "0 < layers (with_audit_id res w)" for res
    using l shape_layers [OF shape_with_audit_id [of res w]] by simp
  show "w_shape (fst (go_state (auth_Handler m next env r w s))) = w_shape w"
    by (auto simp: auth_Handler_def shape Let_def keeps_shapeD [OF assms l] keeps_shapeD [OF assms a]
        split: sum.splits option.splits prod.splits if_splits)
qed

lemma shape_audit:
  assumes "keeps_shape next" "req_path r \<notin> set (aum_skipPaths m)"
    and "go_state (audit_Handler m next env r w s) = (w', s')"
  shows "w_shape w' = w_shape w"
proof (cases "audit_prepare r")
  case None
  with assms(2,3) show ?thesis by (simp add: audit_Handler_def)
next
  case (Some x)
  obtain tool r' where x: "x = (tool, r')" by fastforce
  obtain rec s1 where n: "go_state (next env r' (StatusRecorder w [] 0) s) = (rec, s1)" by fastforce
  then have sh: "w_shape rec = w_shape (StatusRecorder w [] 0)"
    using keeps_shapeD [OF assms(1), of "StatusRecorder w [] 0" "StatusRecorder w [] 0" env r' s] by simp
  then obtain v i st where "rec = StatusRecorder v i st" by (cases rec) (auto simp: w_shape_def)
  with sh have "w_shape (inner_writer rec) = w_shape w" by (simp add: w_shape_def)
  moreover have "w' = inner_writer rec"
    using assms(2,3) Some x n
    by (cases "next env r' (StatusRecorder w [] 0) s") (auto simp: audit_Handler_def)
  ultimately show ?thesis by simp
qed

section \<open>Where requests are sent\<close>

lemma setPath_fields:
  "setPath p u = Some u' \<Longrightarrow> u_scheme u' = u_scheme u \<and> u_opaque u' = u_opaque u \<and> u_user u' = u_user u \<and>
   u_host u' = u_host u \<and> u_omitHost u' = u_omitHost u"
  by (auto simp: setPath_def split: option.splits)

lemma joinPath_fields:
  "u_scheme (joinPath u e) = u_scheme u \<and> u_opaque (joinPath u e) = u_opaque u \<and>
   u_user (joinPath u e) = u_user u \<and> u_host (joinPath u e) = u_host u"
  by (auto simp: joinPath_def Let_def split: option.split dest: setPath_fields)

text \<open>A parsed URL with a host has a scheme and no opaque part.\<close>

lemma parseRequestURI_host:
  assumes "parseRequestURI raw = Some u" "u_host u \<noteq> []"
  shows "u_opaque u = [] \<and> u_scheme u \<noteq> []"
  using assms
  by (auto simp: parseRequestURI_def Let_def empty_url_def split_query_def
      split: if_splits option.splits prod.splits dest!: setPath_fields)

text \<open>
  No request can choose the server in the URL made for it: whatever its path and query, the URL starts
  with the configured scheme, user and host, and what follows the host starts with a slash or a query.
\<close>

lemma target_authority:
  assumes "parseRequestURI raw = Some (upstreamURL srv)" "u_host (upstreamURL srv) \<noteq> []"
  shows "\<exists>rest. target_url srv r = u_scheme (upstreamURL srv) @ ''://'' @
      (case u_user (upstreamURL srv) of None \<Rightarrow> [] | Some i \<Rightarrow> i @ ''@'') @
      escapeHost (u_host (upstreamURL srv)) @ rest \<and>
    (rest = [] \<or> hd rest = CHR ''/'' \<or> hd rest = CHR ''?'')"
proof -
  let ?u = "(joinPath (upstreamURL srv) (req_path r))\<lparr>u_rawQuery := req_query r\<rparr>"
  let ?p = "escapedPath ?u"
  let ?rest = "((if ?p \<noteq> [] \<and> hd ?p \<noteq> CHR ''/'' then ''/'' else []) @ ?p) @
    (if u_forceQuery ?u \<or> req_query r \<noteq> [] then ''?'' @ req_query r else [])"
  have "u_scheme ?u = u_scheme (upstreamURL srv)" "u_opaque ?u = []" "u_host ?u = u_host (upstreamURL srv)"
    "u_user ?u = u_user (upstreamURL srv)"
    using parseRequestURI_host [OF assms] joinPath_fields [of "upstreamURL srv" "req_path r"] by simp_all
  then have "target_url srv r = u_scheme (upstreamURL srv) @ ''://'' @
      (case u_user (upstreamURL srv) of None \<Rightarrow> [] | Some i \<Rightarrow> i @ ''@'') @
      escapeHost (u_host (upstreamURL srv)) @ ?rest"
    using parseRequestURI_host [OF assms] assms(2)
    by (simp add: target_url_def url_String_def Let_def)
  moreover have "?rest = [] \<or> hd ?rest = CHR ''/'' \<or> hd ?rest = CHR ''?''"
    by (cases "?p = []") (auto simp: hd_append)
  ultimately show ?thesis by blast
qed

lemma plain_upstream: "parseRequestURI ''http://mcp:3000/mcp'' = Some (upstreamURL plain_server)"
  unfolding plain_server_def by code_simp

text \<open>
  The path of the configured URL is no prefix of what is reachable: a request whose path is
  \<open>/%2e%2e/admin\<close> passes the multiplexer and is sent to \<open>/admin\<close> of the MCP server, beside \<open>/mcp\<close>.
\<close>

lemma path_escapes_base:
  assumes "parseRequestURI ''http://mcp:3000/mcp'' = Some (upstreamURL srv)"
    and "req_escaped r = ''/%2e%2e/admin''" "unescapePath (req_escaped r) = Some (req_path r)"
    and "req_query r = []"
  shows "mux_route r = RouteProxy \<and> target_url srv r = ''http://mcp:3000/admin''"
proof -
  have p: "req_path r = ''/../admin''"
  proof -
    have "unescapePath ''/%2e%2e/admin'' = Some ''/../admin''" by code_simp
    with assms(2,3) show ?thesis by simp
  qed
  have c: "cleanPath ''/%2e%2e/admin'' = ''/%2e%2e/admin''" "\<not> seg_health ''/%2e%2e/admin''" by code_simp+
  have "mux_route r = RouteProxy" by (simp add: mux_route_def assms(2) c mux_match_def)
  moreover have "url_String ((joinPath (upstreamURL plain_server) ''/../admin'')\<lparr>u_rawQuery := []\<rparr>) = ''http://mcp:3000/admin''"
    unfolding plain_server_def by code_simp
  moreover have "upstreamURL srv = upstreamURL plain_server" using assms(1) plain_upstream by simp
  ultimately show ?thesis by (simp add: target_url_def p assms(4))
qed

end
