(* ===== verification/CacheThreads.thy ===== *)
theory CacheThreads
  imports TokenCache
begin

text \<open>
  The token cache under concurrent requests (\<open>internal/auth/cache.go\<close>).  The mutex makes each locked
  section one step; what happens between two sections of \<open>Get\<close> or \<open>Set\<close> is open to other threads.
  \<open>Get\<close> looks the entry up under the read lock, reads the clock without a lock, and deletes an expired
  entry under the write lock; \<open>Set\<close> computes the life time without a lock and stores under the lock.
\<close>

section \<open>Threads\<close>

text \<open>
  Where a thread is: outside the cache; in \<open>Get\<close> with the entry it found, or after it saw that the
  entry has expired; in \<open>Set\<close> with the life time it computed.
\<close>

datatype thread =
    Idle
  | Found string cache_entry
  | Expired string
  | Ready string introspection int

datatype cache_event =
    Returned nat string "introspection option"
  | Stored nat string introspection

record shared =
  sh_cache :: token_cache
  sh_time :: nat
  sh_threads :: "nat \<Rightarrow> thread"
  sh_log :: "cache_event list"

definition become :: "nat \<Rightarrow> thread \<Rightarrow> shared \<Rightarrow> shared" where
  "become i pc \<sigma> = \<sigma>\<lparr>sh_threads := (sh_threads \<sigma>)(i := pc)\<rparr>"

definition tick :: "shared \<Rightarrow> shared" where
  "tick \<sigma> = \<sigma>\<lparr>sh_time := Suc (sh_time \<sigma>)\<rparr>"

definition logged :: "cache_event \<Rightarrow> shared \<Rightarrow> shared" where
  "logged ev \<sigma> = \<sigma>\<lparr>sh_log := sh_log \<sigma> @ [ev]\<rparr>"

definition found :: "shared \<Rightarrow> string \<Rightarrow> cache_entry option" where
  "found \<sigma> token = map_of (tc_entries (sh_cache \<sigma>)) (hashToken token)"

definition deleteToken :: "string \<Rightarrow> shared \<Rightarrow> shared" where
  "deleteToken token \<sigma> = \<sigma>\<lparr>sh_cache := (sh_cache \<sigma>)\<lparr>tc_entries :=
     AList.delete (hashToken token) (tc_entries (sh_cache \<sigma>))\<rparr>\<rparr>"

definition storeToken :: "range_order \<Rightarrow> clock \<Rightarrow> string \<Rightarrow> introspection \<Rightarrow> int \<Rightarrow> shared \<Rightarrow> shared" where
  "storeToken ord now token result ttl \<sigma> =
    (let (t, c) = cacheStore ord now (hashToken token) result ttl (sh_time \<sigma>, sh_cache \<sigma>)
     in \<sigma>\<lparr>sh_time := t, sh_cache := c\<rparr>)"

inductive cstep :: "range_order \<Rightarrow> clock \<Rightarrow> shared \<Rightarrow> shared \<Rightarrow> bool" for ord now where
  get_miss: "sh_threads \<sigma> i = Idle \<Longrightarrow> found \<sigma> token = None \<Longrightarrow>
    cstep ord now \<sigma> (logged (Returned i token None) \<sigma>)"
| get_found: "sh_threads \<sigma> i = Idle \<Longrightarrow> found \<sigma> token = Some e \<Longrightarrow>
    cstep ord now \<sigma> (become i (Found token e) \<sigma>)"
| get_hit: "sh_threads \<sigma> i = Found token e \<Longrightarrow> \<not> ce_expiresAt e < now (sh_time \<sigma>) \<Longrightarrow>
    cstep ord now \<sigma> (logged (Returned i token (Some (ce_result e))) (become i Idle (tick \<sigma>)))"
| get_late: "sh_threads \<sigma> i = Found token e \<Longrightarrow> ce_expiresAt e < now (sh_time \<sigma>) \<Longrightarrow>
    cstep ord now \<sigma> (become i (Expired token) (tick \<sigma>))"
| get_delete: "sh_threads \<sigma> i = Expired token \<Longrightarrow>
    cstep ord now \<sigma> (logged (Returned i token None) (become i Idle (deleteToken token \<sigma>)))"
| set_dropped: "sh_threads \<sigma> i = Idle \<Longrightarrow> entry_ttl (sh_cache \<sigma>) result (now (sh_time \<sigma>)) = None \<Longrightarrow>
    cstep ord now \<sigma> (tick \<sigma>)"
| set_ready: "sh_threads \<sigma> i = Idle \<Longrightarrow> entry_ttl (sh_cache \<sigma>) result (now (sh_time \<sigma>)) = Some ttl \<Longrightarrow>
    cstep ord now \<sigma> (become i (Ready token result ttl) (if 0 < ir_ExpiresAt result then tick \<sigma> else \<sigma>))"
| set_store: "sh_threads \<sigma> i = Ready token result ttl \<Longrightarrow>
    cstep ord now \<sigma> (logged (Stored i token result) (become i Idle (storeToken ord now token result ttl \<sigma>)))"

definition start :: "token_cache \<Rightarrow> shared" where
  "start c = \<lparr>sh_cache = c, sh_time = 0, sh_threads = (\<lambda>_. Idle), sh_log = []\<rparr>"

text \<open>The states that any interleaving of any operations of any number of threads can reach.\<close>

inductive threads_reach :: "range_order \<Rightarrow> clock \<Rightarrow> token_cache \<Rightarrow> shared \<Rightarrow> bool" for ord now c0 where
  reach_start: "threads_reach ord now c0 (start c0)"
| reach_step: "threads_reach ord now c0 \<sigma> \<Longrightarrow> cstep ord now \<sigma> \<sigma>' \<Longrightarrow> threads_reach ord now c0 \<sigma>'"

lemma shared_simps [simp]:
  "sh_cache (become i pc \<sigma>) = sh_cache \<sigma>" "sh_time (become i pc \<sigma>) = sh_time \<sigma>"
  "sh_threads (become i pc \<sigma>) = (sh_threads \<sigma>)(i := pc)" "sh_log (become i pc \<sigma>) = sh_log \<sigma>"
  "sh_cache (tick \<sigma>) = sh_cache \<sigma>" "sh_time (tick \<sigma>) = Suc (sh_time \<sigma>)"
  "sh_threads (tick \<sigma>) = sh_threads \<sigma>" "sh_log (tick \<sigma>) = sh_log \<sigma>"
  "sh_cache (logged ev \<sigma>) = sh_cache \<sigma>" "sh_time (logged ev \<sigma>) = sh_time \<sigma>"
  "sh_threads (logged ev \<sigma>) = sh_threads \<sigma>" "sh_log (logged ev \<sigma>) = sh_log \<sigma> @ [ev]"
  "sh_time (deleteToken token \<sigma>) = sh_time \<sigma>" "sh_threads (deleteToken token \<sigma>) = sh_threads \<sigma>"
  "sh_log (deleteToken token \<sigma>) = sh_log \<sigma>"
  by (simp_all add: become_def tick_def logged_def deleteToken_def)

lemma storeToken_simps [simp]:
  "sh_threads (storeToken ord now token result ttl \<sigma>) = sh_threads \<sigma>"
  "sh_log (storeToken ord now token result ttl \<sigma>) = sh_log \<sigma>"
  by (simp_all add: storeToken_def Let_def split: prod.split)

lemma storeToken_ttl [simp]:
  "tc_ttl (sh_cache (storeToken ord now token result ttl \<sigma>)) = tc_ttl (sh_cache \<sigma>)"
  by (auto simp: storeToken_def cacheStore_def Let_def dest: makeRoom_fields split: prod.split)

section \<open>The invariant\<close>

definition was_stored :: "cache_event list \<Rightarrow> string \<Rightarrow> introspection \<Rightarrow> bool" where
  "was_stored evs k r \<longleftrightarrow> (\<exists>i token. Stored i token r \<in> set evs \<and> k = hashToken token)"

definition threads_inv :: "int \<Rightarrow> shared \<Rightarrow> bool" where
  "threads_inv n \<sigma> \<longleftrightarrow> cache_wf (sh_cache \<sigma>) \<and> tc_maxEntries (sh_cache \<sigma>) = n \<and>
     (\<forall>k r. (k, r) \<in> cache_contents (sh_cache \<sigma>) \<longrightarrow> was_stored (sh_log \<sigma>) k r) \<and>
     (\<forall>i token e. sh_threads \<sigma> i = Found token e \<longrightarrow> was_stored (sh_log \<sigma>) (hashToken token) (ce_result e)) \<and>
     (\<forall>i token r. Returned i token (Some r) \<in> set (sh_log \<sigma>) \<longrightarrow> was_stored (sh_log \<sigma>) (hashToken token) r)"

lemma was_stored_snoc: "was_stored evs k r \<Longrightarrow> was_stored (evs @ [ev]) k r"
  by (auto simp: was_stored_def)

lemma found_contents: "found \<sigma> token = Some e \<Longrightarrow> (hashToken token, ce_result e) \<in> cache_contents (sh_cache \<sigma>)"
  by (force simp: found_def cache_contents_def dest: map_of_SomeD)

lemma deleteToken_cache:
  assumes "cache_wf (sh_cache \<sigma>)"
  shows "cache_wf (sh_cache (deleteToken token \<sigma>))"
    "tc_maxEntries (sh_cache (deleteToken token \<sigma>)) = tc_maxEntries (sh_cache \<sigma>)"
    "cache_contents (sh_cache (deleteToken token \<sigma>)) \<subseteq> cache_contents (sh_cache \<sigma>)"
  using assms length_delete_le' [of "hashToken token" "tc_entries (sh_cache \<sigma>)"]
    set_delete_subset [of "hashToken token" "tc_entries (sh_cache \<sigma>)"]
  by (auto simp: deleteToken_def cache_wf_def cacheLen_def cache_contents_def)

lemma storeToken_cache:
  assumes "is_range ord" "cache_wf (sh_cache \<sigma>)"
  shows "cache_wf (sh_cache (storeToken ord now token result ttl \<sigma>))"
    "tc_maxEntries (sh_cache (storeToken ord now token result ttl \<sigma>)) = tc_maxEntries (sh_cache \<sigma>)"
    "cache_contents (sh_cache (storeToken ord now token result ttl \<sigma>)) \<subseteq>
      insert (hashToken token, result) (cache_contents (sh_cache \<sigma>))"
proof -
  obtain t c where s: "cacheStore ord now (hashToken token) result ttl (sh_time \<sigma>, sh_cache \<sigma>) = (t, c)"
    by fastforce
  show "cache_wf (sh_cache (storeToken ord now token result ttl \<sigma>))"
    using cache_wf_cacheStore [OF assms s] s by (simp add: storeToken_def)
  show "tc_maxEntries (sh_cache (storeToken ord now token result ttl \<sigma>)) = tc_maxEntries (sh_cache \<sigma>)"
    using s by (auto simp: storeToken_def cacheStore_def dest: makeRoom_fields split: prod.splits)
  show "cache_contents (sh_cache (storeToken ord now token result ttl \<sigma>)) \<subseteq>
      insert (hashToken token, result) (cache_contents (sh_cache \<sigma>))"
    using cacheStore_contents [of ord now "hashToken token" result ttl "sh_time \<sigma>" "sh_cache \<sigma>"] s
    by (simp add: storeToken_def)
qed

lemma threads_inv_step:
  assumes "is_range ord" "threads_inv n \<sigma>" "cstep ord now \<sigma> \<sigma>'"
  shows "threads_inv n \<sigma>'"
  using assms(3)
proof cases
  case (get_found i token e)
  then show ?thesis using assms(2) found_contents [OF get_found(3)] by (auto simp: threads_inv_def)
next
  case (get_hit i token e)
  then have "was_stored (sh_log \<sigma>) (hashToken token) (ce_result e)"
    using assms(2) by (auto simp: threads_inv_def)
  with get_hit assms(2) show ?thesis by (auto simp: threads_inv_def intro: was_stored_snoc)
next
  case (get_delete i token)
  have "cache_wf (sh_cache \<sigma>)" using assms(2) by (simp add: threads_inv_def)
  note D = deleteToken_cache [OF this, of token]
  show ?thesis using assms(2) D get_delete by (auto simp: threads_inv_def intro: was_stored_snoc)
next
  case (set_store i token result ttl)
  have "cache_wf (sh_cache \<sigma>)" using assms(2) by (simp add: threads_inv_def)
  note S = storeToken_cache [OF assms(1) this, of now token result ttl]
  have "was_stored (sh_log \<sigma> @ [Stored i token result]) (hashToken token) result"
    by (auto simp: was_stored_def)
  with assms(2) S set_store show ?thesis
    by (auto simp: threads_inv_def intro: was_stored_snoc)
qed (use assms(2) in \<open>auto simp: threads_inv_def intro: was_stored_snoc\<close>)

lemma threads_inv_reach:
  assumes "is_range ord" "cache_wf c0" "tc_entries c0 = []"
  shows "threads_reach ord now c0 \<sigma> \<Longrightarrow> threads_inv (tc_maxEntries c0) \<sigma>"
proof (induction rule: threads_reach.induct)
  case reach_start
  show ?case using assms(2,3) by (simp add: threads_inv_def start_def cache_contents_def)
next
  case (reach_step \<sigma> \<sigma>')
  then show ?case using threads_inv_step [OF assms(1)] by blast
qed

section \<open>Properties\<close>

text \<open>
  C17: the cache is safe under any interleaving of any number of threads: in every reachable state it holds
  at most its maximum number of entries, one per key, and a result that some thread got for a token was
  stored before, by some thread, for a token with the same key.
\<close>

theorem interleaved_cache_safe:
  assumes "is_range ord" "threads_reach ord now (NewTokenCache [WithMaxEntries n]) \<sigma>"
  shows "cacheLen (sh_cache \<sigma>) \<le> (if 0 < n then n else defaultMaxEntries) \<and>
    distinct (keys (tc_entries (sh_cache \<sigma>))) \<and>
    (\<forall>i token r. Returned i token (Some r) \<in> set (sh_log \<sigma>) \<longrightarrow>
      (\<exists>j token'. Stored j token' r \<in> set (sh_log \<sigma>) \<and> hashToken token' = hashToken token))"
proof -
  let ?c = "NewTokenCache [WithMaxEntries n]"
  have "cache_wf ?c" "tc_entries ?c = []" "tc_maxEntries ?c = (if 0 < n then n else defaultMaxEntries)"
    by (simp_all add: NewTokenCache_def WithMaxEntries_def cache_wf_def cacheLen_def defaultMaxEntries_def)
  with threads_inv_reach [OF assms(1) this(1,2) assms(2)]
  have inv: "threads_inv (if 0 < n then n else defaultMaxEntries) \<sigma>" by simp
  have "\<exists>j token'. Stored j token' r \<in> set (sh_log \<sigma>) \<and> hashToken token' = hashToken token"
    if "Returned i token (Some r) \<in> set (sh_log \<sigma>)" for i token r
  proof -
    have "was_stored (sh_log \<sigma>) (hashToken token) r" using that inv unfolding threads_inv_def by blast
    then show ?thesis unfolding was_stored_def by metis
  qed
  moreover have "cache_wf (sh_cache \<sigma>)" "tc_maxEntries (sh_cache \<sigma>) = (if 0 < n then n else defaultMaxEntries)"
    using inv by (simp_all add: threads_inv_def)
  ultimately show ?thesis unfolding cache_wf_def wf_map_def by metis
qed

text \<open>A run of one thread that stores a result for good, on an empty cache.\<close>

definition late_clock :: clock where
  "late_clock t = (if t = 0 then 0 else 10 ^ 12)"

definition lasting_result :: introspection where
  "lasting_result = demo_token_result\<lparr>ir_ExpiresAt := 0\<rparr>"

lemma lasting_ttl: "entry_ttl c lasting_result n = Some (tc_ttl c)"
  by (simp add: entry_ttl_def lasting_result_def)

lemma storeToken_empty:
  assumes "tc_entries (sh_cache \<sigma>) = []" "0 < tc_maxEntries (sh_cache \<sigma>)"
  shows "found (storeToken ord now token result ttl \<sigma>) token =
      Some \<lparr>ce_result = result, ce_expiresAt = now (sh_time \<sigma>) + ttl\<rparr>"
    "sh_time (storeToken ord now token result ttl \<sigma>) = Suc (sh_time \<sigma>)"
  using assms by (simp_all add: storeToken_def cacheStore_def makeRoom_def cacheLen_def found_def)

lemma found_simps [simp]:
  "found (become i pc \<sigma>) token = found \<sigma> token" "found (tick \<sigma>) token = found \<sigma> token"
  "found (logged ev \<sigma>) token = found \<sigma> token"
  by (simp_all add: found_def)

lemma stored_state:
  obtains \<sigma> e where "threads_reach (\<lambda>m. m) now (NewTokenCache [WithMaxEntries n]) \<sigma>"
    "sh_threads \<sigma> = (\<lambda>_. Idle)" "sh_time \<sigma> = 1" "found \<sigma> token = Some e" "tc_ttl (sh_cache \<sigma>) = defaultCacheTTL"
    "ce_result e = lasting_result" "ce_expiresAt e = now 0 + defaultCacheTTL"
proof -
  let ?c = "NewTokenCache [WithMaxEntries n]"
  let ?r = "threads_reach (\<lambda>m. m) now ?c"
  let ?s1 = "become 0 (Ready token lasting_result (tc_ttl ?c)) (start ?c)"
  let ?s2 = "logged (Stored 0 token lasting_result)
    (become 0 Idle (storeToken (\<lambda>m. m) now token lasting_result (tc_ttl ?c) ?s1))"
  have c: "tc_entries ?c = []" "0 < tc_maxEntries ?c" "tc_ttl ?c = defaultCacheTTL"
    by (simp_all add: NewTokenCache_def WithMaxEntries_def defaultMaxEntries_def)
  have idle: "sh_threads (start ?c) = (\<lambda>_. Idle)" "sh_cache (start ?c) = ?c" "sh_time (start ?c) = 0"
    by (simp_all add: start_def)
  have "cstep (\<lambda>m. m) now (start ?c)
      (become 0 (Ready token lasting_result (tc_ttl ?c)) (if 0 < ir_ExpiresAt lasting_result then tick (start ?c) else start ?c))"
    by (rule set_ready) (simp_all add: idle lasting_ttl)
  then have "?r ?s1" using reach_step [OF reach_start] by (simp add: lasting_result_def)
  moreover have "cstep (\<lambda>m. m) now ?s1 ?s2" by (rule set_store) simp
  ultimately have r2: "?r ?s2" by (rule reach_step)
  have e: "tc_entries (sh_cache ?s1) = []" "0 < tc_maxEntries (sh_cache ?s1)" using c idle by simp_all
  note S = storeToken_empty [OF e, of "\<lambda>m. m" now token lasting_result "tc_ttl ?c"]
  show ?thesis
    by (rule that [OF r2]) (use S c idle in \<open>auto simp: fun_eq_iff\<close>)
qed

theorem interleaved_cache_safe_witness:
  "\<exists>\<sigma>. threads_reach (\<lambda>m. m) (\<lambda>_. 0) (NewTokenCache [WithMaxEntries 1]) \<sigma> \<and>
     Returned 1 ''t'' (Some lasting_result) \<in> set (sh_log \<sigma>) \<and> cacheLen (sh_cache \<sigma>) \<le> 1"
proof -
  let ?r = "threads_reach (\<lambda>m. m) (\<lambda>_. 0) (NewTokenCache [WithMaxEntries 1])"
  obtain \<sigma> e where s: "?r \<sigma>" "sh_threads \<sigma> = (\<lambda>_. Idle)" "found \<sigma> ''t'' = Some e"
    "ce_result e = lasting_result" "ce_expiresAt e = 0 + defaultCacheTTL"
    using stored_state [of "\<lambda>_. 0" 1 "''t''"] by metis
  let ?s1 = "become 1 (Found ''t'' e) \<sigma>"
  let ?s2 = "logged (Returned 1 ''t'' (Some (ce_result e))) (become 1 Idle (tick ?s1))"
  have "cstep (\<lambda>m. m) (\<lambda>_. 0) \<sigma> ?s1" by (rule get_found) (simp_all add: s)
  with s(1) have "?r ?s1" by (rule reach_step)
  moreover have "cstep (\<lambda>m. m) (\<lambda>_. 0) ?s1 ?s2"
    by (rule get_hit) (simp_all add: s defaultCacheTTL_def minute_def second_def)
  ultimately have r2: "?r ?s2" by (rule reach_step)
  have ev: "Returned 1 ''t'' (Some lasting_result) \<in> set (sh_log ?s2)" by (simp add: s)
  from interleaved_cache_safe [OF is_range_id r2] r2 ev show ?thesis by auto
qed

lemma cacheSet_ttl:
  assumes "entry_ttl c result (now t) = Some ttl"
  shows "cacheSet ord now token result (t, c) =
    cacheStore ord now (hashToken token) result ttl (if 0 < ir_ExpiresAt result then Suc t else t, c)"
  using assms by (auto simp: cacheSet_def entry_ttl_def Let_def min_def split: if_splits)

lemma uninterrupted_get:
  assumes "sh_threads \<sigma> i = Idle"
  shows "\<exists>\<sigma>' r. (cstep ord now)\<^sup>*\<^sup>* \<sigma> \<sigma>' \<and> sh_threads \<sigma>' = sh_threads \<sigma> \<and>
    cacheGet now token (sh_time \<sigma>, sh_cache \<sigma>) = (r, (sh_time \<sigma>', sh_cache \<sigma>')) \<and>
    sh_log \<sigma>' = sh_log \<sigma> @ [Returned i token r]"
proof (cases "found \<sigma> token")
  case None
  let ?s = "logged (Returned i token None) \<sigma>"
  have "(cstep ord now)\<^sup>*\<^sup>* \<sigma> ?s" using get_miss [OF assms None, of ord now] by blast
  moreover have "cacheGet now token (sh_time \<sigma>, sh_cache \<sigma>) = (None, (sh_time ?s, sh_cache ?s))"
    using None by (simp add: found_def cacheGet_def)
  ultimately show ?thesis by (intro exI [of _ ?s] exI [of _ None]) simp
next
  case (Some e)
  let ?s1 = "become i (Found token e) \<sigma>"
  have s1: "cstep ord now \<sigma> ?s1" by (rule get_found [OF assms Some])
  have keep: "(sh_threads \<sigma>)(i := Idle) = sh_threads \<sigma>" using assms by auto
  show ?thesis
  proof (cases "ce_expiresAt e < now (sh_time \<sigma>)")
    case False
    let ?s = "logged (Returned i token (Some (ce_result e))) (become i Idle (tick ?s1))"
    have "cstep ord now ?s1 ?s" by (rule get_hit) (use False in simp_all)
    with s1 have "(cstep ord now)\<^sup>*\<^sup>* \<sigma> ?s" by (meson converse_rtranclp_into_rtranclp r_into_rtranclp)
    moreover have "cacheGet now token (sh_time \<sigma>, sh_cache \<sigma>) = (Some (ce_result e), (sh_time ?s, sh_cache ?s))"
      using Some False by (simp add: found_def cacheGet_def)
    ultimately show ?thesis using keep by (intro exI [of _ ?s] exI [of _ "Some (ce_result e)"]) simp
  next
    case True
    let ?s2 = "become i (Expired token) (tick ?s1)"
    let ?s = "logged (Returned i token None) (become i Idle (deleteToken token ?s2))"
    have "cstep ord now ?s1 ?s2" by (rule get_late) (use True in simp_all)
    moreover have "cstep ord now ?s2 ?s" by (rule get_delete) simp
    ultimately have "(cstep ord now)\<^sup>*\<^sup>* \<sigma> ?s"
      using s1 by (meson converse_rtranclp_into_rtranclp r_into_rtranclp)
    moreover have "cacheGet now token (sh_time \<sigma>, sh_cache \<sigma>) = (None, (sh_time ?s, sh_cache ?s))"
      using Some True by (simp add: found_def cacheGet_def deleteToken_def)
    ultimately show ?thesis using keep by (intro exI [of _ ?s] exI [of _ None]) simp
  qed
qed

lemma uninterrupted_set:
  assumes "sh_threads \<sigma> i = Idle"
  shows "\<exists>\<sigma>'. (cstep ord now)\<^sup>*\<^sup>* \<sigma> \<sigma>' \<and> sh_threads \<sigma>' = sh_threads \<sigma> \<and>
    cacheSet ord now token result (sh_time \<sigma>, sh_cache \<sigma>) = (sh_time \<sigma>', sh_cache \<sigma>')"
proof (cases "entry_ttl (sh_cache \<sigma>) result (now (sh_time \<sigma>))")
  case None
  have "cstep ord now \<sigma> (tick \<sigma>)"
    by (rule set_dropped [where i = i and result = result]) (use assms None in simp_all)
  then have "(cstep ord now)\<^sup>*\<^sup>* \<sigma> (tick \<sigma>)" by blast
  with cacheSet_expired [where now = now, OF None] show ?thesis by (intro exI [of _ "tick \<sigma>"]) simp
next
  case (Some ttl)
  let ?s0 = "if 0 < ir_ExpiresAt result then tick \<sigma> else \<sigma>"
  let ?s1 = "become i (Ready token result ttl) ?s0"
  let ?s = "logged (Stored i token result) (become i Idle (storeToken ord now token result ttl ?s1))"
  have "cstep ord now \<sigma> ?s1" by (rule set_ready) (use assms Some in simp_all)
  moreover have "cstep ord now ?s1 ?s" by (rule set_store) simp
  ultimately have "(cstep ord now)\<^sup>*\<^sup>* \<sigma> ?s" by (meson converse_rtranclp_into_rtranclp r_into_rtranclp)
  moreover have "cacheSet ord now token result (sh_time \<sigma>, sh_cache \<sigma>) = (sh_time ?s, sh_cache ?s)"
    by (simp add: cacheSet_ttl [where now = now, OF Some] storeToken_def split: prod.split)
  moreover have "sh_threads ?s = sh_threads \<sigma>" using assms by auto
  ultimately show ?thesis by blast
qed

text \<open>
  The small steps implement the operations: a thread that is not interrupted gets from \<open>Get\<close> and
  leaves behind exactly what the atomic operation gives, and likewise for \<open>Set\<close>.
\<close>

lemma uninterrupted_steps_are_atomic:
  assumes "sh_threads \<sigma> i = Idle"
  shows "(\<exists>\<sigma>' r. (cstep ord now)\<^sup>*\<^sup>* \<sigma> \<sigma>' \<and> sh_threads \<sigma>' = sh_threads \<sigma> \<and>
      cacheGet now token (sh_time \<sigma>, sh_cache \<sigma>) = (r, (sh_time \<sigma>', sh_cache \<sigma>')) \<and>
      sh_log \<sigma>' = sh_log \<sigma> @ [Returned i token r]) \<and>
    (\<exists>\<sigma>'. (cstep ord now)\<^sup>*\<^sup>* \<sigma> \<sigma>' \<and> sh_threads \<sigma>' = sh_threads \<sigma> \<and>
      cacheSet ord now token result (sh_time \<sigma>, sh_cache \<sigma>) = (sh_time \<sigma>', sh_cache \<sigma>'))"
  using uninterrupted_get [OF assms] uninterrupted_set [OF assms] by blast

text \<open>
  C18: the clean-up in \<open>Get\<close> is not safe against a concurrent \<open>Set\<close>: a thread that has seen an expired
  entry deletes whatever is stored under the key when it gets the lock, also the fresh result another
  thread has stored in the meantime.
\<close>

theorem fresh_entry_can_be_lost:
  assumes "sh_threads \<sigma> i = Expired token" "sh_threads \<sigma> j = Ready token result ttl"
  shows "\<exists>\<sigma>1 \<sigma>2 e. cstep ord now \<sigma> \<sigma>1 \<and> found \<sigma>1 token = Some e \<and> ce_result e = result \<and>
    ce_expiresAt e = now (sh_time \<sigma>1 - 1) + ttl \<and> cstep ord now \<sigma>1 \<sigma>2 \<and> found \<sigma>2 token = None"
proof -
  let ?s1 = "logged (Stored j token result) (become j Idle (storeToken ord now token result ttl \<sigma>))"
  let ?s2 = "logged (Returned i token None) (become i Idle (deleteToken token ?s1))"
  have "cstep ord now \<sigma> ?s1" by (rule set_store [OF assms(2)])
  moreover have "cstep ord now ?s1 ?s2" by (rule get_delete) (use assms in auto)
  moreover have "found ?s1 token = Some \<lparr>ce_result = result, ce_expiresAt = now (sh_time ?s1 - 1) + ttl\<rparr>"
    by (simp add: found_def storeToken_def cacheStore_def split: prod.split)
  moreover have "found ?s2 token = None" by (simp add: found_def deleteToken_def)
  ultimately show ?thesis by (intro exI [of _ ?s1] exI [of _ ?s2]) simp
qed

theorem fresh_entry_can_be_lost_witness:
  "\<exists>\<sigma> \<sigma>1 \<sigma>2. threads_reach (\<lambda>m. m) late_clock (NewTokenCache [WithMaxEntries 5]) \<sigma> \<and>
     cstep (\<lambda>m. m) late_clock \<sigma> \<sigma>1 \<and> found \<sigma>1 ''t'' \<noteq> None \<and>
     cstep (\<lambda>m. m) late_clock \<sigma>1 \<sigma>2 \<and> found \<sigma>2 ''t'' = None"
proof -
  let ?r = "threads_reach (\<lambda>m. m) late_clock (NewTokenCache [WithMaxEntries 5])"
  obtain \<sigma> e where s: "?r \<sigma>" "sh_threads \<sigma> = (\<lambda>_. Idle)" "sh_time \<sigma> = 1" "found \<sigma> ''t'' = Some e"
    "tc_ttl (sh_cache \<sigma>) = defaultCacheTTL" "ce_expiresAt e = late_clock 0 + defaultCacheTTL"
    using stored_state [of late_clock 5 "''t''"] by metis
  let ?s1 = "become 1 (Found ''t'' e) \<sigma>"
  let ?s2 = "become 1 (Expired ''t'') (tick ?s1)"
  let ?s3 = "become 2 (Ready ''t'' lasting_result defaultCacheTTL) ?s2"
  have "cstep (\<lambda>m. m) late_clock \<sigma> ?s1" by (rule get_found) (simp_all add: s)
  with s(1) have "?r ?s1" by (rule reach_step)
  moreover have "ce_expiresAt e < late_clock (sh_time ?s1)"
    unfolding s(6) by (simp add: s(3) late_clock_def defaultCacheTTL_def minute_def second_def)
  then have "cstep (\<lambda>m. m) late_clock ?s1 ?s2" by (intro get_late) simp_all
  ultimately have "?r ?s2" by (rule reach_step)
  moreover have "cstep (\<lambda>m. m) late_clock ?s2
      (become 2 (Ready ''t'' lasting_result defaultCacheTTL) (if 0 < ir_ExpiresAt lasting_result then tick ?s2 else ?s2))"
    by (rule set_ready) (simp_all add: s lasting_ttl)
  then have "cstep (\<lambda>m. m) late_clock ?s2 ?s3" by (simp add: lasting_result_def)
  ultimately have r3: "?r ?s3" by (rule reach_step)
  have "sh_threads ?s3 1 = Expired ''t''" "sh_threads ?s3 2 = Ready ''t'' lasting_result defaultCacheTTL"
    by simp_all
  from fresh_entry_can_be_lost [OF this, of "\<lambda>m. m" late_clock] r3 show ?thesis by blast
qed

end
