(* ===== verification/MockServices.thy ===== *)
theory MockServices
  imports PolicyMiddleware
begin

text \<open>
  \<open>internal/testutil/testutil.go\<close>: the mock servers and message helpers of the test suites, as
  executable models of the other ends of the gateway's protocols.  A handler is a function from
  the request and the response writer to the writer; \<open>serve\<close> is the HTTP exchange around it.
\<close>

section \<open>An HTTP exchange\<close>

text \<open>
  What the server of \<open>httptest.NewServer\<close> makes of a request a client sends: the path and query of
  the URL, the method, the headers and the body.  The headers the client adds by itself (host,
  agent, length, encoding) are left out.
\<close>

definition delivered :: "out_request \<Rightarrow> request option" where
  "delivered q = map_option (\<lambda>u. \<lparr>req_method = out_method q, req_path = u_path u,
     req_escaped = escapedPath u, req_query = u_rawQuery u, req_header = out_header q,
     req_body = out_body q, req_remote = [], req_tokenInfo = None, req_requestID = None\<rparr>)
     (parseRequestURI (out_url q))"

definition new_response :: conn where
  "new_response = \<lparr>c_header = [], c_sent = None, c_written = [], c_writes_left = None,
     c_deadline = None, c_flusher = True, c_flushed = []\<rparr>"

text \<open>The response when the handler has returned: 200 if it wrote nothing.\<close>

definition response_of :: "conn \<Rightarrow> http_result" where
  "response_of c = (case c_sent c of
     None \<Rightarrow> DoResp StatusOK (c_header c) (c_written c) False
   | Some (code, h) \<Rightarrow> DoResp code h (c_written c) False)"

type_synonym mock_handler = "request \<Rightarrow> writer \<Rightarrow> writer"

definition serve :: "mock_handler \<Rightarrow> out_request \<Rightarrow> http_result" where
  "serve handler q = (case delivered q of
     None \<Rightarrow> DoErr
   | Some r \<Rightarrow> response_of (w_conn (handler r (Base new_response))))"

section \<open>Form values\<close>

text \<open>\<open>url.QueryUnescape\<close>.\<close>

fun queryUnescape :: "string \<Rightarrow> string option" where
  "queryUnescape [] = Some []"
| "queryUnescape (c # r) =
    (if c = CHR ''%'' then
       (case r of
          x # y # r' \<Rightarrow>
            (case (hex_val_any x, hex_val_any y) of
               (Some a, Some b) \<Rightarrow> map_option (\<lambda>s. chr (16 * a + b) # s) (queryUnescape r')
             | _ \<Rightarrow> None)
        | _ \<Rightarrow> None)
     else map_option (\<lambda>s. (if c = CHR ''+'' then CHR '' '' else c) # s) (queryUnescape r))"

text \<open>
  \<open>url.ParseQuery\<close>: the pairs in order and whether there was no error; a pair that is not well
  formed is left out.
\<close>

definition parse_pair :: "string \<Rightarrow> (string \<times> string) list \<times> bool" where
  "parse_pair p =
    (if CHR '';'' \<in> set p then ([], False)
     else if p = [] then ([], True)
     else (case (queryUnescape (takeWhile (\<lambda>c. c \<noteq> CHR ''='') p),
                 queryUnescape (drop 1 (dropWhile (\<lambda>c. c \<noteq> CHR ''='') p))) of
       (Some k, Some v) \<Rightarrow> ([(k, v)], True)
     | _ \<Rightarrow> ([], False)))"

definition parseQuery :: "string \<Rightarrow> (string \<times> string) list \<times> bool" where
  "parseQuery s = (let ps = map parse_pair (split_on (CHR ''&'') s)
                   in (concat (map fst ps), list_all snd ps))"

definition maxFormSize :: nat where
  "maxFormSize = 10 * 2 ^ 20"

text \<open>
  \<open>r.ParseForm\<close> for a method with a body: the values of the body, then those of the query, and
  whether there was no error.  A body of another content type counts as empty.
\<close>

definition isFormContent :: "request \<Rightarrow> bool" where
  "isFormContent r \<longleftrightarrow> map to_lower (filter (\<lambda>c. c \<noteq> CHR '' '')
     (takeWhile (\<lambda>c. c \<noteq> CHR '';'') (hget (req_header r) ''Content-Type''))) = ''application/x-www-form-urlencoded''"

definition parsePostForm :: "request \<Rightarrow> (string \<times> string) list \<times> bool" where
  "parsePostForm r =
    (if req_body r = NilBody \<or> \<not> isFormContent r then ([], True)
     else (case readAll (req_body r) of
       Some (d, None) \<Rightarrow> if maxFormSize < length d then ([], False) else parseQuery d
     | _ \<Rightarrow> ([], False)))"

definition parseForm :: "request \<Rightarrow> (string \<times> string) list \<times> bool" where
  "parseForm r = (let (post, ok) = parsePostForm r; (query, ok') = parseQuery (req_query r)
                  in (post @ query, ok \<and> ok'))"

definition formValue :: "(string \<times> string) list \<Rightarrow> string \<Rightarrow> string" where
  "formValue form k = (case map_of form k of None \<Rightarrow> [] | Some v \<Rightarrow> v)"

section \<open>The mock of Hydra\<close>

definition StatusNotFound :: nat where "StatusNotFound = 404"
definition StatusMethodNotAllowed :: nat where "StatusMethodNotAllowed = 405"
definition StatusBadRequest :: nat where "StatusBadRequest = 400"

lemmas mock_status = StatusNotFound_def StatusMethodNotAllowed_def StatusBadRequest_def http_status

text \<open>\<open>json.NewEncoder(w).Encode(resp)\<close>, with the answer to a failed write.\<close>

definition encodeTo :: "string \<Rightarrow> writer \<Rightarrow> writer" where
  "encodeTo doc w = (let (ok, w') = Write (doc @ newline) w in
     if ok then w' else http_Error ''failed to encode response'' StatusInternalServerError w')"

definition json_bool :: "bool \<Rightarrow> string" where
  "json_bool b = (if b then ''true'' else ''false'')"

text \<open>A map is written with its keys in order.\<close>

definition hydra_response :: "bool \<Rightarrow> string \<Rightarrow> string" where
  "hydra_response active clientID = json_object ((''active'', json_bool active) #
     (if active then [(''client_id'', json_string clientID), (''scope'', json_string ''tools:read tools:call'')]
      else []))"

definition introspectPath :: string where
  "introspectPath = ''/admin/oauth2/introspect''"

definition NewMockHydraServer :: "bool \<Rightarrow> string \<Rightarrow> mock_handler" where
  "NewMockHydraServer active clientID r w =
    (if req_path r \<noteq> introspectPath then http_Error ''not found'' StatusNotFound w
     else if req_method r \<noteq> ''POST'' then http_Error ''method not allowed'' StatusMethodNotAllowed w
     else encodeTo (hydra_response active clientID)
       (w_set_header (hset ''Content-Type'' ''application/json'') w))"

definition NewMockHydraServerWithTokenValidation :: "string \<Rightarrow> string \<Rightarrow> mock_handler" where
  "NewMockHydraServerWithTokenValidation expectedToken clientID r w =
    (if req_path r \<noteq> introspectPath then http_Error ''not found'' StatusNotFound w
     else if req_method r \<noteq> ''POST'' then http_Error ''method not allowed'' StatusMethodNotAllowed w
     else (let (form, ok) = parseForm r in
       if \<not> ok then http_Error ''bad request'' StatusBadRequest w
       else let token = formValue form ''token'' in
         encodeTo (hydra_response (token = expectedToken) clientID)
           (w_set_header (hset ''Content-Type'' ''application/json'') w)))"

section \<open>The mock of OPA\<close>

text \<open>The input of a decision: a JSON object as a map (of a repeated name the last value counts).\<close>

type_synonym policy_decision_func = "(string \<rightharpoonup> json) \<Rightarrow> bool"

definition members_map :: "member list \<Rightarrow> (string \<rightharpoonup> json)" where
  "members_map ms = map_of (rev (map (\<lambda>(k, raw, v). (k, v)) ms))"

text \<open>Decoding into \<open>struct { Input map[string]any }\<close>; a second object is added to the first.\<close>

definition payload_store :: "string \<Rightarrow> string \<Rightarrow> json \<Rightarrow> (string \<rightharpoonup> json) \<Rightarrow> (string \<rightharpoonup> json) option" where
  "payload_store f raw v m = (case v of
     JNull \<Rightarrow> Some Map.empty
   | JObj ms \<Rightarrow> Some (m ++ members_map ms)
   | _ \<Rightarrow> None)"

definition decode_payload :: "body \<Rightarrow> (string \<rightharpoonup> json) option" where
  "decode_payload b = (case readAll b of
     None \<Rightarrow> None
   | Some (d, e) \<Rightarrow> (case json_decode_stream d (e \<noteq> None) of
       None \<Rightarrow> None
     | Some v \<Rightarrow> decode_struct payload_store [''input''] Map.empty v))"

definition NewMockOPAServer :: "policy_decision_func \<Rightarrow> mock_handler" where
  "NewMockOPAServer decide r w =
    (if req_path r \<noteq> decisionPath then http_Error ''not found'' StatusNotFound w
     else if req_method r \<noteq> ''POST'' then http_Error ''method not allowed'' StatusMethodNotAllowed w
     else (case decode_payload (req_body r) of
       None \<Rightarrow> http_Error ''bad request'' StatusBadRequest w
     | Some input \<Rightarrow> encodeTo (json_object [(''result'', json_bool (decide input))])
         (w_set_header (hset ''Content-Type'' ''application/json'') w)))"

definition NewAllowAllOPAServer :: mock_handler where
  "NewAllowAllOPAServer = NewMockOPAServer (\<lambda>_. True)"

section \<open>JSON-RPC messages\<close>

text \<open>The body \<open>NewJSONRPCRequest\<close> makes; \<open>params\<close> is the text of the marshalled parameters, if any.\<close>

definition NewJSONRPCRequest :: "string \<Rightarrow> string option \<Rightarrow> string" where
  "NewJSONRPCRequest method params = json_object
    ((case params of None \<Rightarrow> [] | Some p \<Rightarrow> [(''params'', p)]) @
     [(''jsonrpc'', json_string ''2.0''), (''method'', json_string method), (''id'', itoa 1)])"

record test_error =
  te_Message :: string
  te_Code :: int

record test_response =
  tr_Error :: "test_error option"
  tr_JSONRPC :: string
  tr_Result :: string
  tr_ID :: int

definition test_error_store :: "string \<Rightarrow> string \<Rightarrow> json \<Rightarrow> test_error \<Rightarrow> test_error option" where
  "test_error_store f raw v e =
    (if f = ''message'' then map_option (\<lambda>s. e\<lparr>te_Message := s\<rparr>) (set_string v (te_Message e))
     else map_option (\<lambda>n. e\<lparr>te_Code := n\<rparr>) (set_int64 v (te_Code e)))"

definition test_response_store :: "string \<Rightarrow> string \<Rightarrow> json \<Rightarrow> test_response \<Rightarrow> test_response option" where
  "test_response_store f raw v r =
    (if f = ''error'' then (case v of
       JNull \<Rightarrow> Some (r\<lparr>tr_Error := None\<rparr>)
     | _ \<Rightarrow> map_option (\<lambda>e. r\<lparr>tr_Error := Some e\<rparr>)
         (decode_struct test_error_store [''message'', ''code'']
           (case tr_Error r of None \<Rightarrow> \<lparr>te_Message = [], te_Code = 0\<rparr> | Some e \<Rightarrow> e) v))
     else if f = ''jsonrpc'' then map_option (\<lambda>s. r\<lparr>tr_JSONRPC := s\<rparr>) (set_string v (tr_JSONRPC r))
     else if f = ''result'' then Some (r\<lparr>tr_Result := raw\<rparr>)
     else map_option (\<lambda>n. r\<lparr>tr_ID := n\<rparr>) (set_int64 v (tr_ID r)))"

text \<open>\<open>None\<close>: the test fails.\<close>

definition ParseJSONRPCResponse :: "string \<Rightarrow> test_response option" where
  "ParseJSONRPCResponse doc = (case json_decode_stream doc False of
     None \<Rightarrow> None
   | Some v \<Rightarrow> decode_struct test_response_store [''error'', ''jsonrpc'', ''result'', ''id'']
       \<lparr>tr_Error = None, tr_JSONRPC = [], tr_Result = [], tr_ID = 0\<rparr> v)"

section \<open>Lemmas: forms\<close>

lemma hex_val_upper_hex: "d < 16 \<Longrightarrow> hex_val_any (upper_hex d) = Some d"
  by (auto simp: hex_val_any_def upper_hex_def)

lemma queryUnescape_percent:
  "queryUnescape (percent c @ r) = map_option (\<lambda>s. c # s) (queryUnescape r)"
proof -
  have "byte c div 16 < 16" "byte c mod 16 < 16"
  proof -
    have "byte c < 256" by simp
    then show "byte c div 16 < 16" by linarith
  qed simp
  moreover have "16 * (byte c div 16) + byte c mod 16 = byte c" by simp
  ultimately show ?thesis by (simp add: percent_def hex_val_upper_hex)
qed

lemma queryUnescape_escape1: "queryUnescape (queryEscape1 c @ r) = map_option (\<lambda>s. c # s) (queryUnescape r)"
  by (cases rule: queryEscape1_cases [of c]) (simp_all add: queryUnescape_percent)

lemma queryEscape_Cons: "queryEscape (c # s) = queryEscape1 c @ queryEscape s"
  by (simp add: queryEscape_def queryEscape1_def)

text \<open>\<open>url.QueryUnescape\<close> undoes \<open>url.QueryEscape\<close>.\<close>

lemma queryUnescape_queryEscape: "queryUnescape (queryEscape s) = Some s"
proof (induction s)
  case Nil
  then show ?case by (simp add: queryEscape_def)
next
  case (Cons c s)
  then show ?case by (simp add: queryEscape_Cons queryUnescape_escape1)
qed

lemma upper_hex_chars: "d < 16 \<Longrightarrow> upper_hex d \<notin> {CHR ''='', CHR ''&'', CHR '';''}"
  by (auto simp: upper_hex_def dest!: arg_cong [where f = byte] split: if_splits)

lemma queryEscape_chars: "c \<in> set (queryEscape s) \<Longrightarrow> c \<notin> {CHR ''='', CHR ''&'', CHR '';''}"
proof (induction s)
  case Nil
  then show ?case by (simp add: queryEscape_def)
next
  case (Cons x s)
  have "byte x div 16 < 16"
  proof -
    have "byte x < 256" by simp
    then show ?thesis by linarith
  qed
  then have "c \<notin> {CHR ''='', CHR ''&'', CHR '';''}" if "c \<in> set (queryEscape1 x)"
    using that upper_hex_chars [of "byte x div 16"] upper_hex_chars [of "byte x mod 16"]
    by (auto simp: queryEscape1_def percent_def unreserved_def is_alnum_def is_digit_def is_upper_def
        is_lower_def split: if_splits)
  with Cons show ?case by (auto simp: queryEscape_Cons)
qed

lemma takeWhile_dropWhile_mark:
  "c \<notin> set xs \<Longrightarrow> takeWhile (\<lambda>x. x \<noteq> c) (xs @ c # ys) = xs \<and> dropWhile (\<lambda>x. x \<noteq> c) (xs @ c # ys) = c # ys"
  by (induction xs) auto

text \<open>The server reads the form value the client encoded.\<close>

lemma parseQuery_form: "parseQuery (form_encode k v) = ([(k, v)], True)"
proof -
  have ne: "CHR ''='' \<notin> set (queryEscape k)" "CHR '';'' \<notin> set (form_encode k v)" "CHR ''&'' \<notin> set (form_encode k v)"
    using queryEscape_chars [of _ k] queryEscape_chars [of _ v] by (auto simp: form_encode_def)
  have "parse_pair (form_encode k v) = ([(k, v)], True)"
    using ne(2) takeWhile_dropWhile_mark [OF ne(1), of "queryEscape v"]
    by (simp add: parse_pair_def form_encode_def queryUnescape_queryEscape)
  with ne(3) show ?thesis by (simp add: parseQuery_def split_on_none)
qed

lemma queryEscape_length: "length (queryEscape s) \<le> 3 * length s"
proof (induction s)
  case Nil
  then show ?case by (simp add: queryEscape_def)
next
  case (Cons c s)
  have "length (queryEscape1 c) \<le> 3" by (simp add: queryEscape1_def percent_def)
  with Cons show ?case by (simp add: queryEscape_Cons)
qed

section \<open>Lemmas: answers\<close>

lemma serve_encodeTo:
  "response_of (w_conn (encodeTo doc (w_set_header (hset ''Content-Type'' ''application/json'') (Base new_response)))) =
    DoResp StatusOK [(''Content-Type'', [''application/json''])] (doc @ newline) False"
  by (simp add: encodeTo_def w_set_header_def new_response_def conn_Write_def conn_WriteHeader_def
      bodyAllowed_def response_of_def newline_def hset_def http_status Let_def)

lemma reads_as_json_bool: "reads_as (json_bool b) (JBool b) n"
  by (simp add: json_bool_def reads_as_bool)

lemma object_line:
  assumes "kvs \<noteq> []" "list_all2 (\<lambda>(k, v) x. reads_as v x 0) kvs xs" "\<forall>(k, v) \<in> set kvs. \<forall>c \<in> set k. byte c < 0x80"
  shows "json_decode_stream (json_object kvs @ newline) bad = Some (JObj (map2 (\<lambda>(k, v) x. (k, v, x)) kvs xs))"
proof -
  have "map2 (\<lambda>(k, v) x. (valid_utf8 k, v, x)) kvs xs = map2 (\<lambda>(k, v) x. (k, v, x)) kvs xs"
    using assms(3) by (auto intro!: map_cong valid_utf8_ascii dest: set_zip_leftD)
  with json_decode_line [OF reads_as_object [OF assms(1,2)], of bad] show ?thesis
    by (simp add: newline_def maxNestingDepth_def)
qed

lemma decision_of_mock:
  "decision_answer (DoResp StatusOK h (json_object [(''result'', json_bool b)] @ newline) False) = Inr b"
  using object_line [of "[(''result'', json_bool b)]" "[JBool b]" False]
  by (simp add: reads_as_json_bool decision_answer_def decode_struct_def field_name_def
      result_store_def set_bool_ptr_def)

definition mock_result :: "bool \<Rightarrow> string \<Rightarrow> introspection" where
  "mock_result active clientID =
    \<lparr>ir_ClientID = (if active then valid_utf8 clientID else []),
     ir_Scope = (if active then ''tools:read tools:call'' else []), ir_ExpiresAt = 0, ir_Active = active\<rparr>"

lemma introspection_of_mock:
  "introspect_answer (DoResp StatusOK h (hydra_response active clientID @ newline) False) =
    Inr (mock_result active clientID)"
proof -
  have sc: "valid_utf8 ''tools:read tools:call'' = ''tools:read tools:call''" by (rule valid_utf8_ascii) simp
  let ?kvs = "(''active'', json_bool active) #
     (if active then [(''client_id'', json_string clientID), (''scope'', json_string ''tools:read tools:call'')] else [])"
  let ?xs = "JBool active # (if active then [JStr (valid_utf8 clientID), JStr ''tools:read tools:call''] else [])"
  have "json_decode_stream (hydra_response active clientID @ newline) False =
      Some (JObj (map2 (\<lambda>(k, v) x. (k, v, x)) ?kvs ?xs))"
    unfolding hydra_response_def using reads_as_string [of "''tools:read tools:call''" 0] sc
    by (intro object_line) (auto simp: reads_as_json_bool reads_as_string)
  then show ?thesis
    by (cases active) (simp_all add: introspect_answer_def decode_struct_def ir_fields_def field_name_def
        ir_store_def set_string_def set_bool_def ir_zero_def mock_result_def)
qed

text \<open>The input document as the mock of OPA decodes it.\<close>

definition input_map :: "policy_input \<Rightarrow> (string \<rightharpoonup> json)" where
  "input_map i = [''client_id'' \<mapsto> JStr (valid_utf8 (in_ClientID i)), ''method'' \<mapsto> JStr (valid_utf8 (in_Method i))] ++
     (if in_ToolName i = [] then Map.empty else [''tool_name'' \<mapsto> JStr (valid_utf8 (in_ToolName i))]) ++
     (if in_Scopes i = [] then Map.empty
      else [''scopes'' \<mapsto> JArr (map (\<lambda>s. JStr (valid_utf8 s)) (in_Scopes i))])"

lemma members_map_input: "input_document i = JObj ms \<Longrightarrow> members_map ms = input_map i"
  by (cases "in_ToolName i = []"; cases "in_Scopes i = []")
    (auto simp: input_document_def input_members_def input_values_def members_map_def input_map_def
      fun_upd_twist)

lemma decode_payload_input: "decode_payload (Body (marshal_payload i) None) = Some (input_map i)"
proof -
  have "json_decode_stream (marshal_payload i) False =
      Some (JObj [(''input'', json_object (input_members i), input_document i)])"
    by (rule json_parse_decode [OF payload_reads_back])
  moreover obtain ms where "input_document i = JObj ms" by (simp add: input_document_def)
  ultimately show ?thesis
    using members_map_input by (simp add: decode_payload_def decode_struct_def field_name_def payload_store_def)
qed

lemma form_content: "isFormContent r" if "req_header r = [(''Content-Type'', [''application/x-www-form-urlencoded''])]"
proof -
  have "map to_lower (filter (\<lambda>c. c \<noteq> CHR '' '') (takeWhile (\<lambda>c. c \<noteq> CHR '';'') ''application/x-www-form-urlencoded'')) =
      ''application/x-www-form-urlencoded''" by code_simp
  with that show ?thesis by (simp add: isFormContent_def hget_def hvalues_def)
qed

section \<open>Properties\<close>

text \<open>
  C27: the client of the policy engine and the mock server agree on the protocol: whatever the decision
  function, \<open>Evaluate\<close> returns its value on the client id, method, tool and scopes of the input, the
  last two absent when empty.
\<close>

theorem evaluate_round_trip:
  assumes "parseRequestURI (oc_decisionURL c) = Some u" "u_path u = decisionPath"
    and "env_opa env = (\<lambda>_. serve (NewMockOPAServer decide))"
  shows "fst (Evaluate c env i s) = Inr (decide (input_map i))"
proof -
  obtain q where q: "policy_request c i = Some q" "out_method q = ''POST''" "out_url q = oc_decisionURL c"
    "out_body q = Body (marshal_payload i) None" by (simp add: policy_request_eq)
  obtain r where r: "delivered q = Some r" "req_path r = decisionPath" "req_method r = ''POST''"
    "req_body r = Body (marshal_payload i) None"
    using q assms(1,2) by (simp add: delivered_def)
  have "serve (NewMockOPAServer decide) q = DoResp StatusOK [(''Content-Type'', [''application/json''])]
      (json_object [(''result'', json_bool (decide (input_map i)))] @ newline) False"
    using r by (simp add: serve_def NewMockOPAServer_def decode_payload_input serve_encodeTo)
  then show ?thesis using q(1) assms(3) by (simp add: Evaluate_def decision_of_mock)
qed

lemma opa_url: "parseRequestURI ''http://opa:8181/v1/data/gateway/authz/allow'' =
    Some (empty_url\<lparr>u_scheme := ''http'', u_host := ''opa:8181'', u_path := ''/v1/data/gateway/authz/allow''\<rparr>)"
  by code_simp

theorem evaluate_round_trip_witness:
  "fst (Evaluate \<lparr>oc_decisionURL = ''http://opa:8181/v1/data/gateway/authz/allow''\<rparr>
     (demo_unreachable\<lparr>env_opa := (\<lambda>_. serve (NewMockOPAServer (\<lambda>m. m ''method'' = Some (JStr ''tools/list''))))\<rparr>)
     \<lparr>in_ClientID = ''agent'', in_Method = ''tools/list'', in_ToolName = [], in_Scopes = []\<rparr>
     \<lparr>wd_tick = 0, wd_cache = NewTokenCache [], wd_store = NewStore, wd_audit_out = [], wd_events = []\<rparr>) = Inr True"
proof -
  have "valid_utf8 ''tools/list'' = ''tools/list''" by (rule valid_utf8_ascii) simp
  with evaluate_round_trip [of "\<lparr>oc_decisionURL = ''http://opa:8181/v1/data/gateway/authz/allow''\<rparr>", simplified,
      OF opa_url]
  show ?thesis by (simp add: decisionPath_def input_map_def)
qed

text \<open>
  C28: the introspection client and the mock of Hydra agree on the protocol: whatever bytes a token has,
  the form encoding of the request is undone by the server, so that exactly the expected token is
  active, under the server's client id and scopes.
\<close>

theorem introspect_round_trip:
  assumes "parseRequestURI (hi_adminURL h @ introspectPath) = Some u" "u_path u = introspectPath" "u_rawQuery u = []"
    and "length token \<le> maxTokenLength"
    and "env_hydra env = (\<lambda>_. serve (NewMockHydraServerWithTokenValidation expectedToken clientID))"
  shows "fst (Introspect h env token s) = Inr (mock_result (token = expectedToken) clientID)"
proof -
  obtain q where q: "introspect_request h token = Some q" "out_method q = ''POST''"
    "out_url q = hi_adminURL h @ introspectPath" "out_body q = Body (form_encode ''token'' token) None"
    "out_header q = [(''Content-Type'', [''application/x-www-form-urlencoded''])]"
    by (rule that [OF introspect_request_eq]) (simp_all add: introspectPath_def)
  obtain r where r: "delivered q = Some r" "req_path r = introspectPath" "req_method r = ''POST''"
    "req_body r = Body (form_encode ''token'' token) None" "req_query r = []"
    "req_header r = [(''Content-Type'', [''application/x-www-form-urlencoded''])]"
    using q assms(1-3) by (simp add: delivered_def)
  have "length (form_encode ''token'' token) \<le> 3 * 5 + 1 + 3 * length token"
    using queryEscape_length [of "''token''"] queryEscape_length [of token] by (simp add: form_encode_def)
  then have "length (form_encode ''token'' token) \<le> maxFormSize"
    using assms(4) by (simp add: maxFormSize_def maxTokenLength_def)
  moreover have "parseQuery [] = ([], True)" by (simp add: parseQuery_def parse_pair_def)
  ultimately have "parseForm r = ([(''token'', token)], True)"
    using r form_content [OF r(6)] by (simp add: parseForm_def parsePostForm_def parseQuery_form)
  then have "serve (NewMockHydraServerWithTokenValidation expectedToken clientID) q =
      DoResp StatusOK [(''Content-Type'', [''application/json''])] (hydra_response (token = expectedToken) clientID @ newline) False"
    using r by (simp add: serve_def NewMockHydraServerWithTokenValidation_def formValue_def serve_encodeTo)
  then show ?thesis using q(1) assms(5) by (simp add: Introspect_def introspection_of_mock)
qed

lemma hydra_url: "parseRequestURI (''http://hydra:4445'' @ introspectPath) =
    Some (empty_url\<lparr>u_scheme := ''http'', u_host := ''hydra:4445'', u_path := introspectPath\<rparr>)"
  by code_simp

theorem introspect_round_trip_witness:
  "\<forall>s. fst (Introspect \<lparr>hi_adminURL = ''http://hydra:4445''\<rparr>
     (demo_unreachable\<lparr>env_hydra := (\<lambda>_. serve (NewMockHydraServerWithTokenValidation ''a+b&c=%'' ''agent''))\<rparr>)
     ''a+b&c=%'' s) = Inr (mock_result True ''agent'')"
proof
  fix s :: world
  have u: "parseRequestURI (hi_adminURL \<lparr>hi_adminURL = ''http://hydra:4445''\<rparr> @ introspectPath) =
      Some (empty_url\<lparr>u_scheme := ''http'', u_host := ''hydra:4445'', u_path := introspectPath\<rparr>)"
    using hydra_url by simp
  show "fst (Introspect \<lparr>hi_adminURL = ''http://hydra:4445''\<rparr>
     (demo_unreachable\<lparr>env_hydra := (\<lambda>_. serve (NewMockHydraServerWithTokenValidation ''a+b&c=%'' ''agent''))\<rparr>)
     ''a+b&c=%'' s) = Inr (mock_result True ''agent'')"
    using introspect_round_trip [OF u, of "''a+b&c=%''"
        "demo_unreachable\<lparr>env_hydra := (\<lambda>_. serve (NewMockHydraServerWithTokenValidation ''a+b&c=%'' ''agent''))\<rparr>"
        "''a+b&c=%''" "''agent''" s]
    by (simp add: empty_url_def maxTokenLength_def)
qed

lemma valid_utf8_Nil_iff: "valid_utf8 s = [] \<longleftrightarrow> s = []"
proof (cases s)
  case (Cons c r)
  have "encodeRune runeError \<noteq> []" by (simp add: encodeRune_def runeError_def)
  with Cons show ?thesis by (simp add: valid_utf8.simps(2) Let_def split: prod.split)
qed simp

text \<open>
  C29: \<open>Parse\<close> reads back every request a client marshals: the method (invalid UTF-8 replaced) and the
  parameters and id as the very text that was sent.
\<close>

theorem request_round_trip:
  assumes "method \<noteq> []" "\<And>p. params = Some p \<Longrightarrow> reads_as p x n" "n < maxNestingDepth"
  shows "Parse (NewJSONRPCRequest method params) =
    Inr \<lparr>Params = (case params of None \<Rightarrow> [] | Some p \<Rightarrow> p), JSONRPC = ''2.0'', Method = valid_utf8 method, ID = itoa 1\<rparr>"
proof -
  have ascii: "valid_utf8 ''params'' = ''params''" "valid_utf8 ''jsonrpc'' = ''jsonrpc''"
    "valid_utf8 ''method'' = ''method''" "valid_utf8 ''id'' = ''id''" "valid_utf8 ''2.0'' = ''2.0''"
    by (rule valid_utf8_ascii, simp)+
  let ?kvs = "(case params of None \<Rightarrow> [] | Some p \<Rightarrow> [(''params'', p)]) @
     [(''jsonrpc'', json_string ''2.0''), (''method'', json_string method), (''id'', itoa 1)]"
  let ?xs = "(case params of None \<Rightarrow> [] | Some p \<Rightarrow> [x]) @ [JStr ''2.0'', JStr (valid_utf8 method), JNum (itoa 1)]"
  have "list_all2 (\<lambda>(k, v) x. reads_as v x n) ?kvs ?xs"
    using assms(2) reads_as_string [of "''2.0''" n] ascii(5)
    by (auto simp: reads_as_string reads_as_itoa split: option.split)
  then have "reads_as (NewJSONRPCRequest method params) (JObj (map2 (\<lambda>(k, v) x. (valid_utf8 k, v, x)) ?kvs ?xs)) (Suc n)"
    unfolding NewJSONRPCRequest_def by (intro reads_as_object) simp_all
  then have "json_parse (NewJSONRPCRequest method params) = Some (JObj (map2 (\<lambda>(k, v) x. (valid_utf8 k, v, x)) ?kvs ?xs))"
    by (rule json_parse_reads_as [OF _ Suc_leI [OF assms(3)]])
  then have "unmarshal_request (NewJSONRPCRequest method params) = Some
      \<lparr>Params = (case params of None \<Rightarrow> [] | Some p \<Rightarrow> p), JSONRPC = ''2.0'', Method = valid_utf8 method, ID = itoa 1\<rparr>"
    by (cases params) (simp_all add: unmarshal_request_def decode_struct_def ascii rpc_fields_def field_name_def
        rpc_store_def set_string_def rpc_zero_def)
  then show ?thesis using assms(1) by (simp add: Parse_def valid_utf8_Nil_iff)
qed

theorem request_round_trip_witness:
  "\<exists>req. Parse (NewJSONRPCRequest ''tools/list'' (Some ''null'')) = Inr req \<and> Params req = ''null''"
  using request_round_trip [of "''tools/list''" "Some ''null''" JNull 0] reads_as_null
  by (simp add: maxNestingDepth_def)

text \<open>
  C30: a client reads back every error the gateway answers with: the message (invalid UTF-8 replaced), the
  code if it is a 64-bit number, the version, no result and, for the null id, the id 0.
\<close>

theorem error_round_trip:
  assumes "Marshal (NewErrorResponse [] code msg) = Some doc" "min_int64 \<le> code" "code \<le> max_int64"
  shows "ParseJSONRPCResponse doc = Some \<lparr>tr_Error = Some \<lparr>te_Message = valid_utf8 msg, te_Code = code\<rparr>,
    tr_JSONRPC = ''2.0'', tr_Result = [], tr_ID = 0\<rparr>"
proof -
  obtain err where e: "json_parse doc = Some (JObj
       [(''error'', err, JObj [(''message'', json_string msg, JStr (valid_utf8 msg)),
                               (''code'', itoa code, JNum (itoa code))]),
        (''jsonrpc'', json_string ''2.0'', JStr ''2.0''), (''id'', ''null'', JNull)])"
    using error_response_reads_back [of code msg] assms(1) by auto
  have "parseInt64 (itoa code) = Some code" using atoi_itoa [OF assms(2,3)] by (simp add: atoi_def)
  with json_parse_decode [OF e] show ?thesis
    by (simp add: ParseJSONRPCResponse_def decode_struct_def field_name_def test_response_store_def
        test_error_store_def set_string_def set_int64_def)
qed

theorem error_round_trip_witness:
  "\<exists>doc r. Marshal (NewErrorResponse [] CodeParseError ''bad'') = Some doc \<and> ParseJSONRPCResponse doc = Some r \<and>
     tr_Error r = Some \<lparr>te_Message = ''bad'', te_Code = -32700\<rparr>"
proof -
  obtain doc where d: "Marshal (NewErrorResponse [] CodeParseError ''bad'') = Some doc"
    using Marshal_error_response by blast
  have "valid_utf8 ''bad'' = ''bad''" by (rule valid_utf8_ascii) simp
  with error_round_trip [OF d] d show ?thesis
    by (simp add: CodeParseError_def min_int64_def max_int64_def)
qed

end
