(* ===== verification/Spec2Isabelle.thy ===== *)
theory Spec2Isabelle
  imports ConcurrentStore CacheTransparency ConcurrentRevocation Streaming CacheThreads AuditThreads MockServices
begin

text \<open>
  A model of secure-mcp-gateway, an HTTP reverse proxy that stands before an MCP server: it admits a
  request only with an OAuth2 token ORY Hydra calls active, asks the policy engine OPA about JSON-RPC
  calls, forwards what is allowed, relays the answer or an event stream, and keeps an audit log that a
  gRPC service can page through.  The Go code is in \<open>cmd/\<close> and \<open>internal/\<close>; every definition
  named below carries the name of the Go function it translates.

  \<^bold>\<open>How the parts interact.\<close>  \<open>run\<close> (\<open>main.go\<close>) loads the configuration, opens the log and builds
  the chain of handlers
    RequestID, audit middleware, auth middleware, policy middleware, multiplexer, proxy.
  A handler is a function of the environment, the request, the response writer and the world
  (\<open>World.handler\<close>) whose value is one of three outcomes: it returns, panics, or never returns
  (\<open>Prelude.go\<close>), each with the writer and the world it leaves.  A middleware takes the next handler.
  The world holds what requests share: the token cache, the ring buffer of audit entries, the audit
  log, the list of calls to services, and a counter of such calls.  The writer is the connection or a
  \<open>statusRecorder\<close> around another writer, as the audit middleware makes it.  The environment gives the
  answers of what is not part of the program: clock, random bytes, the order of map ranges, and Hydra,
  OPA and the MCP server as functions from a call number and a request to a result.

  \<^bold>\<open>Theories and sources.\<close>
    \<^item> Prelude, GoText, GoJson, GoUrl, Sha256, Http: what the code uses of the Go library: maps as
      association lists, UTF-8 and string routines, \<open>encoding/json\<close> (a parser with the nesting limit,
      decoding into structs with case-insensitive names, encoding of strings, objects and arrays),
      \<open>net/url\<close> and the multiplexer of \<open>net/http\<close>, SHA-256, headers, requests, bodies and writers.
      Http also holds the \<open>statusRecorder\<close> of \<open>internal/audit/middleware.go\<close>.
    \<^item> Jsonrpc: \<open>internal/jsonrpc/jsonrpc.go\<close>.
    \<^item> AuditStore, AuditEntry, AuditThreads: \<open>internal/audit/store.go\<close>, \<open>entry.go\<close>, \<open>logger.go\<close>; the
      last holds concurrent calls of \<open>Log\<close> and paging while entries arrive.  AuditText: the lines the
      JSON handler of \<open>slog\<close> writes for entries, and how they read back.
    \<^item> AuditMiddleware: \<open>internal/audit/requestid.go\<close>, \<open>middleware.go\<close>.
    \<^item> TokenCache, CacheThreads: \<open>internal/auth/cache.go\<close>, called in sequence and interleaved.
    \<^item> Token, AuthMiddleware: \<open>internal/auth/token.go\<close>, \<open>middleware.go\<close>.
    \<^item> Policy, PolicyMiddleware: \<open>internal/policy/policy.go\<close>, \<open>middleware.go\<close>.
    \<^item> Proxy, Streaming: \<open>internal/proxy/proxy.go\<close>; Responses: what any handler does to a writer.
    \<^item> Config: \<open>internal/config/config.go\<close>; GrpcServer: \<open>internal/grpcserver/server.go\<close>.
    \<^item> Gateway: \<open>cmd/secure-mcp-gateway/main.go\<close> and the lemmas about the whole chain; \<open>reach\<close> are the
      states that serving any requests one after the other can lead to.
    \<^item> AuthEffects, CacheTransparency, Revocation: what serving requests does to the token cache, and what
      the cache means for the caller: \<open>auth_reference\<close> is the auth middleware without a cache.
    \<^item> Interleave, AuditPhases, ConcurrentGateway: the same chain as one process of atomic steps for each request, with
      any number of requests served at the same time; \<open>pool_reach\<close> are the states this can lead to.
      A step is a critical section of the cache, the draw of an id, a line of the log, an append to the
      store, a call to Hydra or OPA, or what the proxy does.  \<open>implements_gateway\<close> shows that a process
      without interruption is the handler of Gateway.  AuditPhases follows when a request writes its line
      of the audit log (\<open>one_line\<close>).
    \<^item> ConcurrentRevocation: how long that server still accepts a token revoked at a time \<open>R\<close> when no
      request takes longer than \<open>d\<close> (\<open>revoked_at\<close>).
    \<^item> ConcurrentStore: log, store and cache of that server; its steps simulate those of AuditThreads.
    \<^item> MockServices: \<open>internal/testutil/testutil.go\<close>, the other end of the protocols.
    \<^item> Demo: one run of the whole gateway, computed, which the witnesses of the properties use.

  \<^bold>\<open>Interfaces.\<close>  Six locales state what a component promises its client; each is interpreted on the
  model of the code.  \<open>audit_log\<close> (AuditStore): the ring buffer is a bounded list of entries, newest
  first.  \<open>result_cache\<close> (TokenCache): what a lookup returns was stored under the key of the token.
  \<open>introspection\<close> (AuthMiddleware): an introspector calls nothing but Hydra, and a result it
  reports is an answer of Hydra about that token.  \<open>evaluation\<close> (PolicyMiddleware): an evaluator asks
  OPA about exactly its input.  \<open>steady_introspection\<close> (CacheTransparency) extends \<open>introspection\<close> by a
  service that does not change its mind.  \<open>auth_effects\<close> (AuthEffects): a relation between worlds that the
  three steps of the auth middleware keep, and so the whole gateway; it is interpreted on what Hydra is
  asked and on the age of the cached results.

  \<^bold>\<open>What is shown.\<close>  ConcurrentGateway, ConcurrentStore and ConcurrentRevocation hold what is true
  however requests interleave: nothing reaches the MCP server but what an active token and the policy allow, the
  audit log consists of one true and well-formed line for each answered request, the text of the log reads back
  as those lines whatever bytes clients send, no entry is lost between log and store, the cache stays
  bounded, and a revoked token is refused five minutes after the last request that can have seen it active.
  This theory holds that no URL made for the MCP server leaves its host, however requests interleave, and the
  properties of the composed gateway for one request in any reachable state: the policy decision for what is forwarded, what exactly is sent, which
  headers never leave the gateway, that each answered request makes one audit entry with the right
  decision, which a gRPC client then sees first, that log and store agree, and what run,
  startup and shutdown return; also the cases where
  the code does less than it means to (event-stream POSTs without a policy decision, requests that
  leave no entry, the write deadline that has no effect).  The other theories hold the properties of
  their components: the relayed answer and stream, and its termination (Streaming);
  bounds, life time and eviction of the cache and its safety under interleaving (TokenCache,
  CacheThreads); that the cache changes no decision while Hydra's answers stay the same (CacheTransparency); the store as a bounded log and its pages, also while other threads log (AuditStore,
  GrpcServer, AuditThreads); failing closed (PolicyMiddleware, Token, Policy); the round trips between both
  ends of each protocol (MockServices); request ids and body limits (AuditMiddleware).

  \<^bold>\<open>Machine integers, loops and fuel.\<close>  The 32-bit fields of the gRPC messages are words; indices and
  counters of the ring buffer stay below 10000 (proved in the invariant) and are naturals; times are
  integer nanoseconds, with the saturation of \<open>time.Sub\<close> written out, and the sum of a clock reading
  and a life time is not wrapped, as Go keeps it in a wider type.  The relay loop of an event stream
  may run forever, so \<open>sse_loop\<close> is a \<open>partial_function\<close> whose value \<open>None\<close> is the handler that
  does not return.  The JSON parser takes fuel, one more than twice the length of its input, which
  is enough (\<open>jval_fuel\<close>).  The client that follows page tokens takes as fuel the number
  of pages it may fetch, and the properties show that 10001 always suffice.

  \<^bold>\<open>Assumptions\<close> on what is outside the program, as hypotheses of the theorems that need them: the
  order of a map range is a permutation (\<open>is_range\<close>); response headers of the MCP server have distinct
  canonical names, as \<open>net/http\<close> makes them (\<open>wf_header\<close>; \<open>wf_env\<close> says both); the path of a request is the
  decoded form of its escaped path (\<open>wf_path\<close>); a random draw has 16 bytes; the time of a log record is a
  text without escapes (\<open>plain_text\<close>); for the transparency of the cache Hydra's answer depends on the token
  only (\<open>steady_hydra\<close>) and no two tokens it was asked about share a SHA-256 hash.

  \<^bold>\<open>Not modelled.\<close>  Operational log lines (\<open>slog\<close>); listeners; the time-outs of the HTTP server and
  clients, except as configuration and for the write deadline (a call that times out is a call without an
  answer); redirects: both clients follow those the MCP server answers with, as \<open>net/http\<close> does without
  \<open>CheckRedirect\<close>, so that the answer of a call is what the client returns in the end; that
  \<open>MaxBytesReader\<close> makes the server close the connection after a body that is too long; cancellation of a
  request's context; the rules
  of the HTTP server on Content-Length and bodies of HEAD responses; headers the HTTP client adds;
  the gRPC transport and the generated code under \<open>gen/\<close>; the Rego policies under \<open>policies/\<close>, which
  OPA evaluates; parameters of media types beyond what \<open>buildInput\<close> looks at.  What the proxy does for
  one request, from the clock to the last byte relayed, is one step of Interleave: it touches nothing
  that other requests share but the MCP server.  The multiplexer redirects as that of Go 1.26 does (status 307).
\<close>

section \<open>Authentication and authorization of the whole chain\<close>

text \<open>
  In every state the gateway can reach, serving a request sends something to the MCP server only
  if the request carries a bearer token which Hydra, now or in an earlier request, reported as
  active; and then it sends one request.  The health check sends nothing.
\<close>

lemma upstream_needs_active_token:
  assumes "startup getenv open_file listen = Inr gw" "reach gw s" "wf_path r"
    and "go_state (gateway_Handler gw env r w s) = (w', s')"
    and "upstream_events s' \<noteq> upstream_events s"
  shows "\<exists>token result ev. extractBearerToken r = Inr token \<and> ir_Active result \<and>
    introspected (wd_events s') (hashToken token) result \<and>
    upstream_events s' = upstream_events s @ [ev] \<and> req_path r \<noteq> ''/health''"
  by (rule gateway_sends [OF assms(1) reach_provenance [OF assms(1,2)] assms(3,4)])
    (use assms(5) in auto)

text \<open>
  C5: a POST that is forwarded as an ordinary request was allowed by the policy engine, and what the
  engine was asked about is what is forwarded: the identity of the token and the method and tool of
  the very body (the first 1 MiB of what the client sent) that goes upstream.
\<close>

theorem forwarded_post_was_allowed:
  assumes "startup getenv open_file listen = Inr gw" "reach gw s" "wf_path r" "req_method r = ''POST''"
    and "go_state (gateway_Handler gw env r w s) = (w', s')"
    and "upstream_events s' = upstream_events s @ [Ev_Upstream q]"
  shows "\<exists>token result d e i. extractBearerToken r = Inr token \<and> ir_Active result \<and>
    introspected (wd_events s') (hashToken token) result \<and> req_body r = Body d e \<and>
    out_body q = (if d = [] then NilBody else restored (take maxRequestSize d)) \<and>
    input_of (with_token result r) (take maxRequestSize d) = Some i \<and> opa_allowed (wd_events s') i"
proof (rule gateway_sends [OF assms(1) reach_provenance [OF assms(1,2)] assms(3,5)])
  assume "upstream_events s' = upstream_events s"
  with assms(6) show ?thesis by simp
next
  fix token result ev j r' b
  assume ue: "upstream_events s' = upstream_events s @ [ev]"
    and tok: "extractBearerToken r = Inr token" "ir_Active result"
      "introspected (wd_events s') (hashToken token) result"
    and aud: "audited (WithRequestID j r) = Some r'"
    and fw: "forwarded (gw_server gw) ((with_token result r')\<lparr>req_body := b\<rparr>) ev"
    and pp: "policy_passed (wd_events s') (with_token result r') b"
  have "ev = Ev_Upstream q" using ue assms(6) by simp
  with fw have fw': "forwarded (gw_server gw) ((with_token result r')\<lparr>req_body := b\<rparr>) (Ev_Upstream q)" by simp
  obtain d e i where "req_body r = Body d e" "input_of (with_token result r) (take maxRequestSize d) = Some i"
    "out_body q = (if d = [] then NilBody else restored (take maxRequestSize d))"
    "opa_allowed (wd_events s') i"
    by (rule forwarded_post_input [OF aud assms(4) fw' pp])
  with tok show ?thesis by blast
qed

theorem forwarded_post_was_allowed_witness:
  "\<exists>gw w' s' q i.
     gateway_Handler gw (demo_env ''true'') demo_post (Base demo_conn) init_world = Ret (w', s') \<and>
     upstream_events s' = [Ev_Upstream q] \<and> opa_allowed (wd_events s') i"
proof -
  obtain gw w' s' q where gw: "startup demo_getenv (\<lambda>_. None) (\<lambda>_. None) = Inr gw"
    and run: "gateway_Handler gw (demo_env ''true'') demo_post (Base demo_conn) init_world = Ret (w', s')"
      "upstream_events s' = upstream_events init_world @ [Ev_Upstream q]" by (rule demo_served)
  with forwarded_post_was_allowed [OF gw reach_init demo_post_fields(1,2), of "demo_env ''true''" "Base demo_conn" w' s' q]
  show ?thesis by (auto simp: init_fields)
qed

text \<open>
  For a request whose content is not declared as JSON the policy engine plays no part: the chain
  does the same whatever the engine would answer.
\<close>

lemma policy_engine_ignored_without_json:
  assumes "startup getenv open_file listen = Inr gw" "\<not> is_json r"
  shows "gateway_Handler gw (env\<lparr>env_opa := f\<rparr>) r w s = gateway_Handler gw env r w s"
proof -
  obtain h c where gw: "gateway_Handler gw =
      RequestIDMiddleware (audit_Handler main_audit (guarded h c (gw_server gw)))"
    using startup_chain [OF assms(1)] by metis
  have "\<not> is_json (WithRequestID i r)" for i using assms(2) by (simp add: is_json_def)
  then show ?thesis by (simp add: gw RequestIDMiddleware_def audit_guarded_opa opa_free Let_def
      cong: if_cong)
qed

text \<open>An event-stream POST that is not JSON goes from the policy middleware straight to the relay.\<close>

lemma policy_sse_post:
  assumes "mux_route r = RouteProxy" "req_path r \<noteq> ''/health''" "req_method r = ''POST''" "\<not> is_json r"
    "isSSERequest r" "isFlusher w"
  obtains q where "snd (go_state (policy_Handler (main_policy c) (mux_ServeHTTP srv) env r w s)) = emit (Ev_SSE q) s"
    "out_method q = ''POST''" "out_body q = req_body r"
proof -
  obtain q where q: "proxy_request srv r (req_body r) = Some q"
    using assms(3) by (simp add: proxy_request_def newRequest_def validMethod_POST)
  have "policy_Handler (main_policy c) (mux_ServeHTTP srv) env r w s = handleSSE srv env r w s"
    using assms by (simp add: policy_Handler_def buildInput_def mux_ServeHTTP_def handleProxy_def)
  moreover have "snd (go_state (handleSSE srv env r w s)) = emit (Ev_SSE q) s"
    using assms(6) q by (auto simp: handleSSE_def Let_def split: stream_result.split option.split)
  ultimately show ?thesis using proxy_request_fields [OF q] assms(3) by (intro that [of q]) simp_all
qed

text \<open>Behind the audit middleware such a request is refused with 401 or relayed with its body.\<close>

lemma mux_route_cong:
  "req_escaped r' = req_escaped r \<Longrightarrow> req_method r' = req_method r \<Longrightarrow> req_query r' = req_query r \<Longrightarrow>
    mux_route r' = mux_route r"
  by (simp only: mux_route_def)

lemma guarded_sse_post:
  assumes "provenance s" "pending [] w" "w = StatusRecorder w0 x n"
    and "mux_route r = RouteProxy" "req_path r \<noteq> ''/health''" "req_method r = ''POST''" "\<not> is_json r" "isSSERequest r"
    and "go_state (guarded h c srv env r w s) = (rec, s')"
  obtains (denied) c' hd where "upstream_events s' = upstream_events s" "inner_writer rec = Base c'"
      "c_sent c' = Some (StatusUnauthorized, hd)"
    | (relayed) q where "upstream_events s' = upstream_events s @ [Ev_SSE q]" "out_method q = ''POST''"
      "out_body q = req_body r"
proof -
  let ?next = "policy_Handler (main_policy c) (mux_ServeHTTP srv)"
  have am: "am_introspector (main_auth h) = Introspect h" by simp
  show ?thesis
  proof (rule hydra.auth_Handler_cases [OF am assms(1), of r ?next env w])
    assume "req_path r \<in> set (am_skipPaths (main_auth h))"
    with assms(5) show ?thesis by simp
  next
    fix d s1 assume d: "auth_Handler (main_auth h) ?next env r w s = Ret (writeUnauthorized w d, s1)"
      "upstream_events s1 = upstream_events s"
    obtain c' hd where "inner_writer (writeUnauthorized w d) = Base c'" "c_sent c' = Some (StatusUnauthorized, hd)"
      by (rule denied_response [OF assms(2)])
    with d assms(9) show ?thesis by (intro denied) (auto simp: guarded_def)
  next
    fix token result s1
    assume eq: "auth_Handler (main_auth h) ?next env r w s = ?next env (with_token result r) (with_audit_id result w) s1"
      and u: "upstream_events s1 = upstream_events s"
    have "mux_route (with_token result r) = mux_route r" by (rule mux_route_cong) simp_all
    with assms(4) have route: "mux_route (with_token result r) = RouteProxy" by simp
    have f: "req_path (with_token result r) \<noteq> ''/health''"
      "req_method (with_token result r) = ''POST''" "\<not> is_json (with_token result r)"
      "isSSERequest (with_token result r)" "isFlusher (with_audit_id result w)"
      using assms(3,5-8) by (simp_all add: is_json_def isSSERequest_def with_audit_id_def w_set_header_def)
    obtain q where "snd (go_state (guarded h c srv env r w s)) = emit (Ev_SSE q) s1" "out_method q = ''POST''"
      "out_body q = req_body (with_token result r)"
      by (rule policy_sse_post [OF route f, of c srv env s1]) (simp_all add: guarded_def eq)
    with assms(9) u show ?thesis by (intro relayed) (auto simp: upstream_events_def emit_def)
  qed
qed

text \<open>
  C9: only authentication stands before a POST whose content type is not JSON and that asks for an event
  stream: whatever the policy engine would answer, it is refused with 401 or its body, up to the limit
  of 1 MiB, is sent to the MCP server.  In the witness the engine denies every input.
\<close>

theorem sse_post_bypasses_policy:
  assumes "startup getenv open_file listen = Inr gw" "reach gw s" "new_conn c0"
    and "mux_route r = RouteProxy" "req_path r \<noteq> ''/health''"
    and "req_method r = ''POST''" "\<not> is_json r" "isSSERequest r"
    and "go_state (gateway_Handler gw env r (Base c0) s) = (w', s')"
  shows "go_state (gateway_Handler gw (env\<lparr>env_opa := f\<rparr>) r (Base c0) s) = (w', s') \<and>
    (upstream_events s' = upstream_events s \<and> (\<exists>c' h. w' = Base c' \<and> c_sent c' = Some (StatusUnauthorized, h)) \<or>
     (\<exists>q. upstream_events s' = upstream_events s @ [Ev_SSE q] \<and> out_method q = ''POST'' \<and>
        out_body q = maxBytesReader maxRequestSize (req_body r)))"
proof -
  obtain h c where gw: "gateway_Handler gw =
      RequestIDMiddleware (audit_Handler main_audit (guarded h c (gw_server gw)))"
    using startup_chain [OF assms(1)] by metis
  obtain i s1 where rid: "gateway_Handler gw env r (Base c0) s =
      audit_Handler main_audit (guarded h c (gw_server gw)) env (WithRequestID i r)
        (w_set_header (hset RequestIDHeader i) (Base c0)) s1" and c1: "calls_only s s1"
    using RequestID_step [of "audit_Handler main_audit (guarded h c (gw_server gw))" env r "Base c0" s] gw
    by metis
  define r' where "r' = (WithRequestID i r)\<lparr>req_body := maxBytesReader maxRequestSize (req_body r)\<rparr>"
  have prep: "audit_prepare (WithRequestID i r) = Some (unknownValue, r')"
    using assms(6,7) by (simp add: audit_prepare_def audit_extractToolName_def is_json_def r'_def)
  define w where "w = StatusRecorder (w_set_header (hset RequestIDHeader i) (Base c0)) [] 0"
  define g where "g = guarded h c (gw_server gw) env r' w s1"
  obtain rec s2 where g2: "go_state g = (rec, s2)" by fastforce
  have run: "w' = inner_writer rec" "upstream_events s' = upstream_events s2"
    using rid assms(5,9) prep g2
    by (cases g; auto simp: audit_Handler_def g_def [symmetric] w_def [symmetric] audit_log_request_frame upstream_events_def)+
  note p1 = provenance_calls [OF reach_provenance [OF assms(1,2)] c1] and u1 = calls_only_upstream [OF c1]
  have pw: "pending [] w" unfolding w_def by (rule pending_new [OF assms(3) audit_free_requestID])
  have "mux_route r' = mux_route r" by (rule mux_route_cong) (simp_all add: r'_def)
  with assms(4) have route: "mux_route r' = RouteProxy" by simp
  have f: "req_path r' \<noteq> ''/health''" "req_method r' = ''POST''" "\<not> is_json r'"
    "isSSERequest r'" using assms(5-8) by (simp_all add: r'_def is_json_def isSSERequest_def)
  show ?thesis
  proof (rule guarded_sse_post [OF p1 pw w_def route f g2 [unfolded g_def]])
  qed (use policy_engine_ignored_without_json [OF assms(1,7)] assms(9) run u1 in \<open>simp_all add: r'_def\<close>)
qed

theorem sse_post_bypasses_policy_witness:
  "\<exists>gw w' s' q.
    go_state (gateway_Handler gw (demo_env ''false'') demo_sse (Base demo_conn) init_world) = (w', s') \<and>
    upstream_events s' = [Ev_SSE q] \<and> out_body q = Body demo_body None \<and>
    (\<forall>t p. decision_answer (env_opa (demo_env ''false'') t p) = Inr False)"
proof -
  obtain gw where gw: "startup demo_getenv (\<lambda>_. None) (\<lambda>_. None) = Inr gw" using demo_startup by blast
  obtain w' s' q where run: "gateway_Handler gw (demo_env ''false'') demo_sse (Base demo_conn) init_world = Ret (w', s')"
    "upstream_events s' = [Ev_SSE q]" by (rule demo_sse_run [OF gw])
  have st: "go_state (gateway_Handler gw (demo_env ''false'') demo_sse (Base demo_conn) init_world) = (w', s')"
    using run by simp
  have path: "req_path demo_sse \<noteq> ''/health''" by (simp add: demo_sse_fields)
  have "decision_answer (env_opa (demo_env ''false'') t p) = Inr False" for t p
    using opa_answer [OF reads_as_bool(2)] by (simp add: demo_env_def demo_env_with_def)
  moreover have "maxBytesReader maxRequestSize (req_body demo_sse) = Body demo_body None"
    using length_demo_body by (simp add: demo_sse_fields)
  ultimately show ?thesis
    using sse_post_bypasses_policy [OF gw reach_init new_demo_conn demo_sse_fields(6) path demo_sse_fields(2-4) st] st run(2)
    by (intro exI [of _ gw] exI [of _ w'] exI [of _ s'] exI [of _ q]) (simp add: init_fields)
qed

text \<open>
  C10: whatever is sent upstream has the client's headers except the excluded ones, value by value,
  and no others: neither the bearer token nor the internal audit header leaves the gateway.  Its URL
  is the configured one joined with the path of the request.
\<close>

theorem upstream_request_exact:
  assumes "startup getenv open_file listen = Inr gw" "reach gw s" "wf_path r" "wf_header (req_header r)"
    and "go_state (gateway_Handler gw env r w s) = (w', s')"
    and "upstream_events s' = upstream_events s @ [ev]" "ev = Ev_Upstream q \<or> ev = Ev_SSE q"
  shows "hvalues (out_header q) k = (if k \<in> set excludedHeaders then [] else hvalues (req_header r) k) \<and>
    out_url q = target_url (gw_server gw) r"
proof (rule gateway_sends [OF assms(1) reach_provenance [OF assms(1,2)] assms(3,5)])
  assume "upstream_events s' = upstream_events s"
  with assms(6) show ?thesis by simp
next
  fix token result ev' j r' b
  assume "upstream_events s' = upstream_events s @ [ev']" and aud: "audited (WithRequestID j r) = Some r'"
    and fw: "forwarded (gw_server gw) ((with_token result r')\<lparr>req_body := b\<rparr>) ev'"
  with assms(6,7) obtain b' where
    q: "proxy_request (gw_server gw) ((with_token result r')\<lparr>req_body := b\<rparr>) b' = Some q"
    by fastforce
  obtain b'' where "r' = (WithRequestID j r)\<lparr>req_body := b''\<rparr>" using audited_frame [OF aud] by blast
  then show ?thesis
    using proxy_request_fields [OF q] assms(4) by (simp add: hvalues_copyHeaders target_url_def)
qed

theorem upstream_request_exact_witness:
  "\<exists>gw w' s' q.
     gateway_Handler gw (demo_env ''true'') demo_post (Base demo_conn) init_world = Ret (w', s') \<and>
     upstream_events s' = [Ev_Upstream q] \<and> hvalues (out_header q) ''Authorization'' = [] \<and>
     hvalues (out_header q) ''Content-Type'' = [''application/json'']"
proof -
  obtain gw w' s' q where gw: "startup demo_getenv (\<lambda>_. None) (\<lambda>_. None) = Inr gw"
    and run: "gateway_Handler gw (demo_env ''true'') demo_post (Base demo_conn) init_world = Ret (w', s')"
      "upstream_events s' = upstream_events init_world @ [Ev_Upstream q]" by (rule demo_served)
  have st: "go_state (gateway_Handler gw (demo_env ''true'') demo_post (Base demo_conn) init_world) = (w', s')"
    using run by simp
  have "hvalues (out_header q) k = (if k \<in> set excludedHeaders then [] else hvalues (req_header demo_post) k)" for k
    using upstream_request_exact [OF gw reach_init demo_post_fields(1,5) st run(2)] by simp
  then have "hvalues (out_header q) ''Authorization'' = []"
    "hvalues (out_header q) ''Content-Type'' = [''application/json'']"
    by (simp_all add: excludedHeaders_def demo_post_def demo_request_def hvalues_def)
  with run show ?thesis by (auto simp: init_fields)
qed

text \<open>
  C33: no request can choose the server it is sent to: every URL the gateway hands to its HTTP client for
  the MCP server, of a forwarded request or an event stream, in any interleaving of requests, starts with
  the scheme, user and host of the configured URL, and what follows the host is nothing or starts with a
  slash or a query.  (Redirects that the MCP server itself answers with are followed by \<open>net/http\<close>.)
\<close>

theorem upstream_authority_fixed:
  assumes "startup getenv open_file listen = Inr gw"
    and "parseRequestURI (getenv ''UPSTREAM_MCP_URL'') = Some u" "u_host u \<noteq> []"
    and "pool_reach h c (gw_server gw) \<pi>"
    and "ev \<in> set (wd_events (pl_world \<pi>))" "ev = Ev_Upstream q \<or> ev = Ev_SSE q"
  shows "\<exists>rest. out_url q = u_scheme u @ ''://'' @ (case u_user u of None \<Rightarrow> [] | Some i \<Rightarrow> i @ ''@'') @
      escapeHost (u_host u) @ rest \<and>
    (rest = [] \<or> hd rest = CHR ''/'' \<or> hd rest = CHR ''?'')"
proof -
  let ?srv = "gw_server gw"
  have u: "parseRequestURI (getenv ''UPSTREAM_MCP_URL'') = Some (upstreamURL ?srv)" "upstreamURL ?srv = u"
    using startup_chain [OF assms(1)] assms(2) by (metis option.inject)+
  have "is_upstream ev" using assms(6) by auto
  then obtain r pre where "authorized ?srv r pre ev" by (rule sent_authorized [OF assms(4,5)])
  then obtain r' where "forwarded ?srv r' ev" unfolding authorized_def by blast
  with assms(6) obtain b where "proxy_request ?srv r' b = Some q" by fastforce
  from proxy_request_fields(3) [OF this] target_authority [OF u(1), of r'] u(2) assms(3) show ?thesis by metis
qed

text \<open>The demonstration request, sent to the configured server.\<close>

theorem upstream_authority_fixed_witness:
  "\<exists>gw h c \<pi> q rest. startup demo_getenv (\<lambda>_. None) (\<lambda>_. None) = Inr gw \<and> pool_reach h c (gw_server gw) \<pi> \<and>
     Ev_Upstream q \<in> set (wd_events (pl_world \<pi>)) \<and> out_url q = ''http://mcp:3000'' @ rest"
proof -
  obtain gw w' s' q where gw: "startup demo_getenv (\<lambda>_. None) (\<lambda>_. None) = Inr gw"
    and run: "gateway_Handler gw (demo_env ''true'') demo_post (Base demo_conn) init_world = Ret (w', s')"
      "upstream_events s' = upstream_events init_world @ [Ev_Upstream q]" by (rule demo_served)
  obtain h c \<pi> ow where \<pi>: "pool_reach h c (gw_server gw) \<pi>" "pl_world \<pi> = s'"
    by (rule pool_of_run [OF gw demo_post_fields(1,4) new_demo_conn wf_demo_env run(1)])
  have "Ev_Upstream q \<in> set (wd_events s')" using arg_cong [OF run(2), of set] by (auto simp: upstream_events_def)
  with \<pi>(2) have e: "Ev_Upstream q \<in> set (wd_events (pl_world \<pi>))" by simp
  have u: "parseRequestURI (demo_getenv ''UPSTREAM_MCP_URL'') = Some demo_upstream"
    by (simp add: demo_getenv_def demo_urls)
  have h: "u_host demo_upstream \<noteq> []" by (simp add: demo_upstream_def)
  have a: "escapeHost ''mcp:3000'' = ''mcp:3000''" by code_simp
  from upstream_authority_fixed [OF gw u h \<pi>(1) e, of q] a
  obtain rest where "out_url q = ''http://mcp:3000'' @ rest" by (auto simp: demo_upstream_def empty_url_def)
  with gw \<pi>(1) e show ?thesis by blast
qed

section \<open>Audit\<close>

text \<open>
  C8: every request the gateway answers, except the health check, adds exactly one entry to the store
  and one line to the log.  The entry says DENY exactly when the recorded status is 401 or 403, and a
  final status is the one that was sent to the client.  A gRPC client that then asks for the first page, of
  whatever size, gets the entry first.
\<close>

theorem one_audit_entry_per_request:
  assumes "startup getenv open_file listen = Inr gw" "reach gw s" "req_path r \<noteq> ''/health''"
    and "wf_env env" "new_conn c0" "req_tokenInfo r = None"
    and "gateway_Handler gw env r (Base c0) s = Ret (w', s')"
  shows "\<exists>e c' st. w' = Base c' \<and> wd_store s' = Append e (wd_store s) \<and>
    wd_audit_out s' = wd_audit_out s @ [log_attrs e] \<and>
    (e_Decision e = DecisionDeny \<longleftrightarrow> st = StatusUnauthorized \<or> st = StatusForbidden) \<and>
    (final_status st \<longrightarrow> (\<exists>h. c_sent c' = Some (st, h))) \<and>
    e_Metadata e = metadata_of r st \<and> length (e_ToolName e) \<le> maxHeaderValueLen \<and>
    (\<forall>size. \<exists>resp. ListAuditLogs (wd_store s') \<lparr>rq_PageToken = [], rq_PageSize = size\<rparr> = Some (Inr resp) \<and>
       (\<exists>older. rs_AuditLogs resp = log_msg e # older))"
proof (rule gateway_audit [OF assms(1,3) reach_provenance [OF assms(1,2)] assms(4-7)])
  fix e c' st
  assume a: "w' = Base c'" "wd_store s' = Append e (wd_store s)"
    "wd_audit_out s' = wd_audit_out s @ [log_attrs e]" "e_Decision e = decision_of st" "100 \<le> st"
    "final_status st \<Longrightarrow> \<exists>h. c_sent c' = Some (st, h)" "e_Metadata e = metadata_of r st"
    "length (e_ToolName e) \<le> maxHeaderValueLen"
  show ?thesis
  proof (rule exI [of _ e], rule exI [of _ c'], rule exI [of _ st], intro conjI allI impI)
    show "e_Decision e = DecisionDeny \<longleftrightarrow> st = StatusUnauthorized \<or> st = StatusForbidden"
      using a(4,5) by (simp add: decision_of_def effectiveStatus_def)
    show "\<exists>resp. ListAuditLogs (wd_store s') \<lparr>rq_PageToken = [], rq_PageSize = size\<rparr> = Some (Inr resp) \<and>
       (\<exists>older. rs_AuditLogs resp = log_msg e # older)" for size
      unfolding a(2) by (rule ListAuditLogs_newest [OF reach_store [OF assms(1,2)]])
  qed (use a in simp_all)
qed

theorem one_audit_entry_per_request_witness:
  "\<exists>gw s' c' e. gateway_Handler gw (demo_env ''true'') demo_post (Base demo_conn) init_world = Ret (Base c', s') \<and>
     wd_store s' = Append e NewStore \<and> wd_audit_out s' = [log_attrs e]"
proof -
  obtain gw w' s' q where gw: "startup demo_getenv (\<lambda>_. None) (\<lambda>_. None) = Inr gw"
    and run: "gateway_Handler gw (demo_env ''true'') demo_post (Base demo_conn) init_world = Ret (w', s')"
      "upstream_events s' = upstream_events init_world @ [Ev_Upstream q]" by (rule demo_served)
  from one_audit_entry_per_request [OF gw reach_init demo_post_fields(3) wf_demo_env new_demo_conn
      demo_post_fields(4) run(1)]
  obtain e c' where "w' = Base c'" "wd_store s' = Append e NewStore" "wd_audit_out s' = [log_attrs e]"
    by (auto simp: init_fields)
  with run show ?thesis by blast
qed

text \<open>
  The identity in the audit trail is the one Hydra vouches for: an answered request is either
  refused with 401, sends nothing upstream and is logged for the client \<open>unknown\<close>, or it carries the
  token of a client, and is logged for that client (\<open>unknown\<close> if Hydra names none).
\<close>

lemma audit_identity:
  assumes "startup getenv open_file listen = Inr gw" "reach gw s" "req_path r \<noteq> ''/health''"
    and "wf_env env" "new_conn c0" "req_tokenInfo r = None"
    and "gateway_Handler gw env r (Base c0) s = Ret (w', s')"
  shows "\<exists>e. wd_store s' = Append e (wd_store s) \<and>
    ((\<exists>c' h. w' = Base c' \<and> c_sent c' = Some (StatusUnauthorized, h)) \<and> e_ClientID e = unknownValue \<and>
       e_Decision e = DecisionDeny \<and> upstream_events s' = upstream_events s \<or>
     (\<exists>token result. extractBearerToken r = Inr token \<and> ir_Active result \<and>
       introspected (wd_events s') (hashToken token) result \<and>
       e_ClientID e = (if ir_ClientID result = [] then unknownValue else ir_ClientID result)))"
proof (rule gateway_audit [OF assms(1,3) reach_provenance [OF assms(1,2)] assms(4-7)])
  fix e c' st
  assume e: "w' = Base c'" "wd_store s' = Append e (wd_store s)" "e_Decision e = decision_of st"
    and sent: "final_status st \<Longrightarrow> \<exists>h. c_sent c' = Some (st, h)"
    and who: "e_ClientID e = unknownValue \<and> st = StatusUnauthorized \<and> upstream_events s' = upstream_events s \<or>
     (\<exists>token result. extractBearerToken r = Inr token \<and> ir_Active result \<and>
        introspected (wd_events s') (hashToken token) result \<and>
        e_ClientID e = (if ir_ClientID result = [] then unknownValue else ir_ClientID result))"
  from who show ?thesis
  proof
    assume 401: "e_ClientID e = unknownValue \<and> st = StatusUnauthorized \<and> upstream_events s' = upstream_events s"
    then have "final_status st" by (simp add: final_status_def http_status)
    with sent 401 e have "\<exists>c' h. w' = Base c' \<and> c_sent c' = Some (StatusUnauthorized, h)" by blast
    moreover have "e_Decision e = DecisionDeny"
      using 401 e(3) by (simp add: decision_of_def effectiveStatus_def http_status)
    ultimately show ?thesis using 401 e by blast
  qed (use e in blast)
qed

text \<open>
  C12: the trail has gaps: a request whose handler panics or streams on leaves no entry.  The witness
  is a request that was forwarded before the panic (the MCP server answered with status 099).
\<close>

theorem unfinished_requests_are_not_audited:
  assumes "startup getenv open_file listen = Inr gw" "reach gw s" "req_path r \<noteq> ''/health''"
    and "gateway_Handler gw env r (Base c0) s = Panic (w', s') \<or> gateway_Handler gw env r (Base c0) s = Hang (w', s')"
  shows "wd_store s' = wd_store s \<and> wd_audit_out s' = wd_audit_out s"
  using gateway_unfinished [OF assms(1,3) reach_provenance [OF assms(1,2)] assms(4)]
  by (simp add: unaudited_def)

theorem unfinished_requests_are_not_audited_witness:
  "\<exists>gw w' s' q. gateway_Handler gw (demo_env_with ''true'' (DoResp 99 [] [] False) StreamErr)
       (demo_request ''GET'' [] []) (Base demo_conn) init_world = Panic (w', s') \<and>
     upstream_events s' = [Ev_Upstream q] \<and> wd_store s' = NewStore \<and> wd_audit_out s' = []"
proof -
  obtain gw where gw: "startup demo_getenv (\<lambda>_. None) (\<lambda>_. None) = Inr gw" using demo_startup by blast
  obtain w' s' q where run: "gateway_Handler gw (demo_env_with ''true'' (DoResp 99 [] [] False) StreamErr)
       (demo_request ''GET'' [] []) (Base demo_conn) init_world = Panic (w', s')"
    "upstream_events s' = [Ev_Upstream q]" using demo_panic_run [OF gw] by blast
  have "req_path (demo_request ''GET'' [] []) \<noteq> ''/health''" by (simp add: demo_request_def)
  with unfinished_requests_are_not_audited [OF gw reach_init _ disjI1 [OF run(1)]] run
  show ?thesis by (auto simp: init_world_def)
qed

text \<open>
  C11: the internal header \<open>X-Audit-Client-Id\<close> is in no response that is sent, whatever the outcome
  of the handler and whatever the MCP server puts into its own response.
\<close>

theorem internal_header_never_sent:
  assumes "startup getenv open_file listen = Inr gw" "reach gw s" "req_path r \<noteq> ''/health''"
    and "wf_env env" "new_conn c0" "go_state (gateway_Handler gw env r (Base c0) s) = (w', s')"
  shows "\<exists>c'. w' = Base c' \<and> (\<forall>code h. c_sent c' = Some (code, h) \<longrightarrow> hvalues h AuditClientIDHeader = [])"
  using gateway_no_audit_header [OF assms(1,3) reach_provenance [OF assms(1,2)] assms(4-6)]
  by (metis no_audit_header_def)

theorem internal_header_never_sent_witness:
  "\<exists>gw c' s'. gateway_Handler gw (demo_env ''true'') demo_post (Base demo_conn) init_world = Ret (Base c', s') \<and>
     (\<forall>code h. c_sent c' = Some (code, h) \<longrightarrow> hvalues h AuditClientIDHeader = [])"
proof -
  obtain gw w' s' q where gw: "startup demo_getenv (\<lambda>_. None) (\<lambda>_. None) = Inr gw"
    and run: "gateway_Handler gw (demo_env ''true'') demo_post (Base demo_conn) init_world = Ret (w', s')"
      "upstream_events s' = upstream_events init_world @ [Ev_Upstream q]" by (rule demo_served)
  with internal_header_never_sent [OF gw reach_init demo_post_fields(3) wf_demo_env new_demo_conn, of "''true''" w' s']
  show ?thesis by auto
qed

section \<open>Health check, startup, shutdown, runs\<close>

text \<open>
  C37: the health check needs no token and is answered with 200 without a call to any service and
  without an audit entry.
\<close>

theorem health_check:
  assumes "startup getenv open_file listen = Inr gw" "wf_path r" "req_path r = ''/health''" "c_sent c = None"
  shows "\<exists>c' s' h. gateway_Handler gw env r (Base c) s = Ret (Base c', s') \<and>
    c_sent c' = Some (StatusOK, h) \<and> hget h ''Content-Type'' = ''application/json'' \<and>
    wd_events s' = wd_events s \<and> wd_store s' = wd_store s \<and> wd_audit_out s' = wd_audit_out s"
proof -
  obtain i s1 where run: "gateway_Handler gw env r (Base c) s =
      handleHealth env (WithRequestID i r) (w_set_header (hset RequestIDHeader i) (Base c)) s1"
    and s1: "calls_only s s1" "wd_events s1 = wd_events s"
    by (rule gateway_health [OF assms(1-3)])
  define c1 where "c1 = c\<lparr>c_header := hset ''Content-Type'' ''application/json'' (hset RequestIDHeader i (c_header c))\<rparr>"
  define b where "b = ''{'' @ quote @ ''status'' @ quote @ '':'' @ quote @ ''ok'' @ quote @ ''}''"
  have c1: "c_sent c1 = None" using assms(4) by (simp add: c1_def)
  have w: "WriteHeader StatusOK (Base c1) = Base (c1\<lparr>c_sent := Some (StatusOK, c_header c1)\<rparr>)"
    using c1 by (simp add: conn_WriteHeader_def http_status)
  obtain ok w2 where wr: "Write b (WriteHeader StatusOK (Base c1)) = (ok, w2)" by fastforce
  then have "c_sent (w_conn w2) = Some (StatusOK, c_header c1)"
    by (rule Write_sent [rotated]) (simp only: w, simp)
  moreover obtain c2 where "w2 = Base c2" using wr by (auto simp: w split: prod.splits)
  moreover have "handleHealth env (WithRequestID i r) (w_set_header (hset RequestIDHeader i) (Base c)) s1 = Ret (w2, s1)"
    using wr by (simp add: handleHealth_def write_all_def b_def c1_def w_set_header_def)
  ultimately show ?thesis
    using run s1 by (auto simp: c1_def hget_hset calls_only_def)
qed

theorem health_check_witness:
  "\<exists>gw c' s' h. gateway_Handler gw (demo_env ''true'')
       ((demo_request ''GET'' [] [])\<lparr>req_path := ''/health'', req_escaped := ''/health''\<rparr>)
       (Base demo_conn) init_world = Ret (Base c', s') \<and>
     c_sent c' = Some (StatusOK, h)"
proof -
  obtain gw where gw: "startup demo_getenv (\<lambda>_. None) (\<lambda>_. None) = Inr gw" using demo_startup by blast
  let ?r = "(demo_request ''GET'' [] [])\<lparr>req_path := ''/health'', req_escaped := ''/health''\<rparr>"
  have "wf_path ?r" by (simp add: wf_path_def unescapePath_def)
  with health_check [OF gw, of ?r demo_conn "demo_env ''true''" init_world] show ?thesis
    by (fastforce simp: demo_conn_def)
qed

text \<open>
  In every reachable state the in-memory store and the log file hold the same entries: the log one
  line for each entry, the store the newest 10000 of them, newest first.
\<close>

lemma store_agrees_with_log:
  assumes "startup getenv open_file listen = Inr gw" "reach gw s"
  shows "\<exists>es. wd_audit_out s = map log_attrs es \<and> store_log (wd_store s) = take maxStoreSize (rev es)"
proof -
  obtain es where "wd_store s = fold Append es NewStore" "wd_audit_out s = map log_attrs es"
    by (rule reach_trail [OF assms])
  then show ?thesis using ring.log_fresh by metis
qed

text \<open>
  C38: startup succeeds exactly when the three URLs parse, the audit log can be opened and the gRPC
  address can be listened on; everything else has a default.
\<close>

theorem startup_succeeds_iff:
  "(\<exists>gw. startup getenv open_file listen = Inr gw) \<longleftrightarrow>
     parseRequestURI (getenv ''UPSTREAM_MCP_URL'') \<noteq> None \<and>
     parseRequestURI (getenv ''HYDRA_ADMIN_URL'') \<noteq> None \<and>
     parseRequestURI (getenv ''OPA_URL'') \<noteq> None \<and>
     (envOrDefault getenv ''AUDIT_LOG_PATH'' ''stdout'' = ''stdout'' \<or>
      open_file (envOrDefault getenv ''AUDIT_LOG_PATH'' ''stdout'') = None) \<and>
     listen (envOrDefault getenv ''GRPC_LISTEN_ADDR'' '':9090'') = None"
proof (cases "Load getenv")
  case (Inl e)
  then have "\<not> (\<exists>c. Load getenv = Inr c)" by simp
  moreover have "\<exists>c. Load getenv = Inr c" if "parseRequestURI (getenv ''UPSTREAM_MCP_URL'') \<noteq> None"
     "parseRequestURI (getenv ''HYDRA_ADMIN_URL'') \<noteq> None" "parseRequestURI (getenv ''OPA_URL'') \<noteq> None"
    using that by (simp add: Load_def Let_def validate_None_iff [THEN iffD2])
  ultimately show ?thesis using Inl by (auto simp: startup_def)
next
  case (Inr cfg)
  note c = Load_Inr_iff [THEN iffD1, OF Inr]
  note v = c [THEN conjunct1, unfolded validate_None_iff]
  have path: "AuditLogPath cfg \<noteq> []" using c envOrDefault_nonempty [of "''stdout''"] by simp
  have ne: "UpstreamMCPURL cfg \<noteq> []" "HydraAdminURL cfg \<noteq> []" "OPAURL cfg \<noteq> []" using v by auto
  from v obtain u where u: "parseRequestURI (UpstreamMCPURL cfg) = Some u" by blast
  have "(\<exists>gw. startup getenv open_file listen = Inr gw) \<longleftrightarrow>
      (AuditLogPath cfg = ''stdout'' \<or> open_file (AuditLogPath cfg) = None) \<and> listen (GRPCListenAddr cfg) = None"
    using Inr v ne path u
    by (auto simp: startup_def NewLogger_def NewHydraIntrospector_def policy_NewClient_def proxy_New_def
        split: option.split)
  with c v show ?thesis by simp
qed

text \<open>
  C39: \<open>run\<close> never returns exactly if startup succeeds and \<open>GracefulStop\<close> waits for a gRPC call for ever; it
  returns nil exactly if startup succeeds, what ended the run was a signal or a server that was closed,
  and the HTTP server was shut down in what the gRPC calls had left of the 30 seconds; and the audit log
  has been closed exactly if it is a file and the shutdown was in time, whatever ended the run.
\<close>

theorem shutdown_outcome:
  "(run getenv open_file listen cause graceful http_shutdown = None \<longleftrightarrow>
     (\<exists>gw. startup getenv open_file listen = Inr gw) \<and> graceful = None) \<and>
   (\<forall>d err gw'. run getenv open_file listen cause graceful http_shutdown = Some (err, gw') \<and> graceful = Some d \<longrightarrow>
     (err = None \<longleftrightarrow> (\<exists>gw. startup getenv open_file listen = Inr gw) \<and>
        http_shutdown (30 * 10 ^ 9 - d) = None \<and>
        cause \<in> {SignalReceived, ProxyStopped ServerClosed, GrpcStopped None}) \<and>
     (\<forall>gw. gw' = Some gw \<longrightarrow> (lg_closed (gw_logger gw) \<longleftrightarrow>
        http_shutdown (30 * 10 ^ 9 - d) = None \<and> AuditLogPath (gw_config gw) \<noteq> ''stdout'')))"
proof (cases "startup getenv open_file listen")
  case (Inl e)
  then show ?thesis by (simp add: run_def)
next
  case (Inr gw)
  have l: "lg_closer (gw_logger gw) \<longleftrightarrow> AuditLogPath (gw_config gw) \<noteq> ''stdout''" "\<not> lg_closed (gw_logger gw)"
    using startup_logger [OF Inr] by simp_all
  have "startupErr cause = None \<longleftrightarrow> cause \<in> {SignalReceived, ProxyStopped ServerClosed, GrpcStopped None}"
    by (cases cause rule: startupErr.cases)
      (auto simp: ListenAndServe_def grpc_Serve_def split: option.split serve_result.split)
  then show ?thesis
    using l by (auto simp: run_def Inr shutdown_def shutdownTimeout_def Close_def split: option.splits)
qed

text \<open>
  The witness: requests that need one second are not waited for when the gRPC calls have taken 29.5
  seconds, and then the audit log is not closed.
\<close>

theorem shutdown_outcome_witness:
  "let drain = (\<lambda>left. if left < 10 ^ 9 then Some ''context deadline exceeded'' else None);
       stop = (\<lambda>ms. run demo_getenv (\<lambda>_. None) (\<lambda>_. None) SignalReceived (Some (ms * 10 ^ 6)) drain)
   in map_option fst (stop 100) = Some None \<and> map_option fst (stop 29500) \<noteq> Some None \<and>
      run demo_getenv (\<lambda>_. None) (\<lambda>_. None) SignalReceived None drain = None"
proof -
  obtain gw where gw: "startup demo_getenv (\<lambda>_. None) (\<lambda>_. None) = Inr gw" using demo_startup by blast
  let ?drain = "\<lambda>left :: int. if left < 10 ^ 9 then Some ''context deadline exceeded'' else None"
  note out = shutdown_outcome [of demo_getenv "\<lambda>_. None" "\<lambda>_. None" SignalReceived _ ?drain]
  obtain r1 g1 where r1: "run demo_getenv (\<lambda>_. None) (\<lambda>_. None) SignalReceived (Some (100 * 10 ^ 6)) ?drain = Some (r1, g1)"
    using out [of "Some (100 * 10 ^ 6)"] by (metis option.distinct(1) option.exhaust surj_pair)
  obtain r2 g2 where r2: "run demo_getenv (\<lambda>_. None) (\<lambda>_. None) SignalReceived (Some (29500 * 10 ^ 6)) ?drain = Some (r2, g2)"
    using out [of "Some (29500 * 10 ^ 6)"] by (metis option.distinct(1) option.exhaust surj_pair)
  have "r1 = None" using out [of "Some (100 * 10 ^ 6)"] r1 gw by simp
  moreover have "r2 \<noteq> None" using out [of "Some (29500 * 10 ^ 6)"] r2 by simp
  moreover have "run demo_getenv (\<lambda>_. None) (\<lambda>_. None) SignalReceived None ?drain = None"
    using out [of None] gw by blast
  ultimately show ?thesis using r1 r2 by (simp add: Let_def)
qed

lemma gateway_keeps_deadline:
  assumes "startup getenv open_file listen = Inr gw" "wf_path r"
    and "go_state (gateway_Handler gw env r (Base c0) s) = (w', s')"
  shows "c_deadline (w_conn w') = c_deadline c0"
proof (cases "req_path r = ''/health''")
  case True
  obtain i s1 where "gateway_Handler gw env r (Base c0) s =
      handleHealth env (WithRequestID i r) (w_set_header (hset RequestIDHeader i) (Base c0)) s1"
    by (rule gateway_health [OF assms(1,2) True])
  with assms(3) have "w_shape w' = w_shape (Base c0)" by (auto simp: handleHealth_def shape)
  then show ?thesis by (simp add: w_shape_def)
next
  case False
  obtain h c where gw: "gateway_Handler gw =
      RequestIDMiddleware (audit_Handler main_audit (guarded h c (gw_server gw)))"
    using startup_chain [OF assms(1)] by metis
  obtain i s1 where run: "gateway_Handler gw env r (Base c0) s =
      audit_Handler main_audit (guarded h c (gw_server gw)) env (WithRequestID i r)
        (w_set_header (hset RequestIDHeader i) (Base c0)) s1"
    using RequestID_step [of "audit_Handler main_audit (guarded h c (gw_server gw))" env r "Base c0" s] gw by metis
  have "keeps_shape (guarded h c (gw_server gw))"
    unfolding guarded_def by (intro keeps_shape_auth keeps_shape_policy keeps_shape_mux)
  from shape_audit [OF this, of "WithRequestID i r" main_audit env] assms(3) run False
  have "w_shape w' = w_shape (Base c0)" by (simp add: shape)
  then show ?thesis by (simp add: w_shape_def)
qed

text \<open>
  C36: no response of the gateway ever has a write deadline the connection did not have before: the HTTP
  server \<open>New\<close> makes sets none, and the 30 seconds \<open>handleProxy\<close> asks for do not reach the connection
  through the recorder of the audit middleware, for any request.
\<close>

theorem no_write_deadline:
  assumes "startup getenv open_file listen = Inr gw" "wf_path r"
    and "go_state (gateway_Handler gw env r (Base (served_conn (sv_httpServer (gw_server gw)) now c0)) s) = (w', s')"
  shows "c_deadline (w_conn w') = c_deadline c0"
proof -
  have run: "go_state (gateway_Handler gw env r (Base c0) s) = (w', s')"
    using assms(3) by (simp add: startup_http_server [OF assms(1)])
  show ?thesis by (rule gateway_keeps_deadline [OF assms(1,2) run])
qed

theorem no_write_deadline_witness:
  "\<exists>gw w' s'. gateway_Handler gw (demo_env ''true'') demo_post (Base demo_conn) init_world = Ret (w', s') \<and>
     c_deadline (w_conn w') = None"
proof -
  obtain gw w' s' q where gw: "startup demo_getenv (\<lambda>_. None) (\<lambda>_. None) = Inr gw"
    and run: "gateway_Handler gw (demo_env ''true'') demo_post (Base demo_conn) init_world = Ret (w', s')"
    by (rule demo_served)
  with no_write_deadline [OF gw demo_post_fields(1), of "demo_env ''true''" 0 demo_conn init_world w' s']
  show ?thesis by (auto simp: demo_conn_def startup_http_server [OF gw])
qed

end
